(* ===== verification/Prelude.thy ===== *)
theory Prelude
  imports Main "HOL-Library.Word" "HOL-Library.AList" "HOL-Library.Char_ord"
    "HOL-Library.List_Lexorder"
begin

text \<open>
  Shared vocabulary of the walkie development: the types every component uses
  (Go strings, byte slices, instants, durations, fallible results), the model
  of the standard-library functions the sources call (\<^verbatim>\<open>utf8.ValidString\<close>,
  integer conversion between \<^verbatim>\<open>uint64\<close> and \<^verbatim>\<open>int64\<close>), bounded list windows, and the
  interface locales that several components instantiate: a filter-like channel
  with a fixed capacity, and a labelled step system with its reachable states.
\<close>

section \<open>Types\<close>

text \<open>
  A Go string is a sequence of bytes, which is what a list of Isabelle
  characters is.  An instant is the number of nanoseconds since Go's zero
  \<^verbatim>\<open>time.Time\<close>, so \<^verbatim>\<open>IsZero\<close> is equality with 0; a duration is a number of
  nanoseconds.
\<close>

type_synonym time = int
type_synonym duration = int
type_synonym byte = "8 word"
type_synonym bytes = "8 word list"
type_synonym u64 = "64 word"
type_synonym ('e, 'a) result = "'e + 'a"

abbreviation Ok :: "'a \<Rightarrow> ('e, 'a) result" where "Ok \<equiv> Inr"
abbreviation Err :: "'e \<Rightarrow> ('e, 'a) result" where "Err \<equiv> Inl"

definition zero_time :: time where "zero_time = 0"

definition IsZero :: "time \<Rightarrow> bool" where "IsZero t \<longleftrightarrow> t = zero_time"

definition second :: duration where "second = 1000000000"

definition is_ok :: "('e, 'a) result \<Rightarrow> bool" where
  "is_ok r = (case r of Inl _ \<Rightarrow> False | Inr _ \<Rightarrow> True)"

lemma is_ok_simps [simp]: "is_ok (Inr a)" "\<not> is_ok (Inl e)"
  by (simp_all add: is_ok_def)

named_theorems model_defs "operations of the model, unfolded by component proofs"
named_theorems invar_intros "introduction facts for component invariants"

section \<open>Integer conversions\<close>

text \<open>
  \<^verbatim>\<open>int64(x)\<close> of an unsigned value reinterprets the 64 bits in two's complement;
  \<^verbatim>\<open>uint64(x)\<close> of a signed value is the inverse.  Arithmetic on a Go \<^verbatim>\<open>int64\<close> wraps.
\<close>

definition int64 :: "u64 \<Rightarrow> int" where "int64 w = sint w"

definition uint64 :: "int \<Rightarrow> u64" where "uint64 i = word_of_int i"

definition wrap64 :: "int \<Rightarrow> int" where "wrap64 i = signed_take_bit 63 i"

lemma int64_uint64: "- (2 ^ 63) \<le> i \<Longrightarrow> i < 2 ^ 63 \<Longrightarrow> int64 (uint64 i) = i"
  by (simp add: int64_def uint64_def sint_sbintrunc' signed_take_bit_int_eq_self)

lemma int64_small: "uint w < 2 ^ 63 \<Longrightarrow> int64 w = uint w"
  using int64_uint64 [of "uint w"] uint_ge_0 [of w] by (simp add: uint64_def del: uint_ge_0)

lemma int64_large:
  assumes "2 ^ 63 \<le> uint w" shows "int64 w = uint w - 2 ^ 64"
proof -
  have "uint w < 2 ^ 64" using uint_lt2p [of w] by simp
  moreover have "uint64 (uint w - 2 ^ 64) = w"
    unfolding uint64_def word_uint_eq_iff uint_word_of_int using uint_lt2p [of w]
    by (simp add: mod_simps)
  ultimately show ?thesis
    using int64_uint64 [of "uint w - 2 ^ 64"] assms by simp
qed

lemma uint64_int64 [simp]: "uint64 (int64 w) = w"
  by (simp add: uint64_def int64_def)

lemma int64_bounds: "- (2 ^ 63) \<le> int64 w" "int64 w < 2 ^ 63"
  using sint_ge [of w] sint_lt [of w] by (simp_all add: int64_def)

lemma wrap64_id: "- (2 ^ 63) \<le> i \<Longrightarrow> i < 2 ^ 63 \<Longrightarrow> wrap64 i = i"
  by (simp add: wrap64_def signed_take_bit_int_eq_self)

lemma unat_of_nat_u64: "int k < 2 ^ 64 \<Longrightarrow> unat (of_nat k :: u64) = k"
proof -
  assume k: "int k < 2 ^ 64"
  have "uint (of_nat k :: u64) = take_bit 64 (int k)" by (simp add: unsigned_of_nat of_nat_take_bit)
  also have "\<dots> = int k" using k by (simp add: take_bit_int_eq_self)
  finally show ?thesis by (metis unat_eq_nat_uint nat_int)
qed

section \<open>Rendering\<close>

text \<open>\<^verbatim>\<open>%q\<close> quotes a string; bytes outside printable ASCII other than the named
  escapes are rendered as they are.\<close>

definition quote_char :: "char \<Rightarrow> string" where
  "quote_char c = (if c = CHR 0x22 then [CHR 0x5C, CHR 0x22]
     else if c = CHR 0x5C then [CHR 0x5C, CHR 0x5C]
     else if c = CHR 0x0A then [CHR 0x5C, CHR ''n'']
     else if c = CHR 0x0D then [CHR 0x5C, CHR ''r'']
     else if c = CHR 0x09 then [CHR 0x5C, CHR ''t'']
     else [c])"

definition quote_string :: "string \<Rightarrow> string" where
  "quote_string s = [CHR 0x22] @ concat (map quote_char s) @ [CHR 0x22]"

text \<open>\<^verbatim>\<open>fmt.Sprintf\<close> with \<^verbatim>\<open>%d\<close> of a non-negative number.\<close>

definition digit_char :: "nat \<Rightarrow> char" where "digit_char n = char_of (48 + n)"

fun decimal :: "nat \<Rightarrow> string" where
  "decimal n = (if n < 10 then [digit_char n] else decimal (n div 10) @ [digit_char (n mod 10)])"

declare decimal.simps [simp del]

section \<open>UTF-8 validity\<close>

text \<open>
  \<^verbatim>\<open>utf8.ValidString\<close>: shortest-form sequences of one to four bytes, without the
  surrogate range and nothing above U+10FFFF.
\<close>

definition utf8_cont :: "nat \<Rightarrow> bool" where
  "utf8_cont b \<longleftrightarrow> 128 \<le> b \<and> b \<le> 191"

definition utf8_second3 :: "nat \<Rightarrow> nat \<Rightarrow> bool" where
  "utf8_second3 a b \<longleftrightarrow> (if a = 224 then 160 else 128) \<le> b \<and> b \<le> (if a = 237 then 159 else 191)"

definition utf8_second4 :: "nat \<Rightarrow> nat \<Rightarrow> bool" where
  "utf8_second4 a b \<longleftrightarrow> (if a = 240 then 144 else 128) \<le> b \<and> b \<le> (if a = 244 then 143 else 191)"

fun utf8_codes :: "nat list \<Rightarrow> bool" where
  "utf8_codes [] = True"
| "utf8_codes (a # xs) =
     (if a < 128 then utf8_codes xs
      else if 194 \<le> a \<and> a \<le> 223 then
        (case xs of b # ys \<Rightarrow> utf8_cont b \<and> utf8_codes ys | _ \<Rightarrow> False)
      else if 224 \<le> a \<and> a \<le> 239 then
        (case xs of b # c # ys \<Rightarrow> utf8_second3 a b \<and> utf8_cont c \<and> utf8_codes ys | _ \<Rightarrow> False)
      else if 240 \<le> a \<and> a \<le> 244 then
        (case xs of b # c # d # ys \<Rightarrow>
           utf8_second4 a b \<and> utf8_cont c \<and> utf8_cont d \<and> utf8_codes ys | _ \<Rightarrow> False)
      else False)"

definition ValidString :: "string \<Rightarrow> bool" where
  "ValidString s = utf8_codes (map of_char s)"

lemma ascii_codes_valid: "list_all (\<lambda>a. a < 128) xs \<Longrightarrow> utf8_codes xs"
  by (induction xs) auto

lemma ascii_valid: "list_all (\<lambda>c. (of_char c :: nat) < 128) s \<Longrightarrow> ValidString s"
  unfolding ValidString_def by (rule ascii_codes_valid) (simp add: list.pred_map comp_def)

section \<open>Bounded windows on lists\<close>

definition lastn :: "nat \<Rightarrow> 'a list \<Rightarrow> 'a list" where
  "lastn n xs = drop (length xs - n) xs"

lemma length_lastn [simp]: "length (lastn n xs) = min n (length xs)"
  by (simp add: lastn_def)

lemma lastn_short [simp]: "length xs \<le> n \<Longrightarrow> lastn n xs = xs"
  by (simp add: lastn_def)

lemma set_lastn: "set (lastn n xs) \<subseteq> set xs"
  by (simp add: lastn_def set_drop_subset)

lemma lastn_snoc: "0 < n \<Longrightarrow> lastn n (xs @ [x]) = lastn n (lastn n xs @ [x])"
proof (cases "length xs < n")
  case False
  then have "length xs - n + 1 = length (xs @ [x]) - n" by simp
  then show "0 < n \<Longrightarrow> ?thesis"
    using False by (simp add: lastn_def Suc_diff_le)
qed (simp add: lastn_def)

lemma distinct_lastn: "distinct xs \<Longrightarrow> distinct (lastn n xs)"
  by (simp add: lastn_def)

section \<open>Association lists as Go maps\<close>

text \<open>
  A Go map that the code iterates over is an association list with distinct
  keys: \<^term>\<open>map_of\<close> is the lookup, \<^term>\<open>AList.update\<close> the assignment and
  \<^term>\<open>AList.delete\<close> the deletion.
\<close>

definition wf_map :: "('k \<times> 'v) list \<Rightarrow> bool" where
  "wf_map m \<longleftrightarrow> distinct (map fst m)"

lemma wf_map_empty [simp]: "wf_map []" by (simp add: wf_map_def)

lemma wf_map_update [simp]: "wf_map m \<Longrightarrow> wf_map (AList.update k v m)"
  by (simp add: wf_map_def distinct_update)

lemma wf_map_delete [simp]: "wf_map m \<Longrightarrow> wf_map (AList.delete k m)"
  by (simp add: wf_map_def distinct_delete)

lemma map_of_update [simp]: "map_of (AList.update k v m) = (map_of m)(k \<mapsto> v)"
  by (rule update_conv')

lemma map_of_delete [simp]: "map_of (AList.delete k m) = (map_of m)(k := None)"
  by (simp add: delete_conv')

lemma wf_map_lookup: "wf_map m \<Longrightarrow> (k, v) \<in> set m \<longleftrightarrow> map_of m k = Some v"
  by (simp add: wf_map_def)

lemma map_values_iff:
  "wf_map m \<Longrightarrow> x \<in> set (map (\<lambda>(k, d). f d) m) \<longleftrightarrow> (\<exists>k. map_option f (map_of m k) = Some x)"
proof -
  assume wf: "wf_map m"
  have "(\<exists>k. map_option f (map_of m k) = Some x) \<longleftrightarrow> (\<exists>k d. map_of m k = Some d \<and> f d = x)" by simp
  also have "\<dots> \<longleftrightarrow> (\<exists>k d. (k, d) \<in> set m \<and> f d = x)" using wf by (simp add: wf_map_lookup)
  also have "\<dots> \<longleftrightarrow> x \<in> set (map (\<lambda>(k, d). f d) m)" by force
  finally show ?thesis by simp
qed

section \<open>Sorting by a key\<close>

lemma sort_key_cong_set:
  fixes f :: "'a \<Rightarrow> 'b::linorder"
  assumes "distinct (map f xs)" "distinct (map f ys)" "set xs = set ys"
  shows "sort_key f xs = sort_key f ys"
proof -
  have "distinct (map f (sort_key f zs))" if "distinct (map f zs)" for zs
    using that by (auto simp: distinct_map)
  then have "map f (sort_key f xs) = map f (sort_key f ys)"
    using assms by (intro sorted_distinct_set_unique) auto
  then show ?thesis
    using assms(1,3) by (auto simp: distinct_map intro: map_inj_on)
qed

lemma map_sort_key:
  fixes f :: "'a \<Rightarrow> 'b::linorder"
  assumes "\<And>x. x \<in> set xs \<Longrightarrow> f' (g x) = f x"
  shows "map g (sort_key f xs) = sort_key f' (map g xs)"
proof -
  have ins: "map g (insort_key f x ys) = insort_key f' (g x) (map g ys)"
    if "f' (g x) = f x" "\<And>y. y \<in> set ys \<Longrightarrow> f' (g y) = f y" for x ys
    using that by (induction ys) auto
  show ?thesis using assms
  proof (induction xs)
    case (Cons x xs)
    have "map g (insort_key f x (sort_key f xs)) = insort_key f' (g x) (map g (sort_key f xs))"
      by (rule ins) (use Cons.prems in auto)
    then show ?case using Cons by auto
  qed simp
qed

lemma word_less_Suc: "x \<noteq> - 1 \<Longrightarrow> x < x + 1" for x :: u64
proof -
  assume "x \<noteq> - 1"
  then have "1 + x \<noteq> 0" by (metis add.commute add_eq_0_iff)
  then have "unat (1 + x) = Suc (unat x)" by (rule unatSuc)
  then show ?thesis by (simp add: word_less_nat_alt add.commute)
qed

text \<open>Replacing one summand.\<close>

lemma sum_list_exchange:
  fixes g :: "'a \<Rightarrow> 'b::cancel_comm_monoid_add"
  assumes "i < length xs"
  shows "sum_list (map g (xs[i := y])) + g (xs ! i) = sum_list (map g xs) + g y"
  using assms
proof (induction xs arbitrary: i)
  case (Cons x xs)
  then show ?case by (cases i) (simp_all add: ac_simps)
qed simp

end
