(* ===== verification/Channels.thy ===== *)
theory Channels
  imports Prelude
begin

text \<open>
  Buffered Go channels with the non-blocking send the sources use everywhere
  (\<^verbatim>\<open>select { case ch <- v: default: }\<close>): a value that finds the buffer full is
  dropped.  The locale \<open>drop_newest\<close> is the contract of such a feed; the
  coordinator's presence subscriptions, the client's roster subscriptions and
  the notifications of the terminal interface interpret it.
\<close>

definition nb_send :: "nat \<Rightarrow> 'a \<Rightarrow> 'a list \<Rightarrow> 'a list" where
  "nb_send cap x buf = (if length buf < cap then buf @ [x] else buf)"

lemma nb_send_bound [simp]: "length buf \<le> cap \<Longrightarrow> length (nb_send cap x buf) \<le> cap"
  by (simp add: nb_send_def)

locale drop_newest =
  fixes push :: "'x \<Rightarrow> 's \<Rightarrow> 's"
    and contents :: "'s \<Rightarrow> 'x list"
    and cap :: nat
  assumes push_contents: "contents (push x s) = nb_send cap x (contents s)"
begin

lemma push_bound: "length (contents s) \<le> cap \<Longrightarrow> length (contents (push x s)) \<le> cap"
  by (simp add: push_contents)

lemma push_all:
  "length (contents s) \<le> cap \<Longrightarrow>
     contents (fold push xs s) = contents s @ take (cap - length (contents s)) xs"
proof (induction xs arbitrary: s)
  case (Cons x xs)
  show ?case
  proof (cases "length (contents s) < cap")
    case True
    then have "take (cap - length (contents s)) (x # xs) = x # take (cap - Suc (length (contents s))) xs"
      by (simp add: take_Cons')
    then show ?thesis using Cons.IH [of "push x s"] True by (simp add: push_contents nb_send_def)
  next
    case False
    then show ?thesis using Cons.IH [of "push x s"] Cons.prems by (simp add: push_contents nb_send_def)
  qed
qed simp

lemma push_mono: "length (contents s) \<le> length (contents (fold push xs s))"
proof (induction xs arbitrary: s)
  case (Cons x xs)
  have "length (contents s) \<le> length (contents (push x s))" by (simp add: push_contents nb_send_def)
  also have "\<dots> \<le> length (contents (fold push xs (push x s)))" by (rule Cons.IH)
  finally show ?case by simp
qed simp

text \<open>A buffer that ends up below its capacity dropped nothing.\<close>

lemma push_undropped:
  assumes "length (contents (fold push xs s)) < cap"
  shows "contents (fold push xs s) = contents s @ xs"
proof -
  have "length (contents s) \<le> cap" using push_mono [of s xs] assms by simp
  from push_all [OF this, of xs] assms show ?thesis by simp
qed

lemma push_room:
  "length (contents s) + length xs \<le> cap \<Longrightarrow> contents (fold push xs s) = contents s @ xs"
  by (simp add: push_all)

end

end
