(* ===== verification/Machine.thy ===== *)
theory Machine
  imports Channels
begin

text \<open>
  \<^verbatim>\<open>src/internal/control/state.go\<close>: the connection state machine and its subscriptions.
  A subscription is the queue \<open>ms_pend\<close>, the batch \<open>ms_local\<close> its pump goroutine
  took from it, and the consumer's channel \<open>ms_out\<close>; the pump's program counter is
  \<open>ms_pump\<close>.  A Go panic is the result \<open>IllegalTransition\<close>.  The fields \<open>m_log\<close>,
  \<open>ms_from\<close> and \<open>ms_received\<close> are history variables that no operation reads: the
  changes made so far, how many there were at the subscription, and what the
  consumer has received.
\<close>

section \<open>States and edges\<close>

datatype conn_state = StateDisconnected | StateConnecting | StateHandshaking | StateOnline | StateDegraded

definition state_String :: "conn_state \<Rightarrow> string" where
  "state_String s = (case s of
      StateDisconnected \<Rightarrow> ''disconnected'' | StateConnecting \<Rightarrow> ''connecting''
    | StateHandshaking \<Rightarrow> ''handshaking'' | StateOnline \<Rightarrow> ''online'' | StateDegraded \<Rightarrow> ''degraded'')"

definition legalTransitions :: "(conn_state \<times> (conn_state \<times> string) list) list" where
  "legalTransitions =
    [(StateDisconnected, [(StateConnecting, ''dial attempt started'')]),
     (StateConnecting, [(StateHandshaking, ''transport established''), (StateDisconnected, ''dial failed'')]),
     (StateHandshaking, [(StateOnline, ''handshake completed''), (StateDisconnected, ''handshake failed'')]),
     (StateOnline, [(StateDegraded, ''peer went silent''), (StateDisconnected, ''transport error or close'')]),
     (StateDegraded, [(StateDisconnected, ''dead peer torn down'')])]"

definition canTransition :: "conn_state \<Rightarrow> conn_state \<Rightarrow> bool" where
  "canTransition from to =
     (case map_of legalTransitions from of None \<Rightarrow> False | Some tos \<Rightarrow> map_of tos to \<noteq> None)"

lemma canTransition_iff [simp]: "canTransition from to \<longleftrightarrow>
    (from = StateDisconnected \<and> to = StateConnecting) \<or>
    (from = StateConnecting \<and> to \<in> {StateHandshaking, StateDisconnected}) \<or>
    (from = StateHandshaking \<and> to \<in> {StateOnline, StateDisconnected}) \<or>
    (from = StateOnline \<and> to \<in> {StateDegraded, StateDisconnected}) \<or>
    (from = StateDegraded \<and> to = StateDisconnected)"
  by (cases "from"; cases "to") (simp_all add: canTransition_def legalTransitions_def)

section \<open>The machine\<close>

record conn_change =
  cc_From :: conn_state
  cc_To :: conn_state
  cc_Reason :: string
  cc_At :: time

datatype pump_pc = PumpTake | PumpPush | PumpWait | PumpExit

record msub =
  ms_pend :: "conn_change list"
  ms_local :: "conn_change list"
  ms_out :: "conn_change list"
  ms_sig :: bool
  ms_done :: bool
  ms_drain :: bool
  ms_registered :: bool
  ms_pump :: pump_pc
  ms_from :: nat
  ms_received :: "conn_change list"

record machine =
  m_cur :: conn_state
  m_closed :: bool
  m_subs :: "msub list"
  m_log :: "conn_change list"

definition NewMachine :: machine where
  "NewMachine = \<lparr>m_cur = StateDisconnected, m_closed = False, m_subs = [], m_log = []\<rparr>"

definition machine_buffer :: nat where "machine_buffer = 16"

definition sub_enqueue :: "conn_change \<Rightarrow> msub \<Rightarrow> msub" where
  "sub_enqueue ch s = s\<lparr>ms_pend := ms_pend s @ [ch], ms_sig := True\<rparr>"

datatype transition_result = IllegalTransition | MachineClosed | Unchanged | Changed

definition Transition :: "time \<Rightarrow> conn_state \<Rightarrow> string \<Rightarrow> machine \<Rightarrow> transition_result \<times> machine" where
  "Transition now to reason m =
     (if m_closed m then (MachineClosed, m)
      else if m_cur m = to then (Unchanged, m)
      else if \<not> canTransition (m_cur m) to then (IllegalTransition, m)
      else let ch = \<lparr>cc_From = m_cur m, cc_To = to, cc_Reason = reason, cc_At = now\<rparr>
           in (Changed, m\<lparr>m_cur := to,
                 m_subs := map (\<lambda>s. if ms_registered s then sub_enqueue ch s else s) (m_subs m),
                 m_log := m_log m @ [ch]\<rparr>))"

definition machine_Subscribe :: "machine \<Rightarrow> nat \<times> machine" where
  "machine_Subscribe m =
     (let s = \<lparr>ms_pend = [], ms_local = [], ms_out = [], ms_sig = False, ms_done = m_closed m,
               ms_drain = False, ms_registered = \<not> m_closed m,
               ms_pump = (if m_closed m then PumpExit else PumpTake),
               ms_from = length (m_log m), ms_received = []\<rparr>
      in (length (m_subs m), m\<lparr>m_subs := m_subs m @ [s]\<rparr>))"

definition sub_finish :: "bool \<Rightarrow> msub \<Rightarrow> msub" where
  "sub_finish drain s = (if ms_done s then s else s\<lparr>ms_drain := drain, ms_done := True\<rparr>)"

definition machine_Close :: "machine \<Rightarrow> machine" where
  "machine_Close m =
     (if m_closed m then m
      else m\<lparr>m_closed := True,
             m_subs := map (\<lambda>s. if ms_registered s then sub_finish True (s\<lparr>ms_registered := False\<rparr>) else s)
                         (m_subs m)\<rparr>)"

definition msub_Close :: "nat \<Rightarrow> machine \<Rightarrow> machine" where
  "msub_Close i m =
     (let s = m_subs m ! i
      in if ms_registered s then m\<lparr>m_subs := (m_subs m)[i := sub_finish False (s\<lparr>ms_registered := False\<rparr>)]\<rparr>
         else m)"

text \<open>One step of a pump: Go's \<^verbatim>\<open>select\<close> may take any ready case, so the step is a relation.\<close>

inductive pump :: "msub \<Rightarrow> msub \<Rightarrow> bool" where
  pump_take: "ms_pump s = PumpTake \<Longrightarrow> pump s (s\<lparr>ms_local := ms_pend s, ms_pend := [], ms_pump := PumpPush\<rparr>)"
| pump_send: "ms_pump s = PumpPush \<Longrightarrow> ms_local s = ch # rest \<Longrightarrow> length (ms_out s) < machine_buffer \<Longrightarrow>
    pump s (s\<lparr>ms_out := ms_out s @ [ch], ms_local := rest\<rparr>)"
| pump_abandon: "ms_pump s = PumpPush \<Longrightarrow> ms_local s \<noteq> [] \<Longrightarrow> ms_done s \<Longrightarrow> \<not> ms_drain s \<Longrightarrow>
    pump s (s\<lparr>ms_pump := PumpExit\<rparr>)"
| pump_batch_end: "ms_pump s = PumpPush \<Longrightarrow> ms_local s = [] \<Longrightarrow> pump s (s\<lparr>ms_pump := PumpWait\<rparr>)"
| pump_wake: "ms_pump s = PumpWait \<Longrightarrow> ms_sig s \<Longrightarrow> pump s (s\<lparr>ms_sig := False, ms_pump := PumpTake\<rparr>)"
| pump_stop: "ms_pump s = PumpWait \<Longrightarrow> ms_done s \<Longrightarrow> \<not> ms_drain s \<or> ms_pend s = [] \<Longrightarrow>
    pump s (s\<lparr>ms_pump := PumpExit\<rparr>)"
| pump_again: "ms_pump s = PumpWait \<Longrightarrow> ms_done s \<Longrightarrow> ms_drain s \<Longrightarrow> ms_pend s \<noteq> [] \<Longrightarrow>
    pump s (s\<lparr>ms_pump := PumpTake\<rparr>)"

definition sub_receive :: "msub \<Rightarrow> msub" where
  "sub_receive s = (case ms_out s of [] \<Rightarrow> s
     | ch # rest \<Rightarrow> s\<lparr>ms_out := rest, ms_received := ms_received s @ [ch]\<rparr>)"

inductive machine_step :: "machine \<Rightarrow> machine \<Rightarrow> bool" where
  transition: "Transition now to reason m = (r, m') \<Longrightarrow> machine_step m m'"
| subscribe: "machine_Subscribe m = (i, m') \<Longrightarrow> machine_step m m'"
| close: "machine_step m (machine_Close m)"
| sub_close: "i < length (m_subs m) \<Longrightarrow> machine_step m (msub_Close i m)"
| pump_step: "i < length (m_subs m) \<Longrightarrow> pump (m_subs m ! i) s' \<Longrightarrow>
    machine_step m (m\<lparr>m_subs := (m_subs m)[i := s']\<rparr>)"
| receive: "i < length (m_subs m) \<Longrightarrow>
    machine_step m (m\<lparr>m_subs := (m_subs m)[i := sub_receive (m_subs m ! i)]\<rparr>)"

inductive machine_reach :: "machine \<Rightarrow> bool" where
  reach_init: "machine_reach NewMachine"
| reach_step: "machine_reach m \<Longrightarrow> machine_step m m' \<Longrightarrow> machine_reach m'"

section \<open>Legal histories\<close>

fun legal_walk :: "conn_state \<Rightarrow> conn_change list \<Rightarrow> conn_state \<Rightarrow> bool" where
  "legal_walk s [] t \<longleftrightarrow> s = t"
| "legal_walk s (ch # chs) t \<longleftrightarrow> cc_From ch = s \<and> canTransition s (cc_To ch) \<and> legal_walk (cc_To ch) chs t"

lemma legal_walk_append:
  "legal_walk s (xs @ [ch]) t \<longleftrightarrow> (\<exists>u. legal_walk s xs u \<and> cc_From ch = u \<and> canTransition u (cc_To ch) \<and> cc_To ch = t)"
  by (induction xs arbitrary: s) auto

section \<open>Delivery\<close>

text \<open>What one subscription owes its consumer: the changes since its start.  While the
  consumer has not closed it, everything owed is received, in the channel, in
  the batch or in the queue, in order; afterwards what it has is a prefix.\<close>

definition stream_of :: "msub \<Rightarrow> conn_change list" where
  "stream_of s = ms_received s @ ms_out s @ ms_local s @ ms_pend s"

definition consumer_closed :: "msub \<Rightarrow> bool" where
  "consumer_closed s \<longleftrightarrow> ms_done s \<and> \<not> ms_drain s"

definition sub_inv :: "conn_change list \<Rightarrow> bool \<Rightarrow> msub \<Rightarrow> bool" where
  "sub_inv log closed s \<longleftrightarrow>
     ms_from s \<le> length log \<and> length (ms_out s) \<le> machine_buffer
   \<and> (\<exists>rest. drop (ms_from s) log = stream_of s @ rest \<and> (\<not> consumer_closed s \<longrightarrow> rest = []))
   \<and> (ms_registered s \<longleftrightarrow> \<not> ms_done s) \<and> (ms_drain s \<longrightarrow> closed) \<and> (closed \<longrightarrow> ms_done s)
   \<and> (ms_pump s = PumpTake \<or> ms_pump s = PumpWait \<longrightarrow> ms_local s = [])
   \<and> (ms_pump s = PumpExit \<longrightarrow> ms_done s \<and> (consumer_closed s \<or> ms_local s = [] \<and> ms_pend s = []))
   \<and> (ms_pump s = PumpPush \<or> ms_pump s = PumpWait \<longrightarrow> ms_pend s = [] \<or> ms_sig s)"

definition machine_inv :: "machine \<Rightarrow> bool" where
  "machine_inv m \<longleftrightarrow> legal_walk StateDisconnected (m_log m) (m_cur m)
     \<and> list_all (sub_inv (m_log m) (m_closed m)) (m_subs m)"

lemma pump_keeps_inv:
  assumes "pump s s'" "sub_inv log closed s" shows "sub_inv log closed s'"
  using assms by (induction rule: pump.induct)
    (auto simp: sub_inv_def stream_of_def consumer_closed_def machine_buffer_def)

lemma receive_keeps_inv: "sub_inv log closed s \<Longrightarrow> sub_inv log closed (sub_receive s)"
proof (cases "ms_out s")
  case (Cons ch rest)
  assume "sub_inv log closed s"
  moreover have "stream_of (sub_receive s) = stream_of s" "consumer_closed (sub_receive s) = consumer_closed s"
    using Cons by (simp_all add: sub_receive_def stream_of_def consumer_closed_def)
  ultimately show ?thesis unfolding sub_inv_def using Cons by (simp add: sub_receive_def)
qed (simp add: sub_receive_def)

lemma enqueue_keeps_inv:
  "sub_inv log False s \<Longrightarrow> ms_registered s \<Longrightarrow> sub_inv (log @ [ch]) False (sub_enqueue ch s)"
  by (auto simp: sub_inv_def sub_enqueue_def stream_of_def consumer_closed_def)

lemma later_keeps_inv:
  "sub_inv log False s \<Longrightarrow> \<not> ms_registered s \<Longrightarrow> sub_inv (log @ [ch]) False s"
  by (auto simp: sub_inv_def stream_of_def consumer_closed_def)

lemma finish_keeps_inv:
  "sub_inv log closed s \<Longrightarrow> ms_registered s \<Longrightarrow> drain \<longrightarrow> closed' \<Longrightarrow> closed \<longrightarrow> closed' \<Longrightarrow>
     sub_inv log closed' (sub_finish drain (s\<lparr>ms_registered := False\<rparr>))"
  by (auto simp: sub_inv_def sub_finish_def stream_of_def consumer_closed_def)

lemma closed_keeps_inv: "sub_inv log closed s \<Longrightarrow> \<not> ms_registered s \<Longrightarrow> sub_inv log True s"
  by (auto simp: sub_inv_def)

lemma list_all_update_nth: "list_all P xs \<Longrightarrow> (i < length xs \<Longrightarrow> P y) \<Longrightarrow> list_all P (xs[i := y])"
  by (cases "i < length xs") (auto simp: list_all_length nth_list_update)

lemma machine_step_inv:
  assumes "machine_step m m'" "machine_inv m" shows "machine_inv m'"
  using assms
proof (induction rule: machine_step.induct)
  case (transition now to reason m r m')
  show ?case
  proof (cases "m' = m")
    case False
    then have "\<not> m_closed m" "canTransition (m_cur m) to"
      "m' = m\<lparr>m_cur := to, m_subs := map (\<lambda>s. if ms_registered s
           then sub_enqueue \<lparr>cc_From = m_cur m, cc_To = to, cc_Reason = reason, cc_At = now\<rparr> s else s) (m_subs m),
         m_log := m_log m @ [\<lparr>cc_From = m_cur m, cc_To = to, cc_Reason = reason, cc_At = now\<rparr>]\<rparr>"
      using transition(1) by (auto simp: Transition_def Let_def split: if_splits)
    then show ?thesis using transition(2)
      by (auto simp: machine_inv_def legal_walk_append list_all_iff enqueue_keeps_inv later_keeps_inv)
  qed (use transition in simp)
next
  case (subscribe m i m')
  then show ?case
    by (auto simp: machine_Subscribe_def Let_def machine_inv_def sub_inv_def stream_of_def consumer_closed_def)
next
  case (close m)
  then show ?case
    by (auto simp: machine_inv_def machine_Close_def list_all_iff closed_keeps_inv
        intro: finish_keeps_inv)
next
  case (sub_close i m)
  have "sub_inv (m_log m) (m_closed m) (m_subs m ! i)"
    using sub_close by (simp add: machine_inv_def list_all_length)
  then show ?case using sub_close
    by (auto simp: machine_inv_def msub_Close_def Let_def intro!: list_all_update_nth finish_keeps_inv)
next
  case (pump_step i m s')
  have "sub_inv (m_log m) (m_closed m) (m_subs m ! i)"
    using pump_step by (simp add: machine_inv_def list_all_length)
  then show ?case using pump_step pump_keeps_inv [OF pump_step(2)]
    by (auto simp: machine_inv_def intro!: list_all_update_nth)
next
  case (receive i m)
  have "sub_inv (m_log m) (m_closed m) (m_subs m ! i)"
    using receive by (simp add: machine_inv_def list_all_length)
  then show ?case using receive by (auto simp: machine_inv_def intro!: list_all_update_nth receive_keeps_inv)
qed

lemma machine_reach_inv: "machine_reach m \<Longrightarrow> machine_inv m"
proof (induction rule: machine_reach.induct)
  case (reach_step m m')
  then show ?case using machine_step_inv by blast
qed (simp add: machine_inv_def NewMachine_def)

text \<open>The schedule of a consumer that keeps receiving: take what is in the channel, and let
  the pump run when it is empty.\<close>

definition keep_receiving :: "msub \<Rightarrow> msub" where
  "keep_receiving s =
     (if ms_out s \<noteq> [] then sub_receive s
      else case ms_pump s of
        PumpTake \<Rightarrow> s\<lparr>ms_local := ms_pend s, ms_pend := [], ms_pump := PumpPush\<rparr>
      | PumpPush \<Rightarrow> (case ms_local s of [] \<Rightarrow> s\<lparr>ms_pump := PumpWait\<rparr>
          | ch # rest \<Rightarrow> s\<lparr>ms_out := [ch], ms_local := rest\<rparr>)
      | PumpWait \<Rightarrow> (if ms_sig s then s\<lparr>ms_sig := False, ms_pump := PumpTake\<rparr>
          else if ms_done s then s\<lparr>ms_pump := PumpExit\<rparr> else s)
      | PumpExit \<Rightarrow> s)"

definition settled :: "msub \<Rightarrow> bool" where
  "settled s \<longleftrightarrow> ms_out s = [] \<and> (ms_pump s = PumpExit \<or> ms_pump s = PumpWait \<and> \<not> ms_sig s \<and> \<not> ms_done s)"

definition pc_rank :: "pump_pc \<Rightarrow> nat" where
  "pc_rank pc = (case pc of PumpTake \<Rightarrow> 3 | PumpPush \<Rightarrow> 2 | PumpWait \<Rightarrow> 1 | PumpExit \<Rightarrow> 0)"

definition work_left :: "msub \<Rightarrow> nat" where
  "work_left s = length (ms_out s) + 2 * length (ms_local s) + 3 * length (ms_pend s)
     + (if ms_sig s then 3 else 0) + pc_rank (ms_pump s)"

lemma keep_receiving_step:
  assumes "sub_inv log closed s" "\<not> consumer_closed s" "\<not> settled s"
  shows "pump s (keep_receiving s) \<or> keep_receiving s = sub_receive s"
    and "work_left (keep_receiving s) < work_left s" and "\<not> consumer_closed (keep_receiving s)"
    and "ms_done (keep_receiving s) = ms_done s" "ms_from (keep_receiving s) = ms_from s"
proof -
  note simps = keep_receiving_def settled_def work_left_def pc_rank_def sub_receive_def consumer_closed_def
  show "pump s (keep_receiving s) \<or> keep_receiving s = sub_receive s"
  proof (cases "ms_out s = []")
    case out: True
    show ?thesis
    proof (cases "ms_pump s")
      case PumpTake
      then show ?thesis using out pump_take by (simp add: keep_receiving_def)
    next
      case PumpPush
      then show ?thesis
        using out pump_batch_end pump_send [of s]
        by (cases "ms_local s") (simp_all add: keep_receiving_def machine_buffer_def)
    next
      case PumpWait
      then have "ms_sig s \<or> (ms_done s \<and> ms_pend s = [])"
        using assms(1,3) out by (auto simp: settled_def sub_inv_def)
      then show ?thesis using out PumpWait pump_wake pump_stop by (auto simp: keep_receiving_def)
    next
      case PumpExit
      then show ?thesis using assms(3) out by (simp add: settled_def)
    qed
  qed (simp add: keep_receiving_def)
  show "work_left (keep_receiving s) < work_left s"
  proof (cases "ms_out s = []")
    case True
    then show ?thesis using assms by (cases "ms_pump s"; cases "ms_local s") (auto simp: simps sub_inv_def)
  next
    case False
    then show ?thesis by (cases "ms_out s") (simp_all add: simps)
  qed
  show "\<not> consumer_closed (keep_receiving s)" "ms_done (keep_receiving s) = ms_done s"
    "ms_from (keep_receiving s) = ms_from s"
    using assms(2) by (auto simp: simps split: list.split pump_pc.split)
qed

lemma keep_receiving_settles:
  assumes "sub_inv log closed s" "\<not> consumer_closed s"
  shows "\<exists>n. settled ((keep_receiving ^^ n) s) \<and> ms_received ((keep_receiving ^^ n) s) = drop (ms_from s) log
    \<and> (ms_done s \<longrightarrow> ms_pump ((keep_receiving ^^ n) s) = PumpExit)"
  using assms
proof (induction s rule: measure_induct_rule [of work_left])
  case (less s)
  show ?case
  proof (cases "settled s")
    case True
    have "ms_local s = [] \<and> ms_pend s = []"
      using True less.prems by (auto simp: settled_def sub_inv_def)
    then show ?thesis
      using True less.prems by (intro exI [of _ 0]) (auto simp: settled_def sub_inv_def stream_of_def)
  next
    case False
    let ?s = "keep_receiving s"
    note k = keep_receiving_step [OF less.prems False]
    have "sub_inv log closed ?s"
      using k(1) less.prems(1) pump_keeps_inv receive_keeps_inv by metis
    from less.IH [OF k(2) this k(3)] obtain n where
      "settled ((keep_receiving ^^ n) ?s)" "ms_received ((keep_receiving ^^ n) ?s) = drop (ms_from ?s) log"
      "ms_done ?s \<longrightarrow> ms_pump ((keep_receiving ^^ n) ?s) = PumpExit" by blast
    then show ?thesis using k(4,5) by (intro exI [of _ "Suc n"]) (simp add: funpow_swap1)
  qed
qed

text \<open>
  C25. The connection's event stream is lossless and honest.  In every reachable state
  the changes made are a legal walk from disconnected to the present state, what
  a subscriber has received and can receive is a prefix of the changes since it
  subscribed, a stream that ended without the subscriber's own close is complete
  including shutdown, and a subscriber that keeps receiving gets every change
  after finitely many steps, whatever state its pump is in.
\<close>

theorem every_change_is_delivered:
  assumes "machine_reach m" "i < length (m_subs m)" "s = m_subs m ! i"
  shows "legal_walk StateDisconnected (m_log m) (m_cur m)
       \<and> (\<exists>rest. drop (ms_from s) (m_log m) = ms_received s @ ms_out s @ rest)
       \<and> (ms_pump s = PumpExit \<and> \<not> consumer_closed s \<longrightarrow> ms_received s @ ms_out s = drop (ms_from s) (m_log m))
       \<and> (\<not> consumer_closed s \<longrightarrow> (\<exists>n. ms_received ((keep_receiving ^^ n) s) = drop (ms_from s) (m_log m)
            \<and> (ms_done s \<longrightarrow> ms_pump ((keep_receiving ^^ n) s) = PumpExit)))"
proof -
  have inv: "machine_inv m" by (rule machine_reach_inv [OF assms(1)])
  then have s: "sub_inv (m_log m) (m_closed m) s" using assms(2,3) by (simp add: machine_inv_def list_all_length)
  have "\<exists>rest. drop (ms_from s) (m_log m) = ms_received s @ ms_out s @ rest"
    using s by (auto simp: sub_inv_def stream_of_def)
  moreover have "ms_pump s = PumpExit \<Longrightarrow> \<not> consumer_closed s \<Longrightarrow> ms_received s @ ms_out s = drop (ms_from s) (m_log m)"
    using s by (auto simp: sub_inv_def stream_of_def)
  moreover have "legal_walk StateDisconnected (m_log m) (m_cur m)" using inv by (simp add: machine_inv_def)
  moreover have "\<exists>n. ms_received ((keep_receiving ^^ n) s) = drop (ms_from s) (m_log m)
      \<and> (ms_done s \<longrightarrow> ms_pump ((keep_receiving ^^ n) s) = PumpExit)" if "\<not> consumer_closed s"
    using keep_receiving_settles [OF s that] by blast
  ultimately show ?thesis by (intro conjI impI) simp_all
qed

definition sample_machine :: machine where
  "sample_machine = snd (Transition 5 StateConnecting ''dial attempt started'' (snd (machine_Subscribe NewMachine)))"

lemma sample_machine_reach: "machine_reach sample_machine"
  unfolding sample_machine_def
  by (rule reach_step [OF reach_step [OF reach_init machine_step.subscribe [OF surjective_pairing]]
        machine_step.transition [OF surjective_pairing]])

theorem every_change_is_delivered_witness:
  "\<exists>n. map cc_To (ms_received ((keep_receiving ^^ n) (m_subs sample_machine ! 0))) = [StateConnecting]"
proof -
  have f: "length (m_subs sample_machine) = 1" "\<not> consumer_closed (m_subs sample_machine ! 0)"
    "map cc_To (drop (ms_from (m_subs sample_machine ! 0)) (m_log sample_machine)) = [StateConnecting]"
    by (simp_all add: sample_machine_def Transition_def machine_Subscribe_def NewMachine_def Let_def
        consumer_closed_def sub_enqueue_def)
  have "\<exists>n. ms_received ((keep_receiving ^^ n) (m_subs sample_machine ! 0))
      = drop (ms_from (m_subs sample_machine ! 0)) (m_log sample_machine)"
    using every_change_is_delivered [OF sample_machine_reach _ refl, of 0] f(1,2) by auto
  then show ?thesis using f(3) by metis
qed

end
