(* ===== verification/Backoff.thy ===== *)
theory Backoff
  imports Prelude
begin

text \<open>
  \<^verbatim>\<open>src/internal/control/backoff.go\<close> and \<^verbatim>\<open>config.go\<close>: the reconnect delays and the
  client's intervals.  Durations are \<^verbatim>\<open>int64\<close> nanoseconds, so doubling wraps.  The
  random factor and the floating-point product are third-party arithmetic: the
  draw is a parameter that maps an envelope to the truncated product, which
  rounding may bring up to the envelope itself but not beyond.
\<close>

section \<open>Configuration\<close>

record config =
  cfg_BackoffBase :: duration
  cfg_BackoffCap :: duration
  cfg_HeartbeatPeriod :: duration
  cfg_DeadPeerInterval :: duration
  cfg_HandshakeTimeout :: duration

definition DefaultConfig :: config where
  "DefaultConfig = \<lparr>cfg_BackoffBase = 1 * second, cfg_BackoffCap = 60 * second,
     cfg_HeartbeatPeriod = 15 * second, cfg_DeadPeerInterval = 45 * second,
     cfg_HandshakeTimeout = 10 * second\<rparr>"

datatype config_error = BaseNotPositive | CapNotPositive | CapBelowBase | PeriodNotPositive
  | DeadPeerTooShort | HandshakeNotPositive

definition config_validate :: "config \<Rightarrow> (config_error, unit) result" where
  "config_validate c =
     (if cfg_BackoffBase c \<le> 0 then Err BaseNotPositive
      else if cfg_BackoffCap c \<le> 0 then Err CapNotPositive
      else if cfg_BackoffCap c < cfg_BackoffBase c then Err CapBelowBase
      else if cfg_HeartbeatPeriod c \<le> 0 then Err PeriodNotPositive
      else if cfg_DeadPeerInterval c \<le> cfg_HeartbeatPeriod c then Err DeadPeerTooShort
      else if cfg_HandshakeTimeout c \<le> 0 then Err HandshakeNotPositive
      else Ok ())"

lemma config_validate_iff: "config_validate c = Ok () \<longleftrightarrow>
    0 < cfg_BackoffBase c \<and> cfg_BackoffBase c \<le> cfg_BackoffCap c \<and> 0 < cfg_HeartbeatPeriod c
    \<and> cfg_HeartbeatPeriod c < cfg_DeadPeerInterval c \<and> 0 < cfg_HandshakeTimeout c"
  by (auto simp: config_validate_def)

lemma DefaultConfig_valid: "config_validate DefaultConfig = Ok ()"
  by (simp add: config_validate_def DefaultConfig_def second_def)

section \<open>Delays\<close>

record backoff =
  bo_base :: duration
  bo_cap :: duration

definition NewBackoff :: "duration \<Rightarrow> duration \<Rightarrow> (config_error, backoff) result" where
  "NewBackoff base cap =
     (if base \<le> 0 then Err BaseNotPositive
      else if cap \<le> 0 then Err CapNotPositive
      else if cap < base then Err CapBelowBase
      else Ok \<lparr>bo_base = base, bo_cap = cap\<rparr>)"

text \<open>The doubling loop: \<open>n\<close> iterations are left.\<close>

fun doubling :: "duration \<Rightarrow> nat \<Rightarrow> duration \<Rightarrow> duration" where
  "doubling cap 0 d = d"
| "doubling cap (Suc n) d =
     (if d < cap
      then let d2 = wrap64 (d * 2) in if d2 \<le> 0 then cap else doubling cap n d2
      else d)"

definition Delay :: "(duration \<Rightarrow> duration) \<Rightarrow> int \<Rightarrow> backoff \<Rightarrow> duration" where
  "Delay draw attempt b =
     (let d = doubling (bo_cap b) (nat attempt) (bo_base b);
          envelope = (if d < bo_cap b then d else bo_cap b);
          delay = draw envelope
      in if delay \<ge> envelope then envelope - 1 else delay)"

text \<open>The documented envelope of an attempt.\<close>

definition full_jitter_envelope :: "backoff \<Rightarrow> int \<Rightarrow> duration" where
  "full_jitter_envelope b attempt = min (bo_cap b) (bo_base b * 2 ^ nat attempt)"

lemma wrap64_double_overflow:
  assumes "2 ^ 62 \<le> d" "d < 2 ^ 63" shows "wrap64 (d * 2) \<le> 0"
proof -
  have "wrap64 i = int64 (uint64 i)" for i
    by (simp add: wrap64_def int64_def uint64_def sint_sbintrunc')
  then have "wrap64 (d * 2) = int64 (uint64 (d * 2))" .
  moreover have "uint (uint64 i) = i" if "0 \<le> i" "i < 2 ^ 64" for i
    using that by (simp add: uint64_def uint_word_of_int)
  then have "uint (uint64 (d * 2)) = d * 2" using assms by simp
  ultimately show ?thesis using int64_large [of "uint64 (d * 2)"] assms by simp
qed

lemma double_le_power: "0 < d \<Longrightarrow> d * 2 \<le> d * 2 ^ Suc n" for d :: int
  using one_le_power [of "2 :: int" n] by (intro mult_left_mono) simp_all

lemma doubling_envelope:
  assumes "0 < d" "cap < 2 ^ 63"
  shows "min cap (doubling cap n d) = min cap (d * 2 ^ n)"
  using assms(1)
proof (induction n arbitrary: d)
  case (Suc n)
  show ?case
  proof (cases "d < cap")
    case False
    moreover have "d \<le> d * 2 ^ Suc n" using double_le_power [OF Suc.prems, of n] Suc.prems by linarith
    ultimately show ?thesis by simp
  next
    case True
    show ?thesis
    proof (cases "d < 2 ^ 62")
      case small: True
      then have w: "wrap64 (d * 2) = d * 2" using Suc.prems by (intro wrap64_id) simp_all
      show ?thesis using Suc.IH [of "d * 2"] Suc.prems True w by (simp add: mult.assoc)
    next
      case False
      then have "wrap64 (d * 2) \<le> 0" using True assms(2) by (intro wrap64_double_overflow) simp_all
      then have "doubling cap (Suc n) d = cap" using True by simp
      moreover have "cap \<le> d * 2" using False assms(2) by simp
      then have "cap \<le> d * 2 ^ Suc n" using double_le_power [OF Suc.prems, of n] by (rule order_trans)
      ultimately show ?thesis by simp
    qed
  qed
qed simp

text \<open>
  C34. Every reconnect delay lies in the documented half-open interval from zero to
  the smaller of the cap and the base doubled once per attempt, for every
  attempt number, although the doubling is done in wrapping 64-bit arithmetic;
  and the first retry draws from the base.
\<close>

theorem delay_within_envelope:
  assumes "NewBackoff base cap = Ok b" "cap < 2 ^ 63"
    and "\<And>e. 0 < e \<Longrightarrow> 0 \<le> draw e \<and> draw e \<le> e"
  shows "0 \<le> Delay draw attempt b \<and> Delay draw attempt b < full_jitter_envelope b attempt
       \<and> full_jitter_envelope b attempt \<le> cap \<and> full_jitter_envelope b 0 = base"
proof -
  have b: "0 < base" "base \<le> cap" "b = \<lparr>bo_base = base, bo_cap = cap\<rparr>"
    using assms(1) by (auto simp: NewBackoff_def split: if_splits)
  define e where "e = full_jitter_envelope b attempt"
  have "e = min cap (doubling cap (nat attempt) base)"
    using doubling_envelope [OF b(1) assms(2)] by (simp add: e_def full_jitter_envelope_def b)
  then have "Delay draw attempt b = (if draw e \<ge> e then e - 1 else draw e)"
    by (auto simp: Delay_def b Let_def min_def)
  moreover have "0 < e" "e \<le> cap" using b by (simp_all add: e_def full_jitter_envelope_def)
  moreover have "full_jitter_envelope b 0 = base" using b by (simp add: full_jitter_envelope_def)
  ultimately show ?thesis
    using assms(3) [of e] unfolding e_def [symmetric] by auto
qed

theorem delay_within_envelope_witness:
  "0 \<le> Delay (\<lambda>e. e) 200 \<lparr>bo_base = second, bo_cap = 60 * second\<rparr>
   \<and> Delay (\<lambda>e. e) 200 \<lparr>bo_base = second, bo_cap = 60 * second\<rparr> < 60 * second"
  using delay_within_envelope [of second "60 * second" "\<lparr>bo_base = second, bo_cap = 60 * second\<rparr>" "\<lambda>e. e" 200]
  by (simp add: NewBackoff_def second_def)

end
