(* ===== verification/Wire.thy ===== *)
theory Wire
  imports Prelude
begin

text \<open>
  The wire schema \<^verbatim>\<open>walkie.v1\<close> as the Go code sees it: the envelope with its
  optional timestamps (nil pointers are \<^term>\<open>None\<close>) and its payload oneof, and
  the protocol-version gate of \<^verbatim>\<open>src/internal/genproto/walkie/v1/version.go\<close>.  The
  generated marshalling code is a parameter of the components that call it.
\<close>

datatype presence_state = PRESENCE_UNSPECIFIED | PRESENCE_ONLINE | PRESENCE_OFFLINE
  | PRESENCE_OTHER int

datatype refusal_reason = REFUSAL_UNSPECIFIED | REFUSAL_SIZE_CAP

datatype error_code = CODE_UNSPECIFIED | CODE_VERSION_UNSUPPORTED | CODE_MALFORMED
  | CODE_DEVICE_UNKNOWN

datatype payload =
    Hello (hello_client_version: string) (hello_last_acked: u64) (hello_version: "32 word")
  | HelloAck (ack_device: string) (ack_received_at: "time option") (ack_pending: u64)
      (ack_version: "32 word")
  | Heartbeat
  | PresenceUpdate (pu_device: string) (pu_state: presence_state) (pu_status: string)
      (pu_last_seen: "time option")
  | PresenceStatusChange string
  | DirectMessage (dm_recipient: string) (dm_body: string) (dm_sender: string)
  | BroadcastMessage (bm_body: string) (bm_sender: string)
  | AttachmentOffer (ao_id: string) (ao_filename: string) (ao_size: u64) (ao_mime: string)
      (ao_sha256: bytes) (ao_chunk_size: "32 word")
  | AttachmentChunk string u64 bytes
  | AttachmentAck string u64
  | QueueAck u64
  | QueueRefused refusal_reason string
  | PublicKeyAnnounce bytes
  | PublicKeyDirectory "(string \<times> bytes) list"
  | ProtocolError error_code string "32 word"
  | SealedDelivery bytes

record envelope =
  env_message_id :: string
  env_sent_at :: "time option"
  env_position :: u64
  env_received_at :: "time option"
  env_payload :: "payload option"

text \<open>\<^verbatim>\<open>&Envelope{Payload: p}\<close>: every other field has its zero value.\<close>

definition envelope_of :: "payload \<Rightarrow> envelope" where
  "envelope_of p = \<lparr>env_message_id = '''', env_sent_at = None, env_position = 0,
     env_received_at = None, env_payload = Some p\<rparr>"

lemma envelope_of_simps [simp]:
  "env_message_id (envelope_of p) = ''''" "env_sent_at (envelope_of p) = None"
  "env_position (envelope_of p) = 0" "env_received_at (envelope_of p) = None"
  "env_payload (envelope_of p) = Some p"
  by (simp_all add: envelope_of_def)

definition MinProtocolVersion :: "32 word" where "MinProtocolVersion = 1"
definition MaxProtocolVersion :: "32 word" where "MaxProtocolVersion = 1"

definition ProtocolVersionSupported :: "32 word \<Rightarrow> bool" where
  "ProtocolVersionSupported v \<longleftrightarrow> MinProtocolVersion \<le> v \<and> v \<le> MaxProtocolVersion"

definition NewVersionUnsupportedError :: "32 word \<Rightarrow> payload" where
  "NewVersionUnsupportedError peerVersion =
     ProtocolError CODE_VERSION_UNSUPPORTED
       (''unsupported protocol version '' @ decimal (unat peerVersion)
        @ '': this endpoint speaks versions '' @ decimal (unat MinProtocolVersion)
        @ '' through '' @ decimal (unat MaxProtocolVersion))
       peerVersion"

lemma version_supported_iff: "ProtocolVersionSupported v \<longleftrightarrow> v = 1"
  by (auto simp: ProtocolVersionSupported_def MinProtocolVersion_def MaxProtocolVersion_def)

text \<open>A small concrete codec, for evaluation.\<close>

definition draft :: "string \<Rightarrow> envelope" where
  "draft ident = (envelope_of (DirectMessage ''bob'' ''hi'' ''''))\<lparr>env_message_id := ident, env_sent_at := Some 9\<rparr>"

definition draft_marshal :: "envelope \<Rightarrow> bytes option" where
  "draft_marshal e = (if e = draft ''1'' then Some [1] else if e = draft ''2'' then Some [2] else None)"

definition draft_unmarshal :: "bytes \<Rightarrow> envelope option" where
  "draft_unmarshal b = (if b = [1] then Some (draft ''1'') else if b = [2] then Some (draft ''2'') else None)"

lemma draft_codec: "draft_marshal e = Some b \<Longrightarrow> draft_unmarshal b = Some e"
  by (auto simp: draft_marshal_def draft_unmarshal_def split: if_splits)

end
