(* ===== verification/Client.thy ===== *)
theory Client
  imports Machine Backoff Wire
begin

text \<open>
  \<^verbatim>\<open>src/internal/control/heartbeat.go\<close> and \<^verbatim>\<open>client.go\<close>: the watchdog of one session and
  the reconnect supervisor.  Each goroutine has a program counter: the
  supervisor (\<open>sup_pc\<close>), the session's reader (\<open>reader_pc\<close>), each watchdog's
  heartbeat loop and its silence watchers, a verdict that has been claimed but
  has not yet driven the machine (\<open>wd_verdict\<close>), and the caller of \<^verbatim>\<open>Stop\<close>
  (\<open>stop_pc\<close>).  A step is what the code does between two points where another
  goroutine can run.  Transports are numbers; the network's answers are
  arguments of the steps.
\<close>

section \<open>The watchdog (heartbeat.go)\<close>

text \<open>A claimed verdict: the silence diagnosis that still has to announce \<^verbatim>\<open>degraded\<close>, or the
  final transition to \<^verbatim>\<open>disconnected\<close>; the flag says that the session's reader runs it.\<close>

datatype verdict = ClaimedSilence | ClaimedDisconnect string bool

datatype beat_pc = BeatWait | BeatSend | BeatExit

record watchdog =
  wd_gen :: u64
  wd_stopped :: bool
  wd_quit :: bool
  wd_hbTimer :: time
  wd_nextBeat :: time
  wd_watchers :: "(u64 \<times> time) list"
  wd_beat :: beat_pc
  wd_verdict :: "verdict option"

definition armDeadlineLocked :: "config \<Rightarrow> time \<Rightarrow> watchdog \<Rightarrow> watchdog" where
  "armDeadlineLocked cfg now w =
     w\<lparr>wd_gen := wd_gen w + 1,
       wd_watchers := (wd_gen w + 1, now + cfg_DeadPeerInterval cfg) # wd_watchers w\<rparr>"

definition StartWatchdog :: "config \<Rightarrow> time \<Rightarrow> (config_error, watchdog) result" where
  "StartWatchdog cfg now =
     (case config_validate cfg of
        Inl e \<Rightarrow> Err e
      | Inr _ \<Rightarrow> Ok (armDeadlineLocked cfg now
          \<lparr>wd_gen = 0, wd_stopped = False, wd_quit = False,
           wd_hbTimer = now + cfg_HeartbeatPeriod cfg, wd_nextBeat = now + cfg_HeartbeatPeriod cfg,
           wd_watchers = [], wd_beat = BeatWait, wd_verdict = None\<rparr>))"

definition Activity :: "config \<Rightarrow> time \<Rightarrow> watchdog \<Rightarrow> watchdog" where
  "Activity cfg now w = (if wd_stopped w then w else armDeadlineLocked cfg now w)"

definition watchdog_Stop :: "watchdog \<Rightarrow> watchdog" where
  "watchdog_Stop w = w\<lparr>wd_stopped := True, wd_quit := True\<rparr>"

text \<open>The claim at the head of \<^verbatim>\<open>SendFailed\<close>; its transition is the verdict's step.\<close>

definition SendFailed :: "bool \<Rightarrow> string \<Rightarrow> watchdog \<Rightarrow> watchdog" where
  "SendFailed by_reader err w =
     (if wd_stopped w then w
      else w\<lparr>wd_stopped := True,
             wd_verdict := Some (ClaimedDisconnect (''transport error: '' @ err) by_reader)\<rparr>)"

text \<open>One silence watcher whose timer fired.\<close>

definition watchDead :: "conn_state \<Rightarrow> u64 \<Rightarrow> watchdog \<Rightarrow> watchdog" where
  "watchDead state gen w =
     (if wd_stopped w \<or> gen \<noteq> wd_gen w then w
      else if state \<noteq> StateOnline then watchdog_Stop w
      else w\<lparr>wd_stopped := True, wd_verdict := Some ClaimedSilence\<rparr>)"

text \<open>The slot loop \<^verbatim>\<open>for !next.After(now)\<close>, which ends only for a positive period.\<close>

partial_function (option) next_slot :: "duration \<Rightarrow> time \<Rightarrow> time \<Rightarrow> time option" where
  "next_slot period now next = (if next \<le> now then next_slot period now (next + period) else Some next)"

definition beat_fire :: "config \<Rightarrow> time \<Rightarrow> watchdog \<Rightarrow> watchdog option" where
  "beat_fire cfg now w =
     (if wd_stopped w then Some (w\<lparr>wd_beat := BeatExit\<rparr>)
      else map_option (\<lambda>next. w\<lparr>wd_nextBeat := next, wd_hbTimer := next, wd_beat := BeatSend\<rparr>)
             (next_slot (cfg_HeartbeatPeriod cfg) now (wd_nextBeat w)))"

definition beat_sent :: "string option \<Rightarrow> watchdog \<Rightarrow> watchdog" where
  "beat_sent failed w =
     (case failed of
        None \<Rightarrow> w\<lparr>wd_beat := BeatWait\<rparr>
      | Some err \<Rightarrow> (SendFailed False (''heartbeat send failed: '' @ err) w)\<lparr>wd_beat := BeatExit\<rparr>)"

section \<open>The client (client.go)\<close>

datatype sup_pc =
    SupTop nat | SupDialing nat | SupDialed nat nat | SupConnected nat nat | SupHello nat nat
  | SupShake nat nat time | SupAcked nat string | SupInstalled nat | SupOnline nat | SupServe nat
  | SupBackoff nat time | SupExit

datatype reader_pc = RdIdle | RdRecv | RdVerdict | RdDone

datatype stop_pc = StopNone | StopQuit | StopCancelled | StopClosing "nat option" "nat option" | StopJoining

record client =
  cl_cfg :: config
  cl_now :: time
  cl_mach :: machine
  cl_hints :: nat
  cl_acked :: u64
  cl_sess :: "nat option"
  cl_inflight :: "nat option"
  cl_identity :: string
  cl_quit :: bool
  cl_cancelled :: bool
  cl_stop :: stop_pc
  cl_sup :: sup_pc
  cl_reader :: reader_pc
  cl_torn :: bool
  cl_wds :: "watchdog list"
  cl_dials :: nat
  cl_dead :: "nat set"
  cl_sent :: "(nat \<times> envelope) list"
  cl_handled :: "envelope list"
  cl_crashed :: bool

definition NewClient :: "config \<Rightarrow> machine \<Rightarrow> time \<Rightarrow> (config_error, client) result" where
  "NewClient cfg mach now =
     (case config_validate cfg of
        Inl e \<Rightarrow> Err e
      | Inr _ \<Rightarrow>
        (case NewBackoff (cfg_BackoffBase cfg) (cfg_BackoffCap cfg) of
           Inl e \<Rightarrow> Err e
         | Inr _ \<Rightarrow> Ok \<lparr>cl_cfg = cfg, cl_now = now, cl_mach = mach, cl_hints = 0, cl_acked = 0,
             cl_sess = None, cl_inflight = None, cl_identity = '''', cl_quit = False, cl_cancelled = False,
             cl_stop = StopNone, cl_sup = SupTop 0, cl_reader = RdIdle, cl_torn = False, cl_wds = [],
             cl_dials = 0, cl_dead = {}, cl_sent = [], cl_handled = [], cl_crashed = False\<rparr>))"

text \<open>A transition of the machine by any of the client's goroutines; an illegal one is the
  panic that ends the process.\<close>

definition client_Transition :: "conn_state \<Rightarrow> string \<Rightarrow> client \<Rightarrow> transition_result \<times> client" where
  "client_Transition to reason c =
     (case Transition (cl_now c) to reason (cl_mach c) of
        (r, m) \<Rightarrow> (r, c\<lparr>cl_mach := m,
           cl_hints := (if r = Changed then cl_hints c + 1 else cl_hints c),
           cl_crashed := (cl_crashed c \<or> r = IllegalTransition)\<rparr>))"

definition client_close :: "nat \<Rightarrow> client \<Rightarrow> client" where
  "client_close s c = c\<lparr>cl_dead := insert s (cl_dead c)\<rparr>"

definition clearInflight :: "nat \<Rightarrow> client \<Rightarrow> client" where
  "clearInflight s c = (if cl_inflight c = Some s then c\<lparr>cl_inflight := None\<rparr> else c)"

definition clearSession :: "nat \<Rightarrow> client \<Rightarrow> client" where
  "clearSession s c = (if cl_sess c = Some s then c\<lparr>cl_sess := None\<rparr> else c)"

definition backoff_delay :: "(duration \<Rightarrow> duration) \<Rightarrow> nat \<Rightarrow> client \<Rightarrow> duration" where
  "backoff_delay draw attempt c =
     Delay draw (int attempt) \<lparr>bo_base = cfg_BackoffBase (cl_cfg c), bo_cap = cfg_BackoffCap (cl_cfg c)\<rparr>"

definition enter_backoff :: "(duration \<Rightarrow> duration) \<Rightarrow> nat \<Rightarrow> client \<Rightarrow> client" where
  "enter_backoff draw attempt c = c\<lparr>cl_sup := SupBackoff attempt (cl_now c + backoff_delay draw attempt c)\<rparr>"

definition run_top :: "nat \<Rightarrow> client \<Rightarrow> client" where
  "run_top n c =
     (if cl_cancelled c then c\<lparr>cl_sup := SupExit\<rparr>
      else case client_Transition StateConnecting ''dial attempt started'' c of
        (MachineClosed, c1) \<Rightarrow> c1\<lparr>cl_sup := SupExit\<rparr>
      | (_, c1) \<Rightarrow> c1\<lparr>cl_sup := SupDialing n\<rparr>)"

definition run_failed :: "(duration \<Rightarrow> duration) \<Rightarrow> string \<Rightarrow> nat \<Rightarrow> client \<Rightarrow> client" where
  "run_failed draw reason n c =
     (if cl_cancelled c then c\<lparr>cl_sup := SupExit\<rparr>
      else enter_backoff draw n (snd (client_Transition StateDisconnected reason c)))"

definition run_dialed :: "nat \<Rightarrow> nat \<Rightarrow> client \<Rightarrow> client" where
  "run_dialed n s c =
     (case client_Transition StateHandshaking ''transport established'' c of
        (MachineClosed, c1) \<Rightarrow> (client_close s c1)\<lparr>cl_sup := SupExit\<rparr>
      | (_, c1) \<Rightarrow> c1\<lparr>cl_sup := SupConnected n s\<rparr>)"

definition clientVersion :: string where "clientVersion = ''walkie-dev''"

definition hello_envelope :: "client \<Rightarrow> envelope" where
  "hello_envelope c = envelope_of (Hello clientVersion (cl_acked c) MaxProtocolVersion)"

definition handshake_failed :: "(duration \<Rightarrow> duration) \<Rightarrow> string \<Rightarrow> nat \<Rightarrow> nat \<Rightarrow> client \<Rightarrow> client" where
  "handshake_failed draw err n s c =
     run_failed draw (''handshake failed: '' @ err) n (clearInflight s (client_close s c))"

definition error_code_String :: "error_code \<Rightarrow> string" where
  "error_code_String code = (case code of
      CODE_UNSPECIFIED \<Rightarrow> ''PROTOCOL_ERROR_CODE_UNSPECIFIED''
    | CODE_VERSION_UNSUPPORTED \<Rightarrow> ''PROTOCOL_ERROR_CODE_VERSION_UNSUPPORTED''
    | CODE_MALFORMED \<Rightarrow> ''PROTOCOL_ERROR_CODE_MALFORMED''
    | CODE_DEVICE_UNKNOWN \<Rightarrow> ''PROTOCOL_ERROR_CODE_DEVICE_UNKNOWN'')"

definition handshake_reply :: "(duration \<Rightarrow> duration) \<Rightarrow> nat \<Rightarrow> nat \<Rightarrow> envelope \<Rightarrow> client \<Rightarrow> client" where
  "handshake_reply draw n s env c =
     (case env_payload env of
        Some (HelloAck device r p version) \<Rightarrow>
          (if ProtocolVersionSupported version then c\<lparr>cl_sup := SupAcked s device\<rparr>
           else handshake_failed draw (''coordinator protocol_version '' @ decimal (unat version)
             @ '' outside supported range ['' @ decimal (unat MinProtocolVersion) @ '',''
             @ decimal (unat MaxProtocolVersion) @ '']'') n s c)
      | Some (ProtocolError code detail v) \<Rightarrow>
          handshake_failed draw (''coordinator refused handshake: '' @ detail @ '' ('' @ error_code_String code @ '')'') n s c
      | Some (PresenceUpdate d st l t) \<Rightarrow> c\<lparr>cl_handled := cl_handled c @ [env]\<rparr>
      | _ \<Rightarrow> c)"

definition run_online :: "nat \<Rightarrow> client \<Rightarrow> client" where
  "run_online s c =
     (case client_Transition StateOnline ''handshake completed'' c of
        (MachineClosed, c1) \<Rightarrow> (client_close s c1)\<lparr>cl_sup := SupExit\<rparr>
      | (_, c1) \<Rightarrow> c1\<lparr>cl_sup := SupOnline s\<rparr>)"

definition serve_start :: "(duration \<Rightarrow> duration) \<Rightarrow> nat \<Rightarrow> nat \<Rightarrow> client \<Rightarrow> client" where
  "serve_start draw s left c =
     (let c0 = c\<lparr>cl_hints := left\<rparr> in
      case StartWatchdog (cl_cfg c) (cl_now c) of
        Inl e \<Rightarrow>
          (let c1 = client_close s (snd (client_Transition StateDisconnected ''watchdog refused'' c0))
           in if cl_cancelled c1 then c1\<lparr>cl_sup := SupExit\<rparr> else enter_backoff draw 0 c1)
      | Inr w \<Rightarrow> c0\<lparr>cl_wds := w # cl_wds c0, cl_reader := RdRecv, cl_torn := False, cl_sup := SupServe s\<rparr>)"

text \<open>The newest watchdog is the current one.\<close>

definition current_wd :: nat where "current_wd = 0"

definition update_wd :: "nat \<Rightarrow> (watchdog \<Rightarrow> watchdog) \<Rightarrow> client \<Rightarrow> client" where
  "update_wd i f c = c\<lparr>cl_wds := (cl_wds c)[i := f (cl_wds c ! i)]\<rparr>"

definition teardownSession :: "nat \<Rightarrow> client \<Rightarrow> client" where
  "teardownSession s c =
     (if cl_torn c then c
      else (client_close s (update_wd current_wd watchdog_Stop c))\<lparr>cl_torn := True\<rparr>)"

definition serve_done :: "(duration \<Rightarrow> duration) \<Rightarrow> nat \<Rightarrow> client \<Rightarrow> client" where
  "serve_done draw s c =
     (let c1 = clearSession s (teardownSession s c)
      in if cl_cancelled c1 then c1\<lparr>cl_sup := SupExit, cl_reader := RdIdle\<rparr>
         else (enter_backoff draw 0 c1)\<lparr>cl_reader := RdIdle\<rparr>)"

definition serve_hint :: "nat \<Rightarrow> client \<Rightarrow> client" where
  "serve_hint s c =
     (let c1 = c\<lparr>cl_hints := cl_hints c - 1\<rparr>
      in if m_cur (cl_mach c1) \<in> {StateDegraded, StateDisconnected} then teardownSession s c1 else c1)"

definition read_frame :: "envelope \<Rightarrow> client \<Rightarrow> client" where
  "read_frame env c =
     (let c1 = update_wd current_wd (Activity (cl_cfg c) (cl_now c)) c
      in case env_payload env of
           Some (HelloAck d r p v) \<Rightarrow> c1
         | _ \<Rightarrow> c1\<lparr>cl_handled := cl_handled c1 @ [env]\<rparr>)"

definition read_error :: "string \<Rightarrow> client \<Rightarrow> client" where
  "read_error err c =
     (if wd_stopped (cl_wds c ! current_wd) then c\<lparr>cl_reader := RdDone\<rparr>
      else (update_wd current_wd (SendFailed True err) c)\<lparr>cl_reader := RdVerdict\<rparr>)"

text \<open>A claimed verdict drives the machine; \<open>interval\<close> is the rendered dead-peer interval.\<close>

definition verdict_step :: "string \<Rightarrow> nat \<Rightarrow> client \<Rightarrow> client" where
  "verdict_step interval i c =
     (case wd_verdict (cl_wds c ! i) of
        None \<Rightarrow> c
      | Some ClaimedSilence \<Rightarrow>
          (case client_Transition StateDegraded (''no inbound traffic for '' @ interval) c of
             (MachineClosed, c1) \<Rightarrow> update_wd i (\<lambda>w. watchdog_Stop (w\<lparr>wd_verdict := None\<rparr>)) c1
           | (_, c1) \<Rightarrow> update_wd i (\<lambda>w. w\<lparr>wd_verdict :=
                Some (ClaimedDisconnect ''dead peer: tearing down deliberately'' False)\<rparr>) c1)
      | Some (ClaimedDisconnect reason by_reader) \<Rightarrow>
          (let c1 = update_wd i (\<lambda>w. watchdog_Stop (w\<lparr>wd_verdict := None\<rparr>))
                      (snd (client_Transition StateDisconnected reason c))
           in if by_reader then c1\<lparr>cl_reader := RdDone\<rparr> else c1))"

section \<open>Calls of the client's users\<close>

datatype send_error = ErrOffline | WriteFailed

text \<open>\<open>wire_ok\<close>: the session accepted the frame.\<close>

definition client_Send :: "bool \<Rightarrow> envelope \<Rightarrow> client \<Rightarrow> (send_error, unit) result \<times> client" where
  "client_Send wire_ok env c =
     (case cl_sess c of
        None \<Rightarrow> (Err ErrOffline, c)
      | Some s \<Rightarrow> (if wire_ok then (Ok (), c\<lparr>cl_sent := cl_sent c @ [(s, env)]\<rparr>) else (Err WriteFailed, c)))"

definition Acknowledge :: "bool \<Rightarrow> u64 \<Rightarrow> client \<Rightarrow> client" where
  "Acknowledge wire_ok position c =
     (if position \<le> cl_acked c then c
      else snd (client_Send wire_ok (envelope_of (QueueAck position)) (c\<lparr>cl_acked := position\<rparr>)))"

definition RestoreAckPosition :: "u64 \<Rightarrow> client \<Rightarrow> client" where
  "RestoreAckPosition position c = (if position \<le> cl_acked c then c else c\<lparr>cl_acked := position\<rparr>)"

text \<open>\<^verbatim>\<open>Stop\<close> up to its join, in the steps another goroutine can interleave with.\<close>

definition stop_step :: "client \<Rightarrow> client" where
  "stop_step c =
     (case cl_stop c of
        StopNone \<Rightarrow> c\<lparr>cl_quit := True, cl_stop := StopQuit\<rparr>
      | StopQuit \<Rightarrow> c\<lparr>cl_cancelled := True, cl_stop := StopCancelled\<rparr>
      | StopCancelled \<Rightarrow> c\<lparr>cl_stop := StopClosing (cl_sess c) (cl_inflight c)\<rparr>
      | StopClosing sess inflight \<Rightarrow>
          c\<lparr>cl_dead := cl_dead c \<union> set_option sess \<union> set_option inflight, cl_stop := StopJoining\<rparr>
      | StopJoining \<Rightarrow> c)"

section \<open>Interleavings\<close>

definition verdict_pending :: "client \<Rightarrow> bool" where
  "verdict_pending c \<longleftrightarrow> list_ex (\<lambda>w. wd_verdict w \<noteq> None) (cl_wds c)"

text \<open>One step of one goroutine.  With \<open>timely\<close> the retry timer does not win against a
  verdict that is already claimed; without it the scheduler is unconstrained.\<close>

inductive client_step :: "bool \<Rightarrow> client \<Rightarrow> client \<Rightarrow> bool" for timely :: bool where
  top: "cl_sup c = SupTop n \<Longrightarrow> client_step timely c (run_top n c)"
| dial_failed: "cl_sup c = SupDialing n \<Longrightarrow>
    client_step timely c (run_failed draw (''dial failed: '' @ err) n c)"
| dial_ok: "cl_sup c = SupDialing n \<Longrightarrow>
    client_step timely c (c\<lparr>cl_sup := SupDialed n (cl_dials c), cl_dials := cl_dials c + 1\<rparr>)"
| dialed: "cl_sup c = SupDialed n s \<Longrightarrow> client_step timely c (run_dialed n s c)"
| set_inflight: "cl_sup c = SupConnected n s \<Longrightarrow>
    client_step timely c (c\<lparr>cl_inflight := Some s, cl_sup := SupHello n s\<rparr>)"
| hello_sent: "cl_sup c = SupHello n s \<Longrightarrow>
    client_step timely c (c\<lparr>cl_sent := cl_sent c @ [(s, hello_envelope c)],
      cl_sup := SupShake n s (cl_now c + cfg_HandshakeTimeout (cl_cfg c))\<rparr>)"
| hello_failed: "cl_sup c = SupHello n s \<Longrightarrow>
    client_step timely c (handshake_failed draw (''send hello: '' @ err) n s c)"
| shake_timeout: "cl_sup c = SupShake n s d \<Longrightarrow> d \<le> cl_now c \<Longrightarrow>
    client_step timely c (handshake_failed draw (''handshake timed out after '' @ timeout) n s c)"
| shake_quit: "cl_sup c = SupShake n s d \<Longrightarrow> cl_quit c \<Longrightarrow>
    client_step timely c (handshake_failed draw ''client stopped mid-handshake'' n s c)"
| shake_error: "cl_sup c = SupShake n s d \<Longrightarrow>
    client_step timely c (handshake_failed draw (''await hello_ack: '' @ err) n s c)"
| shake_reply: "cl_sup c = SupShake n s d \<Longrightarrow> s \<notin> cl_dead c \<Longrightarrow> client_step timely c (handshake_reply draw n s env c)"
| install: "cl_sup c = SupAcked s device \<Longrightarrow>
    client_step timely c (c\<lparr>cl_sess := Some s, cl_inflight := None, cl_identity := device, cl_sup := SupInstalled s\<rparr>)"
| online: "cl_sup c = SupInstalled s \<Longrightarrow> client_step timely c (run_online s c)"
| start_serving: "cl_sup c = SupOnline s \<Longrightarrow> left \<le> cl_hints c \<Longrightarrow> client_step timely c (serve_start draw s left c)"
| served: "cl_sup c = SupServe s \<Longrightarrow> cl_reader c = RdDone \<Longrightarrow> client_step timely c (serve_done draw s c)"
| hint: "cl_sup c = SupServe s \<Longrightarrow> 0 < cl_hints c \<Longrightarrow> client_step timely c (serve_hint s c)"
| frame: "cl_sup c = SupServe s \<Longrightarrow> cl_reader c = RdRecv \<Longrightarrow> s \<notin> cl_dead c \<Longrightarrow> client_step timely c (read_frame env c)"
| recv_error: "cl_sup c = SupServe s \<Longrightarrow> cl_reader c = RdRecv \<Longrightarrow> client_step timely c (read_error err c)"
| silence: "i < length (cl_wds c) \<Longrightarrow> (gen, d) \<in> set (wd_watchers (cl_wds c ! i)) \<Longrightarrow> d \<le> cl_now c \<Longrightarrow>
    client_step timely c (update_wd i (\<lambda>w. watchDead (m_cur (cl_mach c)) gen
      (w\<lparr>wd_watchers := remove1 (gen, d) (wd_watchers w)\<rparr>)) c)"
| beat: "i < length (cl_wds c) \<Longrightarrow> wd_beat (cl_wds c ! i) = BeatWait \<Longrightarrow> wd_hbTimer (cl_wds c ! i) \<le> cl_now c \<Longrightarrow>
    beat_fire (cl_cfg c) (cl_now c) (cl_wds c ! i) = Some w \<Longrightarrow> client_step timely c (update_wd i (\<lambda>_. w) c)"
| beat_send: "i < length (cl_wds c) \<Longrightarrow> wd_beat (cl_wds c ! i) = BeatSend \<Longrightarrow>
    client_step timely c (update_wd i (beat_sent failed) c)"
| verdict: "i < length (cl_wds c) \<Longrightarrow> client_step timely c (verdict_step interval i c)"
| backoff_over: "cl_sup c = SupBackoff n d \<Longrightarrow> d \<le> cl_now c \<Longrightarrow> (timely \<longrightarrow> \<not> verdict_pending c) \<Longrightarrow>
    client_step timely c (c\<lparr>cl_sup := SupTop (n + 1)\<rparr>)"
| backoff_quit: "cl_sup c = SupBackoff n d \<Longrightarrow> cl_quit c \<or> cl_cancelled c \<Longrightarrow>
    client_step timely c (c\<lparr>cl_sup := SupExit\<rparr>)"
| tick: "cl_now c \<le> now' \<Longrightarrow> client_step timely c (c\<lparr>cl_now := now'\<rparr>)"
| send: "client_Send ok env c = (r, c') \<Longrightarrow> client_step timely c c'"
| ack: "client_step timely c (Acknowledge ok pos c)"
| stop: "client_step timely c (stop_step c)"
| machine_close: "client_step timely c (c\<lparr>cl_mach := machine_Close (cl_mach c)\<rparr>)"

inductive client_reach :: "bool \<Rightarrow> client \<Rightarrow> client \<Rightarrow> bool" for timely :: bool where
  here: "client_reach timely c c"
| step: "client_reach timely c c1 \<Longrightarrow> \<not> cl_crashed c1 \<Longrightarrow> client_step timely c1 c2 \<Longrightarrow> client_reach timely c c2"

end
