(* ===== verification/Outbox.thy ===== *)
theory Outbox
  imports Wire
begin

text \<open>
  \<^verbatim>\<open>src/internal/outbox/outbox.go\<close>: the client's durable hold of messages composed while
  disconnected.  The table is the list of its rows in \<^verbatim>\<open>seq\<close> order; \<^verbatim>\<open>AUTOINCREMENT\<close>
  is the counter \<open>ob_next\<close>.  Each statement may fail.  Protobuf marshalling is a
  parameter.  The locale \<open>held_fifo\<close> is the contract a drain relies on.
\<close>

section \<open>Operations\<close>

record outbox_row =
  obr_seq :: int
  obr_message_id :: string
  obr_envelope :: bytes
  obr_queued_at :: time

record outbox =
  ob_rows :: "outbox_row list"
  ob_next :: int

datatype outbox_error = NoMessageID | OutboxMarshal | OutboxInsert | OutboxQuery | OutboxDecode | OutboxDelete

text \<open>A fresh database.\<close>

definition empty_outbox :: outbox where "empty_outbox = \<lparr>ob_rows = [], ob_next = 1\<rparr>"

definition outbox_Enqueue ::
  "(envelope \<Rightarrow> bytes option) \<Rightarrow> bool \<Rightarrow> time \<Rightarrow> envelope \<Rightarrow> outbox \<Rightarrow> (outbox_error, unit) result \<times> outbox" where
  "outbox_Enqueue marshal fails now env ob =
     (if env_message_id env = '''' then (Err NoMessageID, ob)
      else case marshal env of
        None \<Rightarrow> (Err OutboxMarshal, ob)
      | Some body \<Rightarrow>
          (if fails \<or> env_message_id env \<in> obr_message_id ` set (ob_rows ob) then (Err OutboxInsert, ob)
           else (Ok (), ob\<lparr>ob_rows := ob_rows ob @ [\<lparr>obr_seq = ob_next ob, obr_message_id = env_message_id env,
                   obr_envelope = body, obr_queued_at = now\<rparr>], ob_next := ob_next ob + 1\<rparr>)))"

fun decode_rows :: "(bytes \<Rightarrow> envelope option) \<Rightarrow> outbox_row list \<Rightarrow> (outbox_error, envelope list) result" where
  "decode_rows unmarshal [] = Ok []"
| "decode_rows unmarshal (r # rs) =
     (case unmarshal (obr_envelope r) of
        None \<Rightarrow> Err OutboxDecode
      | Some env \<Rightarrow> (case decode_rows unmarshal rs of Inl e \<Rightarrow> Err e | Inr envs \<Rightarrow> Ok (env # envs)))"

definition outbox_Pending ::
  "(bytes \<Rightarrow> envelope option) \<Rightarrow> bool \<Rightarrow> outbox \<Rightarrow> (outbox_error, envelope list) result" where
  "outbox_Pending unmarshal fails ob = (if fails then Err OutboxQuery else decode_rows unmarshal (ob_rows ob))"

definition outbox_Remove :: "bool \<Rightarrow> string \<Rightarrow> outbox \<Rightarrow> (outbox_error, unit) result \<times> outbox" where
  "outbox_Remove fails messageID ob =
     (if fails then (Err OutboxDelete, ob)
      else (Ok (), ob\<lparr>ob_rows := filter (\<lambda>r. obr_message_id r \<noteq> messageID) (ob_rows ob)\<rparr>))"

definition outbox_Count :: "bool \<Rightarrow> outbox \<Rightarrow> (outbox_error, nat) result" where
  "outbox_Count fails ob = (if fails then Err OutboxQuery else Ok (length (ob_rows ob)))"

section \<open>The contract of a hold\<close>

locale held_fifo =
  fixes remove :: "'k \<Rightarrow> 's \<Rightarrow> 's"
    and contents :: "'s \<Rightarrow> 'm list"
    and key :: "'m \<Rightarrow> 'k"
    and inv :: "'s \<Rightarrow> bool"
  assumes inv_remove: "inv s \<Longrightarrow> inv (remove k s)"
    and contents_distinct: "inv s \<Longrightarrow> distinct (map key (contents s))"
    and contents_remove: "inv s \<Longrightarrow> contents (remove k s) = filter (\<lambda>m. key m \<noteq> k) (contents s)"
begin

lemma remove_head:
  assumes "inv s" "contents s = m # ms" shows "contents (remove (key m) s) = ms"
proof -
  have "key m \<notin> key ` set ms" using contents_distinct [OF assms(1)] assms(2) by simp
  then have "filter (\<lambda>x. key x \<noteq> key m) ms = ms" by (intro filter_True) (metis imageI)
  then show ?thesis using contents_remove [OF assms(1)] assms(2) by simp
qed

lemma remove_prefix:
  assumes "inv s" "contents s = xs @ ys"
  shows "inv (fold (\<lambda>m. remove (key m)) xs s) \<and> contents (fold (\<lambda>m. remove (key m)) xs s) = ys"
  using assms
proof (induction xs arbitrary: s)
  case (Cons x xs)
  then have "contents (remove (key x) s) = xs @ ys" by (intro remove_head) simp_all
  with Cons.IH [OF inv_remove [OF Cons.prems(1), of "key x"]] show ?case by simp
qed simp

end

section \<open>The table keeps it\<close>

text \<open>Every row decodes to an envelope that carries the row's identifier.\<close>

definition outbox_inv :: "(bytes \<Rightarrow> envelope option) \<Rightarrow> outbox \<Rightarrow> bool" where
  "outbox_inv unmarshal ob \<longleftrightarrow> distinct (map obr_message_id (ob_rows ob))
     \<and> sorted_wrt (<) (map obr_seq (ob_rows ob)) \<and> (\<forall>r \<in> set (ob_rows ob). obr_seq r < ob_next ob
       \<and> (\<exists>env. unmarshal (obr_envelope r) = Some env \<and> env_message_id env = obr_message_id r))"

definition held :: "(bytes \<Rightarrow> envelope option) \<Rightarrow> outbox \<Rightarrow> envelope list" where
  "held unmarshal ob = map (\<lambda>r. the (unmarshal (obr_envelope r))) (ob_rows ob)"

lemma decode_rows_ok:
  "\<forall>r \<in> set rs. unmarshal (obr_envelope r) \<noteq> None \<Longrightarrow>
     decode_rows unmarshal rs = Ok (map (\<lambda>r. the (unmarshal (obr_envelope r))) rs)"
  by (induction rs) (auto split: option.split)

lemma Pending_held: "outbox_inv unmarshal ob \<Longrightarrow> outbox_Pending unmarshal False ob = Ok (held unmarshal ob)"
  unfolding outbox_Pending_def held_def by (simp, rule decode_rows_ok) (auto simp: outbox_inv_def)

lemma held_ids: "outbox_inv unmarshal ob \<Longrightarrow> map env_message_id (held unmarshal ob) = map obr_message_id (ob_rows ob)"
  by (fastforce simp: outbox_inv_def held_def)

interpretation ob: held_fifo "\<lambda>k ob. snd (outbox_Remove False k ob)" "held unmarshal" env_message_id
  "outbox_inv unmarshal" for unmarshal
proof unfold_locales
  fix s k
  assume inv: "outbox_inv unmarshal s"
  show "outbox_inv unmarshal (snd (outbox_Remove False k s))"
    using inv by (auto simp: outbox_inv_def outbox_Remove_def distinct_map_filter sorted_wrt_map
        intro!: sorted_wrt_filter)
  show "distinct (map env_message_id (held unmarshal s))"
    using inv by (simp add: held_ids) (simp add: outbox_inv_def)
  have "env_message_id (the (unmarshal (obr_envelope r))) = obr_message_id r" if "r \<in> set (ob_rows s)" for r
    using inv that by (auto simp: outbox_inv_def)
  then show "held unmarshal (snd (outbox_Remove False k s)) =
      filter (\<lambda>m. env_message_id m \<noteq> k) (held unmarshal s)"
    by (simp add: held_def outbox_Remove_def filter_map o_def cong: filter_cong)
qed

lemma Enqueue_inv:
  assumes "outbox_inv unmarshal ob" "\<And>e b. marshal e = Some b \<Longrightarrow> unmarshal b = Some e"
  shows "outbox_inv unmarshal (snd (outbox_Enqueue marshal fails now env ob))"
  using assms by (auto simp: outbox_inv_def outbox_Enqueue_def sorted_wrt_append less_trans
      split: option.split)

lemma Enqueue_held:
  assumes "outbox_Enqueue marshal fails now env ob = (Ok (), ob')" "\<And>e b. marshal e = Some b \<Longrightarrow> unmarshal b = Some e"
  shows "held unmarshal ob' = held unmarshal ob @ [env]"
  using assms by (auto simp: outbox_Enqueue_def held_def split: if_splits option.splits)

text \<open>
  The hold is first-in first-out and durable: a message accepted is
  pending behind everything pending before it, a rejected one changes nothing,
  removing a message removes exactly it and keeps the order of the others, and
  removing it again changes nothing.
\<close>

theorem outbox_is_a_fifo:
  assumes "outbox_inv unmarshal ob" "\<And>e b. marshal e = Some b \<Longrightarrow> unmarshal b = Some e"
    and "outbox_Enqueue marshal fails now env ob = (res, ob')"
  shows "(res = Ok () \<longrightarrow> outbox_Pending unmarshal False ob' = Ok (held unmarshal ob @ [env]))
       \<and> (res \<noteq> Ok () \<longrightarrow> ob' = ob)
       \<and> (env_message_id env \<noteq> '''' \<and> marshal env \<noteq> None \<and> \<not> fails
            \<and> env_message_id env \<notin> env_message_id ` set (held unmarshal ob) \<longrightarrow> res = Ok ())
       \<and> outbox_Pending unmarshal False (snd (outbox_Remove False k ob'))
           = Ok (filter (\<lambda>e. env_message_id e \<noteq> k) (held unmarshal ob'))
       \<and> outbox_Remove False k (snd (outbox_Remove False k ob')) = (Ok (), snd (outbox_Remove False k ob'))"
proof -
  have inv': "outbox_inv unmarshal ob'" using Enqueue_inv [OF assms(1,2)] assms(3) by (metis snd_conv)
  have ids: "env_message_id ` set (held unmarshal ob) = obr_message_id ` set (ob_rows ob)"
    using held_ids [OF assms(1)] by (metis list.set_map)
  have "res = Ok () \<Longrightarrow> outbox_Pending unmarshal False ob' = Ok (held unmarshal ob @ [env])"
    using Enqueue_held [of marshal fails now env ob ob' unmarshal] assms(2,3) Pending_held [OF inv'] by simp
  moreover have "res \<noteq> Ok () \<Longrightarrow> ob' = ob" using assms(3)
    by (auto simp: outbox_Enqueue_def split: if_splits option.splits)
  moreover have "env_message_id env \<noteq> '''' \<Longrightarrow> marshal env \<noteq> None \<Longrightarrow> \<not> fails \<Longrightarrow>
      env_message_id env \<notin> env_message_id ` set (held unmarshal ob) \<Longrightarrow> res = Ok ()"
    using assms(3) unfolding ids by (auto simp: outbox_Enqueue_def split: if_splits)
  moreover have "outbox_Pending unmarshal False (snd (outbox_Remove False k ob'))
      = Ok (filter (\<lambda>e. env_message_id e \<noteq> k) (held unmarshal ob'))"
    using Pending_held [OF ob.inv_remove [OF inv']] ob.contents_remove [OF inv'] by simp
  moreover have "outbox_Remove False k (snd (outbox_Remove False k ob')) = (Ok (), snd (outbox_Remove False k ob'))"
    by (simp add: outbox_Remove_def)
  ultimately show ?thesis by blast
qed

definition sample_outbox :: outbox where
  "sample_outbox = snd (outbox_Enqueue draft_marshal False 9 (draft ''1'') empty_outbox)"

lemma sample_outbox_inv: "outbox_inv draft_unmarshal sample_outbox"
  unfolding sample_outbox_def by (rule Enqueue_inv [OF _ draft_codec]) (simp_all add: outbox_inv_def empty_outbox_def)

lemma sample_outbox_held: "held draft_unmarshal sample_outbox = [draft ''1'']"
  by (simp add: sample_outbox_def outbox_Enqueue_def empty_outbox_def draft_marshal_def held_def draft_unmarshal_def)
    (simp add: draft_def)

theorem outbox_is_a_fifo_witness:
  "outbox_Pending draft_unmarshal False (snd (outbox_Enqueue draft_marshal False 10 (draft ''2'') sample_outbox))
     = Ok [draft ''1'', draft ''2'']"
proof -
  have "draft ''1'' \<noteq> draft ''2''" "env_message_id (draft ''2'') = ''2''" "env_message_id (draft ''1'') = ''1''"
    by (simp_all add: draft_def envelope_of_def)
  then show ?thesis
    using outbox_is_a_fifo [where marshal = draft_marshal and unmarshal = draft_unmarshal and ob = sample_outbox,
        OF sample_outbox_inv draft_codec surjective_pairing, where fails = False and now = 10 and env = "draft ''2''"]
      sample_outbox_held
    by (simp add: draft_marshal_def)
qed

end
