(* ===== verification/Message.thy ===== *)
theory Message
  imports Prelude
begin

text \<open>
  \<^verbatim>\<open>src/internal/message/message.go\<close>: the transport-independent message value, the
  conversation keys it is filed under and the body rule both endpoints apply.
  \<^verbatim>\<open>NewID\<close> draws a ULID from a third-party generator: components that call it take
  the identifier as an argument.
\<close>

record message =
  msg_ID :: string
  msg_Sender :: string
  msg_Recipient :: string
  msg_Body :: string
  msg_SentAt :: time
  msg_ReceivedAt :: time

definition MaxBodyBytes :: nat where "MaxBodyBytes = 4096"

definition dmKeyPrefix :: string where "dmKeyPrefix = ''dm:''"

definition BroadcastConversation :: string where "BroadcastConversation = ''broadcast''"

definition IsBroadcast :: "message \<Rightarrow> bool" where
  "IsBroadcast m \<longleftrightarrow> msg_Recipient m = ''''"

definition ConversationKey :: "string \<Rightarrow> string" where
  "ConversationKey peer = dmKeyPrefix @ peer"

definition ConversationKeyFor :: "string \<Rightarrow> message \<Rightarrow> string" where
  "ConversationKeyFor local msg =
     (if IsBroadcast msg then BroadcastConversation
      else ConversationKey (if msg_Sender msg = local then msg_Recipient msg else msg_Sender msg))"

datatype body_error = BodyTooLong nat | BodyNotUTF8

definition ValidateBody :: "string \<Rightarrow> (body_error, unit) result" where
  "ValidateBody body =
     (if length body > MaxBodyBytes then Err (BodyTooLong (length body))
      else if \<not> ValidString body then Err BodyNotUTF8
      else Ok ())"

lemma ValidateBody_ok_iff:
  "ValidateBody b = Ok () \<longleftrightarrow> length b \<le> MaxBodyBytes \<and> ValidString b"
  by (simp add: ValidateBody_def)

lemma ValidateBody_cases:
  "ValidateBody b = Ok () \<or> (\<exists>e. ValidateBody b = Err e)"
  by (simp add: ValidateBody_def)

lemma ConversationKey_inj [simp]: "ConversationKey a = ConversationKey b \<longleftrightarrow> a = b"
  by (simp add: ConversationKey_def)

lemma ConversationKey_not_broadcast [simp]:
  "ConversationKey p \<noteq> BroadcastConversation" "BroadcastConversation \<noteq> ConversationKey p"
  by (simp_all add: ConversationKey_def BroadcastConversation_def dmKeyPrefix_def)

text \<open>
  The key derivation files a message with its peer whichever way it
  travelled, and nothing else: seen from \<^term>\<open>local\<close>, a direct message between
  \<^term>\<open>local\<close> and \<^term>\<open>peer\<close> has the key of \<^term>\<open>peer\<close> in both directions, two
  messages share a key exactly when both are broadcasts or both are direct and
  have the same peer, and no device name (not even \<^verbatim>\<open>broadcast\<close>) makes a direct
  conversation collide with the broadcast one.
\<close>

theorem conversation_key_separates:
  "ConversationKeyFor local m1 = ConversationKeyFor local m2 \<longleftrightarrow>
     IsBroadcast m1 = IsBroadcast m2 \<and>
     (IsBroadcast m1 \<or>
       (if msg_Sender m1 = local then msg_Recipient m1 else msg_Sender m1) =
       (if msg_Sender m2 = local then msg_Recipient m2 else msg_Sender m2))"
  by (auto simp: ConversationKeyFor_def)

end
