(* ===== verification/Dedup.thy ===== *)
theory Dedup
  imports Message
begin

text \<open>
  \<^verbatim>\<open>src/internal/message/dedup.go\<close>: the receiver-side duplicate filter, a
  membership set kept in lockstep with an insertion-order ring.  The locale
  \<open>window_filter\<close> is the contract the display log relies on; the ring
  implements it, with the ring read from its head as the abstraction.
\<close>

section \<open>The ring\<close>

record dedup =
  dd_capacity :: nat
  dd_seen :: "string set"
  dd_order :: "string list"
  dd_head :: nat

datatype panic = Panic string

definition NewDedup :: "int \<Rightarrow> (panic, dedup) result" where
  "NewDedup capacity =
     (if capacity \<le> 0 then Err (Panic ''message: dedup capacity must be positive'')
      else Ok \<lparr>dd_capacity = nat capacity, dd_seen = {}, dd_order = [], dd_head = 0\<rparr>)"

definition dedup_First :: "string \<Rightarrow> dedup \<Rightarrow> bool \<times> dedup" where
  "dedup_First ident d =
     (if ident \<in> dd_seen d then (False, d)
      else
        let d' =
          (if length (dd_order d) = dd_capacity d
           then d\<lparr>dd_seen := dd_seen d - {dd_order d ! dd_head d},
                  dd_order := (dd_order d)[dd_head d := ident],
                  dd_head := (dd_head d + 1) mod dd_capacity d\<rparr>
           else d\<lparr>dd_order := dd_order d @ [ident]\<rparr>)
        in (True, d'\<lparr>dd_seen := insert ident (dd_seen d')\<rparr>))"

definition dedup_Len :: "dedup \<Rightarrow> nat" where
  "dedup_Len d = card (dd_seen d)"

definition dedup_inv :: "dedup \<Rightarrow> bool" where
  "dedup_inv d \<longleftrightarrow> 0 < dd_capacity d \<and> length (dd_order d) \<le> dd_capacity d
     \<and> distinct (dd_order d) \<and> dd_seen d = set (dd_order d)
     \<and> dd_head d < dd_capacity d
     \<and> (length (dd_order d) < dd_capacity d \<longrightarrow> dd_head d = 0)"

section \<open>Reference: the window of most recent accepted identifiers\<close>

definition win_step :: "nat \<Rightarrow> string \<Rightarrow> string list \<Rightarrow> bool \<times> string list" where
  "win_step cap ident w =
     (if ident \<in> set w then (False, w) else (True, lastn cap (w @ [ident])))"

definition dedup_window :: "dedup \<Rightarrow> string list" where
  "dedup_window d = drop (dd_head d) (dd_order d) @ take (dd_head d) (dd_order d)"

lemma set_dedup_window [simp]: "set (dedup_window d) = set (dd_order d)"
proof -
  have "set (take n xs) \<union> set (drop n xs) = set xs" for n and xs :: "string list"
    by (metis append_take_drop_id set_append)
  then show ?thesis by (auto simp: dedup_window_def)
qed

lemma length_dedup_window [simp]: "length (dedup_window d) = length (dd_order d)"
  by (simp add: dedup_window_def)

lemma ring_overwrite:
  assumes "length xs = n" "h < n"
  shows "drop ((h + 1) mod n) (xs[h := x]) @ take ((h + 1) mod n) (xs[h := x])
         = tl (drop h xs @ take h xs) @ [x]"
proof (cases "h + 1 = n")
  case True
  then have "drop h xs = [xs ! h]"
    using assms Cons_nth_drop_Suc [of h xs] by simp
  moreover have "xs[h := x] = take h xs @ [x]"
    using True assms by (simp add: list_update_append1 upd_conv_take_nth_drop)
  ultimately show ?thesis using True by simp
next
  case False
  then have "(h + 1) mod n = Suc h" using assms by simp
  moreover have "drop h xs = xs ! h # drop (Suc h) xs"
    using assms by (simp add: Cons_nth_drop_Suc)
  moreover have "take (Suc h) (xs[h := x]) = take h xs @ [x]"
    using assms by (simp add: take_Suc_conv_app_nth)
  ultimately show ?thesis by simp
qed

lemma window_accept:
  assumes "dedup_inv d" "ident \<notin> dd_seen d"
  shows "dedup_window (snd (dedup_First ident d)) = lastn (dd_capacity d) (dedup_window d @ [ident])"
proof (cases "length (dd_order d) = dd_capacity d")
  case True
  moreover have "dedup_window d \<noteq> []"
    using True assms by (simp add: dedup_inv_def flip: length_0_conv)
  moreover have "lastn (dd_capacity d) (dedup_window d @ [ident]) = tl (dedup_window d) @ [ident]"
    using True assms by (simp add: lastn_def drop_Suc dedup_inv_def)
  ultimately show ?thesis
    using assms ring_overwrite [of "dd_order d" "dd_capacity d" "dd_head d" ident]
    by (simp add: dedup_First_def dedup_window_def dedup_inv_def Let_def)
next
  case False
  then show ?thesis using assms
    by (simp add: dedup_First_def dedup_window_def dedup_inv_def Let_def)
qed

lemma dedup_First_inv [simp, intro]:
  assumes "dedup_inv d" shows "dedup_inv (snd (dedup_First ident d))"
proof (cases "ident \<in> dd_seen d \<or> length (dd_order d) \<noteq> dd_capacity d")
  case True
  then show ?thesis using assms by (auto simp: dedup_First_def dedup_inv_def Let_def)
next
  case False
  then have h: "dd_head d < length (dd_order d)" using assms by (simp add: dedup_inv_def)
  moreover have "distinct ((dd_order d)[dd_head d := ident])"
    using False assms by (auto simp: dedup_inv_def intro: distinct_list_update)
  moreover have "set ((dd_order d)[dd_head d := ident])
      = insert ident (set (dd_order d) - {dd_order d ! dd_head d})"
    using h assms by (simp add: set_update_distinct dedup_inv_def)
  ultimately show ?thesis using False assms
    by (simp add: dedup_First_def dedup_inv_def Let_def)
qed

lemma dedup_First_capacity [simp]: "dd_capacity (snd (dedup_First ident d)) = dd_capacity d"
  by (simp add: dedup_First_def Let_def)

lemma dedup_First_seen: "fst (dedup_First ident d) \<longleftrightarrow> ident \<notin> dd_seen d"
  by (simp add: dedup_First_def Let_def)

lemma dedup_inv_new: "NewDedup c = Ok d \<Longrightarrow> dedup_inv d \<and> dedup_window d = []"
  by (auto simp: NewDedup_def dedup_inv_def dedup_window_def split: if_splits)

text \<open>
  The ring refines the window of the last \<open>capacity\<close> accepted identifiers:
  one call answers exactly whether the identifier is outside the window and
  leaves the ring whose reading is the window shifted by it, and the ring's
  invariant (set and order in lockstep, never over capacity) is kept.
\<close>

theorem dedup_First_refines_window:
  assumes "dedup_inv d"
  shows "(case dedup_First ident d of (r, d') \<Rightarrow>
            (r, dedup_window d') = win_step (dd_capacity d) ident (dedup_window d)
            \<and> dedup_inv d' \<and> dedup_Len d' \<le> dd_capacity d)"
proof -
  obtain r d' where rd: "dedup_First ident d = (r, d')" by force
  then have "r \<longleftrightarrow> ident \<notin> dd_seen d" "dedup_inv d'" "dd_capacity d' = dd_capacity d"
    using dedup_First_seen [of ident d] dedup_First_inv [OF assms, of ident]
      dedup_First_capacity [of ident d] by simp_all
  moreover have "dedup_Len d' \<le> dd_capacity d'"
    using \<open>dedup_inv d'\<close> by (simp add: dedup_Len_def dedup_inv_def distinct_card)
  moreover have "dd_seen d = set (dedup_window d)" using assms by (simp add: dedup_inv_def)
  moreover have "ident \<in> dd_seen d \<Longrightarrow> d' = d" using rd by (simp add: dedup_First_def)
  ultimately show ?thesis
    using rd window_accept [OF assms, of ident] by (cases r) (simp_all add: win_step_def)
qed

theorem dedup_First_refines_window_witness:
  "(case dedup_First ''c'' \<lparr>dd_capacity = 2, dd_seen = {''a'', ''b''},
       dd_order = [''b'', ''a''], dd_head = 1\<rparr> of (r, d') \<Rightarrow>
      (r, dedup_window d') = win_step 2 ''c'' [''a'', ''b'']
      \<and> dedup_inv d' \<and> dedup_Len d' \<le> 2)"
  using dedup_First_refines_window [of "\<lparr>dd_capacity = 2, dd_seen = {''a'', ''b''},
       dd_order = [''b'', ''a''], dd_head = 1\<rparr>" "''c''"]
  by (simp add: dedup_inv_def dedup_window_def insert_commute)

section \<open>The contract the display log relies on\<close>

locale window_filter =
  fixes first :: "string \<Rightarrow> 'd \<Rightarrow> bool \<times> 'd"
    and window :: "'d \<Rightarrow> string list"
    and cap :: "'d \<Rightarrow> nat"
    and invar :: "'d \<Rightarrow> bool"
  assumes first_answer: "invar d \<Longrightarrow> fst (first i d) \<longleftrightarrow> i \<notin> set (window d)"
    and first_window: "invar d \<Longrightarrow> window (snd (first i d)) = snd (win_step (cap d) i (window d))"
    and first_invar: "invar d \<Longrightarrow> invar (snd (first i d))"
    and first_cap: "invar d \<Longrightarrow> cap (snd (first i d)) = cap d"
    and cap_pos: "invar d \<Longrightarrow> 0 < cap d"
    and window_distinct: "invar d \<Longrightarrow> distinct (window d)"
begin

lemma first_records:
  assumes "invar d" shows "i \<in> set (window (snd (first i d)))"
  using assms cap_pos [OF assms] by (simp add: first_window win_step_def lastn_def)

lemma run_invar:
  "invar d \<Longrightarrow> invar (fold (\<lambda>x d. snd (first x d)) xs d)
     \<and> cap (fold (\<lambda>x d. snd (first x d)) xs d) = cap d"
  by (induction xs arbitrary: d) (simp_all add: first_invar first_cap)

lemma step_keeps_suffix:
  assumes "invar d" "window d = pre @ i # post" "set post \<subseteq> S" "finite S"
    and "i \<notin> S" "card S < cap d" "x \<in> insert i S"
  shows "\<exists>pre' post'. window (snd (first x d)) = pre' @ i # post' \<and> set post' \<subseteq> S"
proof (cases "x \<in> set (window d)")
  case True
  then show ?thesis using assms by (auto simp: first_window win_step_def)
next
  case False
  let ?n = "length (pre @ i # post @ [x]) - cap d"
  have "distinct (x # post)" using False window_distinct [OF assms(1)] assms(2) by auto
  moreover have "set (x # post) \<subseteq> S" using assms False by auto
  ultimately have "length (x # post) \<le> card S"
    using \<open>finite S\<close> by (metis card_mono distinct_card)
  then have "?n \<le> length pre" using \<open>card S < cap d\<close> by simp
  then have "lastn (cap d) (window d @ [x]) = drop ?n pre @ i # (post @ [x])"
    using assms(2) by (simp add: lastn_def)
  then show ?thesis
    using False assms \<open>set (x # post) \<subseteq> S\<close> by (fastforce simp: first_window win_step_def)
qed

lemma run_keeps_suffix:
  assumes "invar d" "window d = pre @ i # post" "set post \<subseteq> S" "finite S"
    and "i \<notin> S" "card S < cap d" "set xs \<subseteq> insert i S"
  shows "i \<in> set (window (fold (\<lambda>x d. snd (first x d)) xs d))"
  using assms
proof (induction xs arbitrary: d pre post)
  case (Cons x xs)
  obtain pre' post' where w: "window (snd (first x d)) = pre' @ i # post'" "set post' \<subseteq> S"
    using step_keeps_suffix [OF Cons.prems(1-6), of x] Cons.prems(7) by auto
  show ?case
    using Cons.IH [OF first_invar [OF Cons.prems(1)] w] Cons.prems first_cap by simp
qed simp

lemma accepted_is_remembered:
  assumes "invar d" "fst (first i d)" "card (set xs - {i}) < cap d"
  shows "\<not> fst (first i (fold (\<lambda>x d. snd (first x d)) xs (snd (first i d))))"
proof -
  let ?d = "snd (first i d)"
  have "i \<notin> set (window d)" using assms by (simp add: first_answer)
  then have "window ?d = drop (length (window d) + 1 - cap d) (window d) @ i # []"
    using cap_pos [OF assms(1)] assms(1) by (simp add: first_window win_step_def lastn_def)
  moreover have "invar ?d" "cap ?d = cap d" using assms first_invar first_cap by auto
  ultimately have "i \<in> set (window (fold (\<lambda>x d. snd (first x d)) xs ?d))"
    using assms(3) by (intro run_keeps_suffix [where S = "set xs - {i}" and post = "[]"]) auto
  then show ?thesis using \<open>invar ?d\<close> run_invar by (simp add: first_answer)
qed

text \<open>With room for every identifier, nothing is ever forgotten.\<close>

lemma run_window_room:
  assumes "invar d" "card (set (window d) \<union> set xs) \<le> cap d"
  shows "set (window (fold (\<lambda>x d. snd (first x d)) xs d)) = set (window d) \<union> set xs"
  using assms
proof (induction xs arbitrary: d)
  case (Cons x xs)
  have "set (window (snd (first x d))) = insert x (set (window d))"
  proof (cases "x \<in> set (window d)")
    case False
    have "card (insert x (set (window d))) \<le> card (set (window d) \<union> set (x # xs))"
      by (intro card_mono) auto
    then have "length (window d @ [x]) \<le> cap d"
      using False Cons.prems window_distinct by (simp add: distinct_card)
    then show ?thesis using False Cons.prems by (simp add: first_window win_step_def)
  qed (use Cons.prems in \<open>auto simp: first_window win_step_def\<close>)
  then show ?case
    using Cons.IH [of "snd (first x d)"] Cons.prems by (simp add: first_invar first_cap)
qed simp

end

interpretation ring: window_filter dedup_First dedup_window dd_capacity dedup_inv
proof (unfold_locales, goal_cases)
  case (2 d i)
  then show ?case
    using window_accept [OF 2, of i]
    by (cases "i \<in> dd_seen d") (auto simp: win_step_def dedup_inv_def dedup_First_def)
next
  case (3 d i)
  then show ?case by (rule dedup_First_inv)
next
  case (6 d)
  then show ?case
    using set_take_disj_set_drop_if_distinct [of "dd_order d" "dd_head d" "dd_head d"]
    by (auto simp: dedup_inv_def dedup_window_def)
qed (auto simp: dedup_inv_def dedup_First_seen)

text \<open>
  Duplicate suppression: an identifier that was reported new is reported as a
  duplicate for as long as fewer than \<open>capacity\<close> other distinct identifiers
  arrived since, however often those were repeated.
\<close>

theorem dedup_suppresses_redelivery:
  assumes "dedup_inv d" "fst (dedup_First ident d)"
    and "card (set later - {ident}) < dd_capacity d"
  shows "\<not> fst (dedup_First ident
           (fold (\<lambda>x d. snd (dedup_First x d)) later (snd (dedup_First ident d))))"
  using assms by (rule ring.accepted_is_remembered)

definition dedup_sample :: dedup where
  "dedup_sample = \<lparr>dd_capacity = 2, dd_seen = {''x'', ''y''},
     dd_order = [''x'', ''y''], dd_head = 1\<rparr>"

theorem dedup_suppresses_redelivery_witness:
  "\<not> fst (dedup_First ''a'' (fold (\<lambda>x d. snd (dedup_First x d)) [''b'', ''a'', ''b'']
       (snd (dedup_First ''a'' dedup_sample))))"
  by (rule dedup_suppresses_redelivery)
    (simp_all add: dedup_inv_def dedup_sample_def insert_Diff_if dedup_First_seen)

end
