(* ===== verification/ChatLog.thy ===== *)
theory ChatLog
  imports Dedup "HOL-Library.Multiset"
begin

text \<open>
  \<^verbatim>\<open>src/internal/message/log.go\<close>: the in-memory conversation log.  A message is filed
  when the duplicate filter reports its identifier as new; each conversation
  keeps its newest \<open>scrollback\<close> messages in arrival order.  The filter and the
  conversation map have separate mutexes in the code; the model takes one
  \<^verbatim>\<open>Append\<close> as one step.
\<close>

section \<open>Operations\<close>

record chatlog =
  lg_local :: string
  lg_scrollback :: nat
  lg_convs :: "(string \<times> message list) list"
  lg_dedup :: dedup

definition DefaultScrollback :: int where "DefaultScrollback = 500"
definition DefaultDedupWindow :: int where "DefaultDedupWindow = 4096"

definition NewLog :: "string \<Rightarrow> int \<Rightarrow> int \<Rightarrow> (panic, chatlog) result" where
  "NewLog local scrollback dedupWindow =
     (let sb = (if scrollback \<le> 0 then DefaultScrollback else scrollback);
          dw = (if dedupWindow \<le> 0 then DefaultDedupWindow else dedupWindow)
      in case NewDedup dw of
           Inl p \<Rightarrow> Err p
         | Inr d \<Rightarrow> Ok \<lparr>lg_local = local, lg_scrollback = nat sb, lg_convs = [], lg_dedup = d\<rparr>)"

definition log_Conversation :: "string \<Rightarrow> chatlog \<Rightarrow> message list" where
  "log_Conversation key l = (case map_of (lg_convs l) key of None \<Rightarrow> [] | Some ms \<Rightarrow> ms)"

definition log_key :: "chatlog \<Rightarrow> message \<Rightarrow> string" where
  "log_key l msg = ConversationKeyFor (lg_local l) msg"

definition log_Append :: "message \<Rightarrow> chatlog \<Rightarrow> bool \<times> chatlog" where
  "log_Append msg l =
     (case dedup_First (msg_ID msg) (lg_dedup l) of
        (False, d) \<Rightarrow> (False, l\<lparr>lg_dedup := d\<rparr>)
      | (True, d) \<Rightarrow>
          (let key = log_key l msg;
               conv = log_Conversation key l @ [msg];
               over = int (length conv) - int (lg_scrollback l);
               conv' = (if over > 0 then drop (nat over) conv else conv)
           in (True, l\<lparr>lg_dedup := d, lg_convs := AList.update key conv' (lg_convs l)\<rparr>)))"

text \<open>The written-out insertion sort of \<^verbatim>\<open>Conversations\<close>: the inner loop sifts the
  element at index \<open>j\<close> down by swaps, the outer loop runs it for every index.\<close>

fun sift :: "nat \<Rightarrow> 'a::linorder list \<Rightarrow> 'a list" where
  "sift 0 keys = keys"
| "sift (Suc j) keys =
     (if keys ! Suc j < keys ! j
      then sift j (keys[Suc j := keys ! j, j := keys ! Suc j])
      else keys)"

definition insertion_sort :: "'a::linorder list \<Rightarrow> 'a list" where
  "insertion_sort keys = fold sift [1..<length keys] keys"

definition log_Conversations :: "chatlog \<Rightarrow> string list" where
  "log_Conversations l = insertion_sort (map fst (lg_convs l))"

section \<open>The insertion sort sorts\<close>

lemma sift_inserts:
  "sorted ys \<Longrightarrow> sift (length ys) (ys @ x # zs) = sort (ys @ [x]) @ zs"
proof (induction ys arbitrary: zs rule: rev_induct)
  case (snoc y ys)
  show ?case
  proof (cases "x < y")
    case True
    have "sift (length ys) (ys @ x # y # zs) = sort (ys @ [x]) @ y # zs"
      using snoc by (simp add: sorted_append)
    moreover have "sort (ys @ [y, x]) = sort (ys @ [x]) @ [y]"
      using snoc.prems True by (intro properties_for_sort) (auto simp: sorted_append)
    ultimately show ?thesis using True by (simp add: nth_append list_update_append)
  next
    case False
    then have "sorted (ys @ [y, x])" using snoc.prems by (auto simp: sorted_append)
    then show ?thesis using False by (simp add: nth_append sorted_sort_id)
  qed
qed simp

lemma sift_prefix:
  assumes "n < length keys"
  shows "sift n (sort (take n keys) @ drop n keys) = sort (take (Suc n) keys) @ drop (Suc n) keys"
proof -
  have "drop n keys = keys ! n # drop (Suc n) keys" using assms by (simp add: Cons_nth_drop_Suc)
  moreover have "sort (sort (take n keys) @ [keys ! n]) = sort (take n keys @ [keys ! n])"
    by (intro properties_for_sort) auto
  ultimately show ?thesis
    using sift_inserts [of "sort (take n keys)" "keys ! n" "drop (Suc n) keys"] assms
    by (simp add: take_Suc_conv_app_nth)
qed

lemma fold_sift_prefix:
  "n \<le> length keys \<Longrightarrow> fold sift [0..<n] keys = sort (take n keys) @ drop n keys"
  by (induction n) (simp_all add: sift_prefix)

lemma insertion_sort_eq_sort: "insertion_sort keys = sort keys"
proof (cases keys)
  case (Cons k ks)
  then have "[0..<length keys] = 0 # [1..<length keys]"
    by (simp add: upt_conv_Cons del: upt_Suc)
  then have "fold sift [0..<length keys] keys = insertion_sort keys"
    by (simp add: insertion_sort_def)
  then show ?thesis using fold_sift_prefix [of "length keys" keys] by simp
qed (simp add: insertion_sort_def)

section \<open>Filing\<close>

definition log_inv :: "chatlog \<Rightarrow> bool" where
  "log_inv l \<longleftrightarrow> 0 < lg_scrollback l \<and> wf_map (lg_convs l) \<and> dedup_inv (lg_dedup l)
     \<and> (\<forall>k. length (log_Conversation k l) \<le> lg_scrollback l
           \<and> (\<forall>m \<in> set (log_Conversation k l). log_key l m = k))"

abbreviation log_run :: "message list \<Rightarrow> chatlog \<Rightarrow> chatlog" where
  "log_run msgs l \<equiv> fold (\<lambda>m l. snd (log_Append m l)) msgs l"

text \<open>The messages of a run whose \<^verbatim>\<open>Append\<close> reported that they are to be displayed.\<close>

fun displayed :: "message list \<Rightarrow> chatlog \<Rightarrow> message list" where
  "displayed [] l = []"
| "displayed (m # ms) l =
     (if fst (log_Append m l) then [m] else []) @ displayed ms (snd (log_Append m l))"

lemma log_Append_fields [simp]:
  "lg_local (snd (log_Append m l)) = lg_local l"
  "lg_scrollback (snd (log_Append m l)) = lg_scrollback l"
  "lg_dedup (snd (log_Append m l)) = snd (dedup_First (msg_ID m) (lg_dedup l))"
  "log_key (snd (log_Append m l)) = log_key l"
  by (auto simp: log_Append_def Let_def log_key_def fun_eq_iff split: prod.splits bool.splits)

lemma log_Append_answer [simp]:
  "fst (log_Append m l) = fst (dedup_First (msg_ID m) (lg_dedup l))"
  by (auto simp: log_Append_def Let_def split: prod.splits bool.splits)

lemma log_Append_Conversation:
  "log_Conversation k (snd (log_Append m l)) =
     (if fst (log_Append m l) \<and> log_key l m = k
      then lastn (lg_scrollback l) (log_Conversation k l @ [m]) else log_Conversation k l)"
proof (cases "dedup_First (msg_ID m) (lg_dedup l)")
  case (Pair r d)
  have "(if int (length c) - int n > 0 then drop (nat (int (length c) - int n)) c else c)
        = lastn n c" for n and c :: "message list"
    by (simp add: lastn_def nat_diff_distrib)
  then show ?thesis
    using Pair by (cases r) (simp_all add: log_Append_def Let_def log_Conversation_def)
qed

lemma log_Append_inv:
  assumes "log_inv l" shows "log_inv (snd (log_Append m l))"
proof -
  have "wf_map (lg_convs (snd (log_Append m l)))"
    using assms by (auto simp: log_Append_def log_inv_def Let_def split: prod.splits bool.splits)
  moreover have "log_key l m' = k"
    if "m' \<in> set (log_Conversation k (snd (log_Append m l)))" for k m'
    using that assms set_lastn [of "lg_scrollback l" "log_Conversation k l @ [m]"]
    by (auto simp: log_Append_Conversation log_inv_def split: if_splits)
  moreover have "length (log_Conversation k (snd (log_Append m l))) \<le> lg_scrollback l" for k
    using assms by (simp add: log_inv_def log_Append_Conversation)
  ultimately show ?thesis
    unfolding log_inv_def log_Append_fields using assms by (auto simp: log_inv_def)
qed

lemma log_run_inv: "log_inv l \<Longrightarrow> log_inv (log_run msgs l)"
  by (induction msgs arbitrary: l) (simp_all add: log_Append_inv)

text \<open>
  C27. The log refines the per-conversation sequence of displayed messages: after
  any run of appends a conversation holds exactly the newest \<open>scrollback\<close> of what
  it held before followed by the displayed messages of its key, in arrival
  order, whatever traffic of other conversations was interleaved.
\<close>

theorem log_files_in_arrival_order:
  assumes "log_inv l"
  shows "log_Conversation k (log_run msgs l) =
           lastn (lg_scrollback l)
             (log_Conversation k l @ filter (\<lambda>m. log_key l m = k) (displayed msgs l))"
  using assms
proof (induction msgs arbitrary: l)
  case Nil
  then show ?case by (simp add: log_inv_def)
next
  case (Cons m ms)
  let ?l = "snd (log_Append m l)"
  have "lastn n (lastn n xs @ ys) = lastn n (xs @ ys)" if "0 < n" for n and xs ys :: "message list"
    by (cases "length xs \<le> n") (simp_all add: lastn_def add.commute)
  then show ?case
    using Cons.IH [OF log_Append_inv [OF Cons.prems]] Cons.prems
    by (simp add: log_Append_Conversation log_inv_def)
qed

definition sample_msg :: "string \<Rightarrow> string \<Rightarrow> message" where
  "sample_msg ident sender = \<lparr>msg_ID = ident, msg_Sender = sender, msg_Recipient = ''me'',
     msg_Body = ''hi'', msg_SentAt = 5, msg_ReceivedAt = 6\<rparr>"

definition sample_log :: chatlog where
  "sample_log = \<lparr>lg_local = ''me'', lg_scrollback = 1, lg_convs = [],
     lg_dedup = \<lparr>dd_capacity = 3, dd_seen = {}, dd_order = [], dd_head = 0\<rparr>\<rparr>"

lemma sample_log_inv: "log_inv sample_log"
  by (simp add: log_inv_def sample_log_def dedup_inv_def log_Conversation_def)

theorem log_files_in_arrival_order_witness:
  "log_Conversation ''dm:ann''
     (log_run [sample_msg ''1'' ''ann'', sample_msg ''2'' ''bob'', sample_msg ''1'' ''ann'',
               sample_msg ''3'' ''ann''] sample_log) = [sample_msg ''3'' ''ann'']"
  unfolding log_files_in_arrival_order [OF sample_log_inv]
  by (simp add: sample_msg_def sample_log_def log_Append_def dedup_First_def Let_def lastn_def
      log_Conversation_def log_key_def ConversationKeyFor_def IsBroadcast_def ConversationKey_def
      dmKeyPrefix_def)

text \<open>
  C11. Exactly-once display over at-least-once delivery: while the distinct
  identifiers seen so far and still to come fit the duplicate window, every
  identifier that is new to the log is displayed, and displayed once, however
  often the transport redelivers it.
\<close>

theorem log_displays_exactly_once:
  assumes "log_inv l"
    and "card (dd_seen (lg_dedup l) \<union> msg_ID ` set msgs) \<le> dd_capacity (lg_dedup l)"
  shows "distinct (map msg_ID (displayed msgs l)) \<and>
         msg_ID ` set (displayed msgs l) = msg_ID ` set msgs - dd_seen (lg_dedup l)"
  using assms
proof (induction msgs arbitrary: l)
  case (Cons m ms)
  let ?d = "lg_dedup l" and ?l = "snd (log_Append m l)"
  have d: "dedup_inv ?d" and dl: "dedup_inv (lg_dedup ?l)"
    using Cons.prems(1) by (simp_all add: log_inv_def dedup_First_inv)
  then have w: "dd_seen ?d = set (dedup_window ?d)"
    "dd_seen (lg_dedup ?l) = set (dedup_window (lg_dedup ?l))" by (auto simp: dedup_inv_def)
  have "card (insert (msg_ID m) (dd_seen ?d)) \<le> dd_capacity ?d"
    using Cons.prems(2) w by (elim order_trans [rotated], intro card_mono) auto
  then have seen: "dd_seen (lg_dedup ?l) = insert (msg_ID m) (dd_seen ?d)"
    using ring.run_window_room [OF d, of "[msg_ID m]"] w by simp
  then have "distinct (map msg_ID (displayed ms ?l))"
    "msg_ID ` set (displayed ms ?l) = msg_ID ` set ms - insert (msg_ID m) (dd_seen ?d)"
    using Cons.IH [OF log_Append_inv [OF Cons.prems(1)]] Cons.prems(2) by simp_all
  then show ?case by (auto simp: dedup_First_seen)
qed simp

theorem log_displays_exactly_once_witness:
  "distinct (map msg_ID (displayed [sample_msg ''1'' ''ann'', sample_msg ''2'' ''bob'',
       sample_msg ''1'' ''ann'', sample_msg ''2'' ''bob''] sample_log))"
  by (rule log_displays_exactly_once [OF sample_log_inv, THEN conjunct1])
    (simp add: sample_log_def sample_msg_def insert_commute)

end
