(* ===== verification/History.thy ===== *)
theory History
  imports ChatLog
begin

text \<open>
  \<^verbatim>\<open>src/internal/history/history.go\<close>: the client's durable message history.  The table is
  the list of its rows in \<^verbatim>\<open>seq\<close> order; stored timestamps are instants, which
  HistoryText refines to the texts of the columns.  Each statement may fail: the argument
  names the one that does.  Opening the file is in StoreOpen.
\<close>

section \<open>Operations\<close>

record history_row =
  hr_seq :: int
  hr_conversation :: string
  hr_message :: message
  hr_stored_at :: time

record history =
  hs_rows :: "history_row list"
  hs_next :: int
  hs_ttl :: duration
  hs_maxRows :: int

datatype history_stmt = HsInsert | HsExpire | HsCount | HsEvict | HsQuery

datatype history_error = HistoryTTL | HistoryCap | LocalEmpty | IDEmpty | HistoryStmt history_stmt

definition DefaultTTL :: duration where "DefaultTTL = 30 * 24 * 3600 * second"
definition DefaultMaxMessages :: int where "DefaultMaxMessages = 10000"

text \<open>Both bounds, in the code's order; an error leaves what was already deleted deleted.\<close>

definition enforceRetention ::
  "(history_stmt \<Rightarrow> bool) \<Rightarrow> time \<Rightarrow> history \<Rightarrow> (history_error, unit) result \<times> history" where
  "enforceRetention fails now h =
     (if fails HsExpire then (Err (HistoryStmt HsExpire), h)
      else let h1 = h\<lparr>hs_rows := filter (\<lambda>r. \<not> hr_stored_at r \<le> now - hs_ttl h) (hs_rows h)\<rparr>;
               total = int (length (hs_rows h1))
           in if fails HsCount then (Err (HistoryStmt HsCount), h1)
              else if total \<le> hs_maxRows h1 then (Ok (), h1)
              else if fails HsEvict then (Err (HistoryStmt HsEvict), h1)
              else (Ok (), h1\<lparr>hs_rows := drop (nat (total - hs_maxRows h1)) (hs_rows h1)\<rparr>))"

definition history_Open ::
  "(history_stmt \<Rightarrow> bool) \<Rightarrow> time \<Rightarrow> duration \<Rightarrow> int \<Rightarrow> history_row list \<Rightarrow> int \<Rightarrow> (history_error, history) result" where
  "history_Open fails now ttl maxMessages rows next =
     (if ttl \<le> 0 then Err HistoryTTL
      else if maxMessages \<le> 0 then Err HistoryCap
      else case enforceRetention fails now \<lparr>hs_rows = rows, hs_next = next, hs_ttl = ttl, hs_maxRows = maxMessages\<rparr> of
        (Inl e, h) \<Rightarrow> Err e
      | (Inr _, h) \<Rightarrow> Ok h)"

definition history_insert :: "time \<Rightarrow> string \<Rightarrow> message \<Rightarrow> history \<Rightarrow> history" where
  "history_insert now conversation msg h =
     (if msg_ID msg \<in> (msg_ID \<circ> hr_message) ` set (hs_rows h) then h
      else h\<lparr>hs_rows := hs_rows h @ [\<lparr>hr_seq = hs_next h, hr_conversation = conversation,
               hr_message = msg, hr_stored_at = now\<rparr>],
             hs_next := hs_next h + 1\<rparr>)"

definition history_Append ::
  "(history_stmt \<Rightarrow> bool) \<Rightarrow> time \<Rightarrow> string \<Rightarrow> message \<Rightarrow> history \<Rightarrow> (history_error, unit) result \<times> history" where
  "history_Append fails now local msg h =
     (if local = '''' then (Err LocalEmpty, h)
      else if msg_ID msg = '''' then (Err IDEmpty, h)
      else if fails HsInsert then (Err (HistoryStmt HsInsert), h)
      else enforceRetention fails now (history_insert now (ConversationKeyFor local msg) msg h))"

record query_options =
  qo_Conversation :: string
  qo_From :: "time option"
  qo_To :: "time option"

definition history_Query ::
  "(history_stmt \<Rightarrow> bool) \<Rightarrow> query_options \<Rightarrow> history \<Rightarrow> (history_error, history_row list) result" where
  "history_Query fails opts h =
     (if fails HsQuery then Err (HistoryStmt HsQuery)
      else Ok (filter (\<lambda>r.
            (qo_Conversation opts \<noteq> '''' \<longrightarrow> hr_conversation r = qo_Conversation opts)
          \<and> (case qo_From opts of None \<Rightarrow> True | Some f \<Rightarrow> f \<le> msg_ReceivedAt (hr_message r))
          \<and> (case qo_To opts of None \<Rightarrow> True | Some t \<Rightarrow> msg_ReceivedAt (hr_message r) \<le> t)) (hs_rows h)))"

definition history_Conversation ::
  "(history_stmt \<Rightarrow> bool) \<Rightarrow> string \<Rightarrow> history \<Rightarrow> (history_error, message list) result" where
  "history_Conversation fails key h =
     (case history_Query fails \<lparr>qo_Conversation = key, qo_From = None, qo_To = None\<rparr> h of
        Inl e \<Rightarrow> Err e
      | Inr rows \<Rightarrow> Ok (map hr_message rows))"

section \<open>Invariant and retention\<close>

definition history_inv :: "history \<Rightarrow> bool" where
  "history_inv h \<longleftrightarrow> 0 < hs_ttl h \<and> 0 < hs_maxRows h
     \<and> distinct (map (msg_ID \<circ> hr_message) (hs_rows h)) \<and> sorted_wrt (<) (map hr_seq (hs_rows h))
     \<and> (\<forall>r \<in> set (hs_rows h). hr_seq r < hs_next h)"

abbreviation no_history_faults :: "history_stmt \<Rightarrow> bool" where "no_history_faults \<equiv> \<lambda>_. False"

lemma history_insert_inv: "history_inv h \<Longrightarrow> history_inv (history_insert now key msg h)"
  by (auto simp: history_inv_def history_insert_def sorted_wrt_append)

lemma sorted_wrt_drop: "sorted_wrt P xs \<Longrightarrow> sorted_wrt P (drop n xs)"
  by (metis append_take_drop_id sorted_wrt_append)

lemma sorted_wrt_map_filter: "sorted_wrt P (map f xs) \<Longrightarrow> sorted_wrt P (map f (filter Q xs))"
  by (simp add: sorted_wrt_map sorted_wrt_filter)

lemma rows_subset_inv:
  assumes "history_inv h" "rs = filter P (hs_rows h) \<or> (\<exists>n. rs = drop n (hs_rows h))"
  shows "history_inv (h\<lparr>hs_rows := rs\<rparr>)"
  using assms by (auto simp: history_inv_def distinct_map_filter sorted_wrt_map_filter drop_map [symmetric]
      sorted_wrt_drop distinct_drop dest: in_set_dropD)

lemma enforceRetention_ok:
  assumes "0 < hs_maxRows h"
  shows "enforceRetention no_history_faults now h =
    (Ok (), h\<lparr>hs_rows := lastn (nat (hs_maxRows h)) (filter (\<lambda>r. now - hs_ttl h < hr_stored_at r) (hs_rows h))\<rparr>)"
proof -
  have "nat (int n - hs_maxRows h) = n - nat (hs_maxRows h)" for n using assms by linarith
  then have "drop (nat (int (length xs) - hs_maxRows h)) xs = lastn (nat (hs_maxRows h)) xs" for xs :: "history_row list"
    by (simp add: lastn_def)
  moreover have "lastn (nat (hs_maxRows h)) xs = xs" if "int (length xs) \<le> hs_maxRows h" for xs :: "history_row list"
    using that assms by (simp add: lastn_def)
  ultimately show ?thesis by (simp add: enforceRetention_def Let_def not_le)
qed

lemma enforceRetention_inv: "history_inv h \<Longrightarrow> history_inv (snd (enforceRetention fails now h))"
proof -
  assume inv: "history_inv h"
  let ?h = "h\<lparr>hs_rows := filter (\<lambda>r. \<not> hr_stored_at r \<le> now - hs_ttl h) (hs_rows h)\<rparr>"
  have i1: "history_inv ?h" by (rule rows_subset_inv [OF inv]) blast
  then have "history_inv (?h\<lparr>hs_rows := drop n (hs_rows ?h)\<rparr>)" for n by (rule rows_subset_inv) blast
  then show ?thesis using inv i1 by (simp add: enforceRetention_def Let_def)
qed

lemma history_Append_inv: "history_inv h \<Longrightarrow> history_inv (snd (history_Append fails now local msg h))"
  by (simp add: history_Append_def enforceRetention_inv history_insert_inv)

section \<open>Properties\<close>

text \<open>
  The history is bounded both ways and never refuses: recording a message
  keeps exactly the newest rows up to the cap among those whose age is below the
  time to live, the new one last; a message already recorded adds nothing; and
  nothing older than the time to live or beyond the cap survives a successful
  call.
\<close>

theorem history_keeps_the_newest:
  assumes "history_inv h" "local \<noteq> ''''" "msg_ID msg \<noteq> ''''"
    and "history_Append no_history_faults now local msg h = (res, h')"
  shows "res = Ok () \<and> history_inv h'
       \<and> hs_rows h' = lastn (nat (hs_maxRows h)) (filter (\<lambda>r. now - hs_ttl h < hr_stored_at r)
           (hs_rows h @ (if msg_ID msg \<in> (msg_ID \<circ> hr_message) ` set (hs_rows h) then []
              else [\<lparr>hr_seq = hs_next h, hr_conversation = ConversationKeyFor local msg,
                     hr_message = msg, hr_stored_at = now\<rparr>])))
       \<and> int (length (hs_rows h')) \<le> hs_maxRows h \<and> (\<forall>r \<in> set (hs_rows h'). now - hs_ttl h < hr_stored_at r)"
proof -
  let ?h = "history_insert now (ConversationKeyFor local msg) msg h"
  have f: "hs_maxRows ?h = hs_maxRows h" "hs_ttl ?h = hs_ttl h" by (simp_all add: history_insert_def)
  have rows: "hs_rows ?h = hs_rows h @ (if msg_ID msg \<in> (msg_ID \<circ> hr_message) ` set (hs_rows h) then []
      else [\<lparr>hr_seq = hs_next h, hr_conversation = ConversationKeyFor local msg, hr_message = msg, hr_stored_at = now\<rparr>])"
    by (simp add: history_insert_def)
  have cap: "0 < hs_maxRows h" using assms(1) by (simp add: history_inv_def)
  have h': "res = Ok ()" "h' = ?h\<lparr>hs_rows := lastn (nat (hs_maxRows h)) (filter (\<lambda>r. now - hs_ttl h < hr_stored_at r) (hs_rows ?h))\<rparr>"
    using assms(2,3,4) enforceRetention_ok [of ?h now] cap f by (simp_all add: history_Append_def)
  have "history_inv h'" using history_Append_inv [OF assms(1), of no_history_faults now local msg] assms(4) by simp
  moreover have "\<forall>r \<in> set (hs_rows h'). now - hs_ttl h < hr_stored_at r"
  proof
    fix r
    assume "r \<in> set (hs_rows h')"
    then have "r \<in> set (lastn (nat (hs_maxRows h)) (filter (\<lambda>r. now - hs_ttl h < hr_stored_at r) (hs_rows ?h)))"
      unfolding h'(2) by simp
    then have "r \<in> set (filter (\<lambda>r. now - hs_ttl h < hr_stored_at r) (hs_rows ?h))"
      by (rule subsetD [OF set_lastn])
    then show "now - hs_ttl h < hr_stored_at r" by simp
  qed
  moreover have r': "hs_rows h' = lastn (nat (hs_maxRows h)) (filter (\<lambda>r. now - hs_ttl h < hr_stored_at r) (hs_rows ?h))"
    unfolding h'(2) by simp
  moreover have "int (length (hs_rows h')) \<le> hs_maxRows h" unfolding r' using cap by simp
  ultimately show ?thesis using h'(1) unfolding rows by blast
qed

section \<open>Display and history agree\<close>

abbreviation history_run :: "string \<Rightarrow> (time \<times> message) list \<Rightarrow> history \<Rightarrow> history" where
  "history_run local tms h \<equiv> fold (\<lambda>(t, m) h. snd (history_Append no_history_faults t local m h)) tms h"

definition log_history_agree :: "chatlog \<Rightarrow> history \<Rightarrow> bool" where
  "log_history_agree l h \<longleftrightarrow> log_inv l \<and> history_inv h
     \<and> dd_seen (lg_dedup l) = (msg_ID \<circ> hr_message) ` set (hs_rows h)
     \<and> (\<forall>r \<in> set (hs_rows h). hr_conversation r = log_key l (hr_message r))
     \<and> (\<forall>k. log_Conversation k l = map hr_message (filter (\<lambda>r. hr_conversation r = k) (hs_rows h)))"

lemma seen_grows:
  assumes "log_inv l" "card (insert (msg_ID m) (dd_seen (lg_dedup l))) \<le> dd_capacity (lg_dedup l)"
  shows "dd_seen (lg_dedup (snd (log_Append m l))) = insert (msg_ID m) (dd_seen (lg_dedup l))"
proof -
  have "dedup_inv (lg_dedup l)" "dedup_inv (lg_dedup (snd (log_Append m l)))"
    using assms(1) by (simp_all add: log_inv_def dedup_First_inv)
  moreover from this have "dd_seen (lg_dedup l) = set (dedup_window (lg_dedup l))"
    "dd_seen (lg_dedup (snd (log_Append m l))) = set (dedup_window (lg_dedup (snd (log_Append m l))))"
    by (auto simp: dedup_inv_def)
  ultimately show ?thesis
    using ring.run_window_room [of "lg_dedup l" "[msg_ID m]"] assms(2) by simp
qed

lemma agree_step:
  assumes a: "log_history_agree l h" and l: "lg_local l = local" "local \<noteq> ''''" "msg_ID m \<noteq> ''''"
    and room: "length (hs_rows h) < lg_scrollback l" "int (length (hs_rows h)) < hs_maxRows h"
      "length (hs_rows h) < dd_capacity (lg_dedup l)"
    and young: "\<forall>r \<in> set (hs_rows h). t - hs_ttl h < hr_stored_at r"
  defines "h' \<equiv> snd (history_Append no_history_faults t local m h)"
  shows "log_history_agree (snd (log_Append m l)) h'"
    "hs_rows h' = hs_rows h \<or> (\<exists>r. hs_rows h' = hs_rows h @ [r] \<and> hr_stored_at r = t)"
    "hs_ttl h' = hs_ttl h" "hs_maxRows h' = hs_maxRows h"
proof -
  have inv: "log_inv l" "history_inv h" using a by (simp_all add: log_history_agree_def)
  define r where "r = \<lparr>hr_seq = hs_next h, hr_conversation = ConversationKeyFor local m, hr_message = m, hr_stored_at = t\<rparr>"
  define new where "new = (if msg_ID m \<in> (msg_ID \<circ> hr_message) ` set (hs_rows h) then [] else [r])"
  let ?h = "history_insert t (ConversationKeyFor local m) m h"
  have "0 < hs_ttl h" "0 < hs_maxRows h" using inv(2) by (simp_all add: history_inv_def)
  moreover have ins: "hs_rows ?h = hs_rows h @ new" "hs_maxRows ?h = hs_maxRows h" "hs_ttl ?h = hs_ttl h"
    by (simp_all add: history_insert_def new_def r_def)
  moreover have "filter (\<lambda>r. t - hs_ttl h < hr_stored_at r) (hs_rows h @ new) = hs_rows h @ new"
    using young \<open>0 < hs_ttl h\<close> by (auto simp: new_def r_def filter_id_conv)
  moreover have "length new \<le> 1" by (simp add: new_def)
  then have "length (hs_rows h @ new) \<le> nat (hs_maxRows h)" using room(2) unfolding length_append by linarith
  ultimately have h': "h' = ?h\<lparr>hs_rows := hs_rows h @ new\<rparr>"
    using l enforceRetention_ok [of ?h t] by (simp add: h'_def history_Append_def lastn_def)
  show "hs_ttl h' = hs_ttl h" "hs_maxRows h' = hs_maxRows h" using h' ins by simp_all
  show "hs_rows h' = hs_rows h \<or> (\<exists>r. hs_rows h' = hs_rows h @ [r] \<and> hr_stored_at r = t)"
    using h' by (simp add: new_def r_def)
  have seen: "dd_seen (lg_dedup l) = (msg_ID \<circ> hr_message) ` set (hs_rows h)"
    using a by (simp add: log_history_agree_def)
  have "card (dd_seen (lg_dedup l)) \<le> length (hs_rows h)"
    unfolding seen by (metis card_image_le card_length finite_set order_trans)
  moreover have "finite (dd_seen (lg_dedup l))" unfolding seen by simp
  ultimately have "card (insert (msg_ID m) (dd_seen (lg_dedup l))) \<le> dd_capacity (lg_dedup l)"
    using room(3) by (simp add: card_insert_if)
  note grown = seen_grows [OF inv(1) this]
  have shown: "fst (log_Append m l) \<longleftrightarrow> msg_ID m \<notin> dd_seen (lg_dedup l)"
    using inv(1) by (simp add: dedup_First_seen log_inv_def)
  have key: "ConversationKeyFor local m = log_key l m" by (simp add: log_key_def l)
  have "log_Conversation k (snd (log_Append m l)) =
      map hr_message (filter (\<lambda>r. hr_conversation r = k) (hs_rows h @ new))" for k
  proof -
    have c: "log_Conversation k l = map hr_message (filter (\<lambda>r. hr_conversation r = k) (hs_rows h))"
      using a by (simp add: log_history_agree_def)
    then have "length (log_Conversation k l) < lg_scrollback l"
      using room(1) by (metis length_filter_le length_map le_less_trans)
    then have "lastn (lg_scrollback l) (log_Conversation k l @ [m]) = log_Conversation k l @ [m]"
      by (simp add: lastn_def)
    then show ?thesis using c shown key seen by (auto simp: log_Append_Conversation new_def r_def)
  qed
  moreover have "\<forall>r \<in> set (hs_rows h @ new). hr_conversation r = log_key l (hr_message r)"
    using a key by (auto simp: log_history_agree_def new_def r_def)
  moreover have "dd_seen (lg_dedup (snd (log_Append m l))) = (msg_ID \<circ> hr_message) ` set (hs_rows h @ new)"
    using grown seen by (auto simp: new_def r_def)
  moreover have "history_inv h'" unfolding h'_def by (rule history_Append_inv [OF inv(2)])
  ultimately show "log_history_agree (snd (log_Append m l)) h'"
    using h' log_Append_inv [OF inv(1)] by (simp add: log_history_agree_def)
qed

lemma agree_run:
  assumes "log_history_agree l h" "lg_local l = local" "local \<noteq> ''''"
    and "\<forall>(t, m) \<in> set tms. msg_ID m \<noteq> ''''"
    and "length (hs_rows h) + length tms \<le> lg_scrollback l"
    and "int (length (hs_rows h) + length tms) \<le> hs_maxRows h"
    and "length (hs_rows h) + length tms \<le> dd_capacity (lg_dedup l)"
    and "\<forall>t \<in> fst ` set tms. \<forall>s \<in> hr_stored_at ` set (hs_rows h) \<union> fst ` set tms. t - hs_ttl h < s"
  shows "log_history_agree (log_run (map snd tms) l) (history_run local tms h)"
  using assms
proof (induction tms arbitrary: l h)
  case (Cons tm tms)
  obtain t m where tm: "tm = (t, m)" by (cases tm)
  let ?h = "snd (history_Append no_history_faults t local m h)" and ?l = "snd (log_Append m l)"
  have young: "\<forall>r \<in> set (hs_rows h). t - hs_ttl h < hr_stored_at r" using Cons.prems(8) tm by auto
  have "msg_ID m \<noteq> ''''" using Cons.prems(4) tm by simp
  note st = agree_step [OF Cons.prems(1-3) this _ _ _ young]
  have room: "length (hs_rows h) < lg_scrollback l" "int (length (hs_rows h)) < hs_maxRows h"
    "length (hs_rows h) < dd_capacity (lg_dedup l)" using Cons.prems(5-7) by simp_all
  have len: "length (hs_rows ?h) \<le> Suc (length (hs_rows h))" using st(2) [OF room] by auto
  have stored: "hr_stored_at ` set (hs_rows ?h) \<subseteq> insert t (hr_stored_at ` set (hs_rows h))"
    using st(2) [OF room] by auto
  have "log_history_agree (log_run (map snd tms) ?l) (history_run local tms ?h)"
  proof (rule Cons.IH)
    show "\<forall>t' \<in> fst ` set tms. \<forall>s \<in> hr_stored_at ` set (hs_rows ?h) \<union> fst ` set tms. t' - hs_ttl ?h < s"
    proof (intro ballI)
      fix t' s
      assume "t' \<in> fst ` set tms" "s \<in> hr_stored_at ` set (hs_rows ?h) \<union> fst ` set tms"
      then have "t' \<in> fst ` set (tm # tms)" "s \<in> hr_stored_at ` set (hs_rows h) \<union> fst ` set (tm # tms)"
        using stored tm by auto
      then have "t' - hs_ttl h < s" using Cons.prems(8) by blast
      then show "t' - hs_ttl ?h < s" unfolding st(3) [OF room] .
    qed
  qed (use st(1) [OF room] st(3,4) [OF room] len Cons.prems tm in auto)
  then show ?case by (simp add: tm)
qed simp

text \<open>
  C36. The screen and the durable history show the same conversation: as long as a
  run of messages fits the scrollback, the row cap and the duplicate window, and
  no two of them lie a time to live apart, what the history answers for a
  conversation after the run is exactly what the in-memory log holds for it,
  redeliveries included.
\<close>

theorem history_agrees_with_the_log:
  assumes "log_history_agree l h" "hs_rows h = []" "lg_local l = local" "local \<noteq> ''''"
    and "\<forall>(t, m) \<in> set tms. msg_ID m \<noteq> ''''"
    and "length tms \<le> lg_scrollback l" "int (length tms) \<le> hs_maxRows h"
      "length tms \<le> dd_capacity (lg_dedup l)"
    and "\<forall>t \<in> fst ` set tms. \<forall>s \<in> fst ` set tms. t - hs_ttl h < s"
    and "k \<noteq> ''''"
  shows "history_Conversation no_history_faults k (history_run local tms h)
           = Ok (log_Conversation k (log_run (map snd tms) l))"
proof -
  have "log_history_agree (log_run (map snd tms) l) (history_run local tms h)"
    by (rule agree_run) (use assms in auto)
  then show ?thesis
    using \<open>k \<noteq> ''''\<close> by (simp add: history_Conversation_def history_Query_def log_history_agree_def)
qed

definition sample_history :: history where
  "sample_history = \<lparr>hs_rows = [], hs_next = 1, hs_ttl = 100, hs_maxRows = 2\<rparr>"

lemma sample_history_inv: "history_inv sample_history"
  by (simp add: history_inv_def sample_history_def)

theorem history_keeps_the_newest_witness:
  "map (msg_ID \<circ> hr_message) (hs_rows (snd (history_Append no_history_faults 50 ''me'' (sample_msg ''3'' ''ann'')
     (sample_history\<lparr>hs_rows :=
        [\<lparr>hr_seq = -1, hr_conversation = ''dm:ann'', hr_message = sample_msg ''1'' ''ann'', hr_stored_at = 7\<rparr>,
         \<lparr>hr_seq = 0, hr_conversation = ''dm:ann'', hr_message = sample_msg ''2'' ''ann'', hr_stored_at = 8\<rparr>]\<rparr>))))
   = [''2'', ''3'']"
proof -
  let ?h = "sample_history\<lparr>hs_rows :=
        [\<lparr>hr_seq = -1, hr_conversation = ''dm:ann'', hr_message = sample_msg ''1'' ''ann'', hr_stored_at = 7\<rparr>,
         \<lparr>hr_seq = 0, hr_conversation = ''dm:ann'', hr_message = sample_msg ''2'' ''ann'', hr_stored_at = 8\<rparr>]\<rparr>"
  let ?r = "history_Append no_history_faults 50 ''me'' (sample_msg ''3'' ''ann'') ?h"
  have "history_inv ?h" by (simp add: history_inv_def sample_history_def sample_msg_def)
  from history_keeps_the_newest [OF this, of "''me''" "sample_msg ''3'' ''ann''" 50 "fst ?r" "snd ?r"]
  have "hs_rows (snd ?r) = lastn 2 (hs_rows ?h @ [\<lparr>hr_seq = 1, hr_conversation = ConversationKeyFor ''me'' (sample_msg ''3'' ''ann''),
                     hr_message = sample_msg ''3'' ''ann'', hr_stored_at = 50\<rparr>])"
    by (simp add: sample_history_def sample_msg_def)
  then show ?thesis by (simp add: lastn_def sample_history_def sample_msg_def)
qed

theorem history_agrees_with_the_log_witness:
  "history_Conversation no_history_faults ''dm:ann''
     (history_run ''me'' [(10, sample_msg ''1'' ''ann''), (11, sample_msg ''1'' ''ann'')] sample_history)
   = Ok (log_Conversation ''dm:ann'' (log_run [sample_msg ''1'' ''ann'', sample_msg ''1'' ''ann'']
        (sample_log\<lparr>lg_scrollback := 2\<rparr>)))"
proof -
  have "log_history_agree (sample_log\<lparr>lg_scrollback := 2\<rparr>) sample_history"
    using sample_log_inv sample_history_inv
    by (simp add: log_history_agree_def sample_log_def sample_history_def log_inv_def log_Conversation_def)
  from history_agrees_with_the_log [OF this, of "''me''" "[(10, sample_msg ''1'' ''ann''), (11, sample_msg ''1'' ''ann'')]" "''dm:ann''"]
  show ?thesis by (simp add: sample_log_def sample_history_def sample_msg_def)
qed

end
