(* ===== verification/Crypto.thy ===== *)
theory Crypto
  imports Prelude
begin

text \<open>
  \<^verbatim>\<open>src/internal/crypto/\<close>: the identity key and its file (\<^verbatim>\<open>keys.go\<close>), the sealed box
  (\<^verbatim>\<open>sealedbox.go\<close>) and the read-aloud fingerprint (\<^verbatim>\<open>fingerprint.go\<close>).  The
  primitives (X25519, HKDF-SHA256, XChaCha20-Poly1305, SHA-256) are third-party
  code: the record \<open>prims\<close> holds them and \<open>prims_ok\<close> states the documented
  behaviour the construction relies on.  Random bytes are an argument.
\<close>

section \<open>Primitives\<close>

record prims =
  x25519 :: "bytes \<Rightarrow> bytes \<Rightarrow> bytes option"
  basepoint :: bytes
  hkdf :: "bytes \<Rightarrow> bytes \<Rightarrow> bytes \<Rightarrow> nat \<Rightarrow> bytes"
  aead_Seal :: "bytes \<Rightarrow> bytes \<Rightarrow> bytes \<Rightarrow> bytes"
  aead_Open :: "bytes \<Rightarrow> bytes \<Rightarrow> bytes \<Rightarrow> bytes option"

definition keySize :: nat where "keySize = 32"
definition pubKeySize :: nat where "pubKeySize = 32"
definition nonceSizeX :: nat where "nonceSizeX = 24"
definition tagSize :: nat where "tagSize = 16"
definition headerSize :: nat where "headerSize = 1 + pubKeySize + nonceSizeX"
definition sealedBoxVersion :: byte where "sealedBoxVersion = 1"

definition ascii :: "string \<Rightarrow> bytes" where "ascii s = map (\<lambda>c. of_char c) s"

definition sealedBoxInfo :: bytes where "sealedBoxInfo = ascii ''walkie/sealedbox/v1''"

lemmas crypto_sizes = keySize_def pubKeySize_def nonceSizeX_def tagSize_def headerSize_def

text \<open>The documented behaviour: the two sides of the Diffie-Hellman exchange agree,
  outputs have their sizes, and authenticated decryption is the exact inverse of
  encryption.\<close>

definition prims_ok :: "prims \<Rightarrow> bool" where
  "prims_ok p \<longleftrightarrow>
     (\<forall>a b A B. x25519 p a (basepoint p) = Some A \<longrightarrow> x25519 p b (basepoint p) = Some B \<longrightarrow>
        x25519 p a B = x25519 p b A)
   \<and> (\<forall>a B s. x25519 p a B = Some s \<longrightarrow> length s = pubKeySize)
   \<and> (\<forall>s t i n. length (hkdf p s t i n) = n)
   \<and> (\<forall>k n m. length (aead_Seal p k n m) = length m + tagSize)
   \<and> (\<forall>k n m. aead_Open p k n (aead_Seal p k n m) = Some m)
   \<and> (\<forall>k n c m. aead_Open p k n c = Some m \<longrightarrow> c = aead_Seal p k n m)"

section \<open>Identity keys (keys.go)\<close>

record identity_key =
  ik_priv :: bytes
  ik_pub :: bytes

datatype crypto_error = EntropyFailed | KeyRejected | NilIdentity | TruncatedBox nat
  | UnsupportedVersion byte | BadKeySize | ErrAuthFailed | WrongSize nat | BadHeader
  | FileError string

definition newIdentity :: "prims \<Rightarrow> bytes \<Rightarrow> (crypto_error, identity_key) result" where
  "newIdentity p priv =
     (case x25519 p priv (basepoint p) of
        None \<Rightarrow> Err KeyRejected
      | Some pub \<Rightarrow> Ok \<lparr>ik_priv = priv, ik_pub = pub\<rparr>)"

definition generateIdentity :: "prims \<Rightarrow> bytes \<Rightarrow> (crypto_error, identity_key) result" where
  "generateIdentity p rnd =
     (if length rnd < keySize then Err EntropyFailed else newIdentity p (take keySize rnd))"

definition ParsePublicKey :: "bytes \<Rightarrow> (crypto_error, bytes) result" where
  "ParsePublicKey b = (if length b \<noteq> pubKeySize then Err (WrongSize (length b)) else Ok b)"

definition identityMagic :: bytes where "identityMagic = ascii ''walkie-x25519-v1'' @ [0]"

definition parseIdentityFile :: "prims \<Rightarrow> bytes \<Rightarrow> (crypto_error, identity_key) result" where
  "parseIdentityFile p data =
     (if length data \<noteq> length identityMagic + keySize then Err (WrongSize (length data))
      else if take (length identityMagic) data \<noteq> identityMagic then Err BadHeader
      else newIdentity p (drop (length identityMagic) data))"

text \<open>The part of the file system the identity lives in: the key file with its mode and
  the mode of its directory.  A system call may fail; the temporary file is
  renamed into place, so a failure leaves the old content.\<close>

record id_fs =
  fs_data :: "bytes option"
  fs_mode :: nat
  fs_dirmode :: nat

datatype syscall = SysMkdir | SysChmodDir | SysRead | SysChmod | SysCreateTemp | SysChmodTemp
  | SysWrite | SysSync | SysCloseFile | SysRename

definition fileMode :: nat where "fileMode = 384"
definition dirMode :: nat where "dirMode = 448"

definition writeIdentityFile ::
  "(syscall \<Rightarrow> bool) \<Rightarrow> identity_key \<Rightarrow> id_fs \<Rightarrow> (crypto_error, unit) result \<times> id_fs" where
  "writeIdentityFile fails k fs =
     (if fails SysCreateTemp then (Err (FileError ''create temp''), fs)
      else if fails SysChmodTemp then (Err (FileError ''chmod temp''), fs)
      else if fails SysWrite then (Err (FileError ''write''), fs)
      else if fails SysSync then (Err (FileError ''sync''), fs)
      else if fails SysCloseFile then (Err (FileError ''close''), fs)
      else if fails SysRename then (Err (FileError ''rename''), fs)
      else (Ok (), fs\<lparr>fs_data := Some (identityMagic @ ik_priv k), fs_mode := fileMode\<rparr>))"

definition LoadOrCreateIdentity ::
  "prims \<Rightarrow> (syscall \<Rightarrow> bool) \<Rightarrow> bytes \<Rightarrow> id_fs \<Rightarrow> (crypto_error, identity_key) result \<times> id_fs" where
  "LoadOrCreateIdentity p fails rnd fs =
     (if fails SysMkdir then (Err (FileError ''mkdir''), fs)
      else if fails SysChmodDir then (Err (FileError ''chmod dir''), fs)
      else let fs1 = fs\<lparr>fs_dirmode := dirMode\<rparr> in
        if fails SysRead then (Err (FileError ''read''), fs1)
        else case fs_data fs1 of
          Some data \<Rightarrow>
            (case parseIdentityFile p data of
               Inl e \<Rightarrow> (Err e, fs1)
             | Inr k \<Rightarrow>
                 (if fails SysChmod then (Err (FileError ''chmod''), fs1)
                  else (Ok k, fs1\<lparr>fs_mode := fileMode\<rparr>)))
        | None \<Rightarrow>
            (case generateIdentity p rnd of
               Inl e \<Rightarrow> (Err e, fs1)
             | Inr k \<Rightarrow>
                 (case writeIdentityFile fails k fs1 of
                    (Inl e, fs2) \<Rightarrow> (Err e, fs2)
                  | (Inr _, fs2) \<Rightarrow> (Ok k, fs2))))"

section \<open>Sealed boxes (sealedbox.go)\<close>

definition deriveSealedBoxKey :: "prims \<Rightarrow> bytes \<Rightarrow> bytes \<Rightarrow> bytes \<Rightarrow> bytes" where
  "deriveSealedBoxKey p shared ephPub recipientPub =
     hkdf p shared (ephPub @ recipientPub) sealedBoxInfo keySize"

definition sealWithRand :: "prims \<Rightarrow> bytes \<Rightarrow> bytes \<Rightarrow> bytes \<Rightarrow> (crypto_error, bytes) result" where
  "sealWithRand p rnd recipient plaintext =
     (if length rnd < keySize then Err EntropyFailed
      else let eph = take keySize rnd in
        case x25519 p eph (basepoint p) of None \<Rightarrow> Err KeyRejected | Some ephPub \<Rightarrow>
        (case x25519 p eph recipient of None \<Rightarrow> Err KeyRejected | Some shared \<Rightarrow>
          (let key = deriveSealedBoxKey p shared ephPub recipient in
            if length key \<noteq> keySize then Err BadKeySize
            else if length (drop keySize rnd) < nonceSizeX then Err EntropyFailed
            else let nonce = take nonceSizeX (drop keySize rnd)
                 in Ok (sealedBoxVersion # ephPub @ nonce @ aead_Seal p key nonce plaintext))))"

definition Open :: "prims \<Rightarrow> identity_key option \<Rightarrow> bytes \<Rightarrow> (crypto_error, bytes) result" where
  "Open p identity sealed =
     (case identity of None \<Rightarrow> Err NilIdentity | Some ident \<Rightarrow>
       (if length sealed < headerSize + tagSize then Err (TruncatedBox (length sealed))
        else if hd sealed \<noteq> sealedBoxVersion then Err (UnsupportedVersion (hd sealed))
        else let ephPub = take pubKeySize (drop 1 sealed);
                 nonce = take nonceSizeX (drop (1 + pubKeySize) sealed);
                 body = drop headerSize sealed in
          case x25519 p (ik_priv ident) ephPub of None \<Rightarrow> Err KeyRejected | Some shared \<Rightarrow>
            (let key = deriveSealedBoxKey p shared ephPub (ik_pub ident) in
              if length key \<noteq> keySize then Err BadKeySize
              else case aead_Open p key nonce body of
                     None \<Rightarrow> Err ErrAuthFailed
                   | Some pt \<Rightarrow> Ok pt)))"

section \<open>Fingerprint (fingerprint.go)\<close>

definition be_value :: "bytes \<Rightarrow> nat" where
  "be_value bs = foldl (\<lambda>a b. a * 256 + unat b) 0 bs"

fun groups4 :: "string \<Rightarrow> string list" where
  "groups4 [] = []"
| "groups4 (c # cs) = take 4 (c # cs) # groups4 (drop 3 cs)"

fun join :: "string \<Rightarrow> string list \<Rightarrow> string" where
  "join sep [] = []"
| "join sep [x] = x"
| "join sep (x # y # ys) = x @ sep @ join sep (y # ys)"

definition Fingerprint :: "(bytes \<Rightarrow> bytes) \<Rightarrow> bytes \<Rightarrow> string" where
  "Fingerprint sha256 pub =
     (let s = decimal (be_value (take 10 (sha256 pub)));
          s = (if length s > 20 then take 20 s else s);
          s = (if length s < 20 then replicate (20 - length s) CHR ''0'' @ s else s)
      in join '' '' (groups4 s))"

section \<open>Properties\<close>

lemma Open_layout:
  assumes "length e = pubKeySize" "length n = nonceSizeX" "tagSize \<le> length body"
  shows "Open p (Some ident) (sealedBoxVersion # e @ n @ body) =
     (case x25519 p (ik_priv ident) e of None \<Rightarrow> Err KeyRejected | Some shared \<Rightarrow>
        (let key = deriveSealedBoxKey p shared e (ik_pub ident) in
           if length key \<noteq> keySize then Err BadKeySize
           else case aead_Open p key n body of None \<Rightarrow> Err ErrAuthFailed | Some pt \<Rightarrow> Ok pt))"
  using assms by (simp add: Open_def Let_def crypto_sizes)

lemma sealWithRand_box:
  assumes "prims_ok p" "sealWithRand p rnd recipient plaintext = Ok box"
  obtains eph ephPub shared nonce where
    "x25519 p eph (basepoint p) = Some ephPub" "x25519 p eph recipient = Some shared"
    "length ephPub = pubKeySize" "length nonce = nonceSizeX"
    "box = sealedBoxVersion # ephPub @ nonce @ aead_Seal p (deriveSealedBoxKey p shared ephPub recipient) nonce plaintext"
proof -
  obtain ephPub shared where e: "x25519 p (take keySize rnd) (basepoint p) = Some ephPub"
    "x25519 p (take keySize rnd) recipient = Some shared"
    and "length (take nonceSizeX (drop keySize rnd)) = nonceSizeX"
    and "box = sealedBoxVersion # ephPub @ take nonceSizeX (drop keySize rnd)
      @ aead_Seal p (deriveSealedBoxKey p shared ephPub recipient) (take nonceSizeX (drop keySize rnd)) plaintext"
    using assms(2) unfolding sealWithRand_def Let_def by (auto split: if_splits option.splits)
  moreover have "length ephPub = pubKeySize" using assms(1) e(1) unfolding prims_ok_def by blast
  ultimately show ?thesis using that by blast
qed

lemma sealed_box_opens:
  assumes ok: "prims_ok p" and ident: "newIdentity p priv = Ok ident"
    and sealed: "sealWithRand p rnd (ik_pub ident) plaintext = Ok box"
  shows "Open p (Some ident) box = Ok plaintext"
proof -
  have id: "x25519 p priv (basepoint p) = Some (ik_pub ident)" "ik_priv ident = priv"
    using ident by (auto simp: newIdentity_def split: option.splits)
  obtain eph ephPub shared nonce where e: "x25519 p eph (basepoint p) = Some ephPub"
    "x25519 p eph (ik_pub ident) = Some shared" "length ephPub = pubKeySize" "length nonce = nonceSizeX"
    and box: "box = sealedBoxVersion # ephPub @ nonce
      @ aead_Seal p (deriveSealedBoxKey p shared ephPub (ik_pub ident)) nonce plaintext"
    by (rule sealWithRand_box [OF ok sealed])
  have dh: "x25519 p priv ephPub = Some shared" using ok id(1) e(1,2) unfolding prims_ok_def by metis
  have "length (deriveSealedBoxKey p shared ephPub (ik_pub ident)) = keySize"
    "length (aead_Seal p k nonce plaintext) = length plaintext + tagSize"
    "aead_Open p k nonce (aead_Seal p k nonce plaintext) = Some plaintext" for k
    using ok by (simp_all add: prims_ok_def deriveSealedBoxKey_def)
  then show ?thesis using dh e(3,4) id(2) by (simp add: box Open_layout Let_def)
qed

text \<open>
  C13. Sealed-box round trip: a box sealed to a device's public key opens under that
  device's identity to exactly the plaintext, and has the documented layout.
\<close>

theorem sealed_box_roundtrip:
  assumes "prims_ok p" "newIdentity p priv = Ok ident"
    and "sealWithRand p rnd (ik_pub ident) plaintext = Ok box"
  shows "Open p (Some ident) box = Ok plaintext
       \<and> length box = headerSize + length plaintext + tagSize \<and> hd box = sealedBoxVersion"
proof -
  have "length (aead_Seal p k n plaintext) = length plaintext + tagSize" for k n
    using assms(1) by (simp add: prims_ok_def)
  moreover obtain eph ephPub shared nonce where "length ephPub = pubKeySize" "length nonce = nonceSizeX"
    "box = sealedBoxVersion # ephPub @ nonce
      @ aead_Seal p (deriveSealedBoxKey p shared ephPub (ik_pub ident)) nonce plaintext"
    by (rule sealWithRand_box [OF assms(1,3)])
  ultimately show ?thesis using sealed_box_opens [OF assms] by (simp add: headerSize_def)
qed

text \<open>A concrete instance of the primitives, for evaluation.\<close>

definition toy_prims :: prims where
  "toy_prims = \<lparr>x25519 = (\<lambda>a B. Some (map (\<lambda>i. (if i < length a then a ! i else 0)
         + (if i < length B then B ! i else 0)) [0..<32])),
     basepoint = [], hkdf = (\<lambda>s t i n. replicate n 0),
     aead_Seal = (\<lambda>k n m. m @ replicate 16 0),
     aead_Open = (\<lambda>k n c. if 16 \<le> length c \<and> drop (length c - 16) c = replicate 16 0
                          then Some (take (length c - 16) c) else None)\<rparr>"

lemma toy_prims_ok: "prims_ok toy_prims"
proof -
  have "map (\<lambda>i. (if i < length a then a ! i else 0) + (if i < length B then B ! i else 0)) [0..<32]
      = map (\<lambda>i. (if i < length b then b ! i else 0) + (if i < length A then A ! i else 0)) [0..<32]"
    if "A = map (\<lambda>i. (if i < length a then a ! i else 0) + 0) [0..<32]"
      "B = map (\<lambda>i. (if i < length b then b ! i else 0) + 0) [0..<32]" for a b A B :: bytes
    using that by (intro map_cong) (auto simp: add.commute)
  moreover have "c = take (length c - 16) c @ replicate 16 0"
    if "16 \<le> length c" "drop (length c - 16) c = replicate 16 0" for c :: bytes
    using that by (metis append_take_drop_id)
  ultimately show ?thesis
    by (auto simp: prims_ok_def toy_prims_def crypto_sizes split: if_splits)
qed

definition toy_identity :: identity_key where
  "toy_identity = \<lparr>ik_priv = replicate 32 7, ik_pub = replicate 32 7\<rparr>"

lemma toy_newIdentity: "newIdentity toy_prims (replicate 32 7) = Ok toy_identity"
proof -
  have "map (\<lambda>i. if i < 32 then replicate 32 (7 :: byte) ! i else 0) [0..<32] = replicate 32 7"
    by (rule nth_equalityI) simp_all
  then show ?thesis by (simp add: newIdentity_def toy_prims_def toy_identity_def)
qed

lemma toy_seal:
  "\<exists>box. sealWithRand toy_prims (replicate 56 1) (ik_pub toy_identity) plaintext = Ok box"
  by (simp add: sealWithRand_def toy_prims_def crypto_sizes Let_def deriveSealedBoxKey_def)

theorem sealed_box_roundtrip_witness:
  "\<exists>box. sealWithRand toy_prims (replicate 56 1) (ik_pub toy_identity) [5, 6] = Ok box
     \<and> Open toy_prims (Some toy_identity) box = Ok [5, 6]"
  using toy_seal sealed_box_roundtrip [OF toy_prims_ok toy_newIdentity] by blast

text \<open>
  Rejection is whole-box: bytes that open to a plaintext are exactly the box with
  that version byte, ephemeral key and nonce whose body is the authenticated
  encryption of that plaintext under the derived key.  No other bytes with the
  same header open to it, so a changed body is rejected or is itself a box of
  another plaintext.
\<close>

theorem open_accepts_only_boxes:
  assumes "prims_ok p" "Open p (Some ident) sealed = Ok plaintext"
  shows "\<exists>ephPub nonce shared.
     sealed = sealedBoxVersion # ephPub @ nonce
       @ aead_Seal p (deriveSealedBoxKey p shared ephPub (ik_pub ident)) nonce plaintext
     \<and> length ephPub = pubKeySize \<and> length nonce = nonceSizeX
     \<and> x25519 p (ik_priv ident) ephPub = Some shared"
proof -
  let ?e = "take pubKeySize (drop 1 sealed)"
  let ?n = "take nonceSizeX (drop (1 + pubKeySize) sealed)"
  obtain shared where len: "headerSize + tagSize \<le> length sealed" and h: "hd sealed = sealedBoxVersion"
    and s: "x25519 p (ik_priv ident) ?e = Some shared"
    and o: "aead_Open p (deriveSealedBoxKey p shared ?e (ik_pub ident)) ?n (drop headerSize sealed) = Some plaintext"
    using assms(2) by (auto simp: Open_def Let_def split: if_splits option.splits)
  have body: "drop headerSize sealed = aead_Seal p (deriveSealedBoxKey p shared ?e (ik_pub ident)) ?n plaintext"
    using assms(1) o unfolding prims_ok_def by blast
  have "sealed \<noteq> []" using len by (auto simp: crypto_sizes)
  then have "sealed = hd sealed # drop 1 sealed" by (simp add: drop_Suc)
  also have "drop 1 sealed = ?e @ drop pubKeySize (drop 1 sealed)"
    by (rule append_take_drop_id [symmetric])
  also have "drop pubKeySize (drop 1 sealed) = drop (1 + pubKeySize) sealed"
    by (simp add: add.commute)
  also have "drop (1 + pubKeySize) sealed = ?n @ drop nonceSizeX (drop (1 + pubKeySize) sealed)"
    by (rule append_take_drop_id [symmetric])
  also have "drop nonceSizeX (drop (1 + pubKeySize) sealed) = drop headerSize sealed"
    by (simp add: headerSize_def add.commute add.left_commute)
  finally have "sealed = sealedBoxVersion # ?e @ ?n @ drop headerSize sealed" using h by simp
  then show ?thesis
    using body s len by (intro exI [of _ ?e] exI [of _ ?n] exI [of _ shared]) (auto simp: crypto_sizes)
qed

theorem open_accepts_only_boxes_witness:
  "\<exists>box ephPub nonce shared. Open toy_prims (Some toy_identity) box = Ok [5, 6] \<and>
     box = sealedBoxVersion # ephPub @ nonce
       @ aead_Seal toy_prims (deriveSealedBoxKey toy_prims shared ephPub (ik_pub toy_identity)) nonce [5, 6]"
proof -
  let ?body = "[5, 6] @ replicate 16 0"
  obtain s where "x25519 toy_prims (ik_priv toy_identity) (replicate 32 0) = Some s"
    by (simp add: toy_prims_def)
  moreover have "length (hkdf toy_prims a b c n) = n" "aead_Open toy_prims k m ?body = Some [5, 6]"
    for a b c n k m by (simp_all add: toy_prims_def)
  ultimately have o: "Open toy_prims (Some toy_identity)
      (sealedBoxVersion # replicate 32 0 @ replicate 24 0 @ ?body) = Ok [5, 6]"
    by (subst Open_layout) (simp_all add: Let_def deriveSealedBoxKey_def pubKeySize_def nonceSizeX_def tagSize_def)
  from open_accepts_only_boxes [OF toy_prims_ok o] o show ?thesis by metis
qed

text \<open>
  The identity is stable: once a run has returned an identity, every later run
  on the file it left returns the same one, whatever its random bytes, with the
  key file at 0600 in a directory at 0700; and a run that fails leaves an
  existing key file's content untouched.
\<close>

theorem identity_is_stable:
  assumes "LoadOrCreateIdentity p fails rnd fs = (res, fs1)"
  shows "(\<forall>k. res = Ok k \<longrightarrow> LoadOrCreateIdentity p (\<lambda>_. False) rnd2 fs1 = (Ok k, fs1)
            \<and> fs_mode fs1 = fileMode \<and> fs_dirmode fs1 = dirMode)
       \<and> (fs_data fs \<noteq> None \<longrightarrow> fs_data fs1 = fs_data fs)"
proof -
  have gen: "parseIdentityFile p (identityMagic @ ik_priv k) = Ok k" if "generateIdentity p rnd = Ok k" for k
    using that by (auto simp: generateIdentity_def parseIdentityFile_def newIdentity_def
        split: if_splits option.splits)
  show ?thesis
    using assms gen
    by (auto simp: LoadOrCreateIdentity_def writeIdentityFile_def Let_def
        split: if_splits option.splits sum.splits)
qed

definition empty_fs :: id_fs where
  "empty_fs = \<lparr>fs_data = None, fs_mode = 0, fs_dirmode = 493\<rparr>"

theorem identity_is_stable_witness:
  "LoadOrCreateIdentity toy_prims (\<lambda>_. False) []
     \<lparr>fs_data = Some (identityMagic @ replicate 32 7), fs_mode = fileMode, fs_dirmode = dirMode\<rparr>
   = (Ok toy_identity, \<lparr>fs_data = Some (identityMagic @ replicate 32 7), fs_mode = fileMode,
        fs_dirmode = dirMode\<rparr>)"
proof -
  have "generateIdentity toy_prims (replicate 32 7) = Ok toy_identity"
    using toy_newIdentity by (simp add: generateIdentity_def keySize_def)
  then have "LoadOrCreateIdentity toy_prims (\<lambda>_. False) (replicate 32 7) empty_fs = (Ok toy_identity,
      \<lparr>fs_data = Some (identityMagic @ replicate 32 7), fs_mode = fileMode, fs_dirmode = dirMode\<rparr>)"
    by (simp add: LoadOrCreateIdentity_def writeIdentityFile_def empty_fs_def toy_identity_def)
  from identity_is_stable [OF this, of "[]"] show ?thesis by simp
qed

section \<open>The shape of a fingerprint\<close>

definition is_digit :: "char \<Rightarrow> bool" where
  "is_digit c \<longleftrightarrow> (48 :: nat) \<le> of_char c \<and> (of_char c :: nat) \<le> 57"

lemma decimal_digits: "list_all is_digit (decimal n) \<and> decimal n \<noteq> []"
proof (induction n rule: less_induct)
  case (less n)
  have d: "m < 10 \<Longrightarrow> is_digit (digit_char m)" for m
    by (simp add: is_digit_def digit_char_def)
  show ?case
  proof (cases "n < 10")
    case False
    then have "n div 10 < n" by simp
    from less.IH [OF this] show ?thesis
      using False d [of "n mod 10"] by (simp add: decimal.simps [of n])
  qed (use d in \<open>simp add: decimal.simps [of n]\<close>)
qed

lemma groups4_step: "length x = 4 \<Longrightarrow> groups4 (x @ rest) = x # groups4 rest"
  by (cases x) simp_all

text \<open>
  A fingerprint is always five groups of four decimal digits separated by single
  spaces, whatever the hash.
\<close>

theorem fingerprint_shape:
  "\<exists>a b c d e. Fingerprint sha256 pub = a @ '' '' @ b @ '' '' @ c @ '' '' @ d @ '' '' @ e
     \<and> (\<forall>g \<in> {a, b, c, d, e}. length g = 4 \<and> list_all is_digit g)"
proof -
  define s0 where "s0 = decimal (be_value (take 10 (sha256 pub)))"
  define s1 where "s1 = (if length s0 > 20 then take 20 s0 else s0)"
  define s where "s = (if length s1 < 20 then replicate (20 - length s1) CHR ''0'' @ s1 else s1)"
  have "list_all is_digit s0" using decimal_digits by (simp add: s0_def)
  then have "list_all is_digit s1" by (auto simp: s1_def list_all_iff dest: in_set_takeD)
  then have dig: "list_all is_digit s" by (auto simp: s_def list_all_iff is_digit_def)
  have len: "length s = 20" by (auto simp: s_def s1_def)
  define g where "g i = take 4 (drop (4 * i) s)" for i :: nat
  have gl: "length (g i) = 4" if "i < 5" for i using that len by (simp add: g_def)
  have gd: "list_all is_digit (g i)" for i
    using dig by (auto simp: g_def list_all_iff dest: in_set_takeD in_set_dropD)
  have step: "drop (4 * i) s = g i @ drop (4 * Suc i) s" for i
  proof -
    have "drop (4 * Suc i) s = drop 4 (drop (4 * i) s)" by (simp add: add.commute)
    then show ?thesis by (simp only: g_def append_take_drop_id)
  qed
  have "s = g 0 @ g 1 @ g 2 @ g 3 @ g 4"
    using step [of 0] step [of 1] step [of 2] step [of 3] step [of 4] len by (simp add: numeral_eq_Suc)
  then have "groups4 s = [g 0, g 1, g 2, g 3, g 4]"
    using gl groups4_step [of "g 4" "[]"] by (simp add: groups4_step)
  moreover have "Fingerprint sha256 pub = join '' '' (groups4 s)"
    unfolding Fingerprint_def Let_def s_def s1_def s0_def by simp
  ultimately show ?thesis
    using gl gd by (intro exI [of _ "g 0"] exI [of _ "g 1"] exI [of _ "g 2"] exI [of _ "g 3"] exI [of _ "g 4"]) simp
qed

theorem fingerprint_shape_witness:
  "\<exists>a b c d e. Fingerprint (\<lambda>_. [1, 2, 3]) [] = a @ '' '' @ b @ '' '' @ c @ '' '' @ d @ '' '' @ e
     \<and> (\<forall>g \<in> {a, b, c, d, e}. length g = 4 \<and> list_all is_digit g)"
  by (rule fingerprint_shape)

end
