(* ===== verification/Hub.thy ===== *)
theory Hub
  imports ChatLog Crypto Wire
begin

text \<open>
  \<^verbatim>\<open>src/internal/messagehub/hub.go\<close>: the client's messaging seam between the wire and the
  conversation log.  \<^verbatim>\<open>message.NewID\<close> and \<^verbatim>\<open>proto.Unmarshal\<close> are arguments; the log
  lines of the loud drops are kept in \<open>hb_logged\<close>, with the fields they carry.
\<close>

section \<open>Operations\<close>

datatype hub_event = NoIdentityKey u64 | Unreadable u64 crypto_error | Undecodable u64 | LocalDuplicate string

record hub =
  hb_local :: string
  hb_log :: chatlog
  hb_identity :: "identity_key option"
  hb_logged :: "hub_event list"

datatype hub_error = NoRecipient | BadBody body_error

definition zero_message :: message where
  "zero_message = \<lparr>msg_ID = '''', msg_Sender = '''', msg_Recipient = '''', msg_Body = '''',
     msg_SentAt = zero_time, msg_ReceivedAt = zero_time\<rparr>"

definition hub_New :: "string \<Rightarrow> (panic, hub) result" where
  "hub_New local =
     (case NewLog local 0 0 of
        Inl p \<Rightarrow> Err p
      | Inr l \<Rightarrow> Ok \<lparr>hb_local = local, hb_log = l, hb_identity = None, hb_logged = []\<rparr>)"

definition UseIdentity :: "identity_key option \<Rightarrow> hub \<Rightarrow> (panic, hub) result" where
  "UseIdentity key h =
     (case key of
        None \<Rightarrow> Err (Panic ''messagehub: UseIdentity: identity must not be nil'')
      | Some k \<Rightarrow> Ok (h\<lparr>hb_identity := Some k\<rparr>))"

definition hub_log_event :: "hub_event \<Rightarrow> hub \<Rightarrow> hub" where
  "hub_log_event e h = h\<lparr>hb_logged := hb_logged h @ [e]\<rparr>"

definition fileLocal :: "message \<Rightarrow> hub \<Rightarrow> hub" where
  "fileLocal msg h =
     (case log_Append msg (hb_log h) of
        (True, l) \<Rightarrow> h\<lparr>hb_log := l\<rparr>
      | (False, l) \<Rightarrow> hub_log_event (LocalDuplicate (msg_ID msg)) (h\<lparr>hb_log := l\<rparr>))"

text \<open>\<open>ident\<close> is what \<^verbatim>\<open>message.NewID(now)\<close> drew.\<close>

definition SendDirect :: "string \<Rightarrow> time \<Rightarrow> string \<Rightarrow> string \<Rightarrow> hub \<Rightarrow> (hub_error, envelope) result \<times> hub" where
  "SendDirect ident now recipient body h =
     (if recipient = '''' then (Err NoRecipient, h)
      else case ValidateBody body of
        Inl e \<Rightarrow> (Err (BadBody e), h)
      | Inr _ \<Rightarrow>
          (Ok \<lparr>env_message_id = ident, env_sent_at = Some now, env_position = 0, env_received_at = None,
               env_payload = Some (DirectMessage recipient body '''')\<rparr>,
           fileLocal \<lparr>msg_ID = ident, msg_Sender = hb_local h, msg_Recipient = recipient, msg_Body = body,
             msg_SentAt = now, msg_ReceivedAt = zero_time\<rparr> h))"

definition SendBroadcast :: "string \<Rightarrow> time \<Rightarrow> string \<Rightarrow> hub \<Rightarrow> (hub_error, envelope) result \<times> hub" where
  "SendBroadcast ident now body h =
     (case ValidateBody body of
        Inl e \<Rightarrow> (Err (BadBody e), h)
      | Inr _ \<Rightarrow>
          (Ok \<lparr>env_message_id = ident, env_sent_at = Some now, env_position = 0, env_received_at = None,
               env_payload = Some (BroadcastMessage body '''')\<rparr>,
           fileLocal \<lparr>msg_ID = ident, msg_Sender = hb_local h, msg_Recipient = '''', msg_Body = body,
             msg_SentAt = now, msg_ReceivedAt = zero_time\<rparr> h))"

definition stampOrZero :: "time option \<Rightarrow> time" where
  "stampOrZero ts = (case ts of None \<Rightarrow> zero_time | Some t \<Rightarrow> t)"

text \<open>The message an envelope carries, for the two text payloads.\<close>

definition text_message :: "envelope \<Rightarrow> message option" where
  "text_message env =
     (case env_payload env of
        Some (DirectMessage recipient body sender) \<Rightarrow>
          Some \<lparr>msg_ID = env_message_id env, msg_Sender = sender, msg_Recipient = recipient, msg_Body = body,
            msg_SentAt = stampOrZero (env_sent_at env), msg_ReceivedAt = stampOrZero (env_received_at env)\<rparr>
      | Some (BroadcastMessage body sender) \<Rightarrow>
          Some \<lparr>msg_ID = env_message_id env, msg_Sender = sender, msg_Recipient = '''', msg_Body = body,
            msg_SentAt = stampOrZero (env_sent_at env), msg_ReceivedAt = stampOrZero (env_received_at env)\<rparr>
      | _ \<Rightarrow> None)"

definition applyText :: "envelope \<Rightarrow> hub \<Rightarrow> (message \<times> bool) \<times> hub" where
  "applyText env h =
     (case text_message env of
        None \<Rightarrow> ((zero_message, False), h)
      | Some msg \<Rightarrow> (case log_Append msg (hb_log h) of (new, l) \<Rightarrow> ((msg, new), h\<lparr>hb_log := l\<rparr>)))"

definition applySealed ::
  "prims \<Rightarrow> (bytes \<Rightarrow> envelope option) \<Rightarrow> u64 \<Rightarrow> bytes \<Rightarrow> hub \<Rightarrow> (message \<times> bool) \<times> hub" where
  "applySealed p unmarshal position ciphertext h =
     (if hb_identity h = None then ((zero_message, False), hub_log_event (NoIdentityKey position) h)
      else case Open p (hb_identity h) ciphertext of
        Inl e \<Rightarrow> ((zero_message, False), hub_log_event (Unreadable position e) h)
      | Inr opened \<Rightarrow>
          (case unmarshal opened of
             None \<Rightarrow> ((zero_message, False), hub_log_event (Undecodable position) h)
           | Some inner \<Rightarrow> applyText inner h))"

definition hub_Apply ::
  "prims \<Rightarrow> (bytes \<Rightarrow> envelope option) \<Rightarrow> envelope option \<Rightarrow> hub \<Rightarrow> (message \<times> bool) \<times> hub" where
  "hub_Apply p unmarshal env h =
     (case env of
        None \<Rightarrow> ((zero_message, False), h)
      | Some e \<Rightarrow> (case env_payload e of
            Some (SealedDelivery ciphertext) \<Rightarrow> applySealed p unmarshal (env_position e) ciphertext h
          | _ \<Rightarrow> applyText e h))"

definition hub_Conversation :: "string \<Rightarrow> hub \<Rightarrow> message list" where
  "hub_Conversation key h = log_Conversation key (hb_log h)"

definition hub_Conversations :: "hub \<Rightarrow> string list" where
  "hub_Conversations h = log_Conversations (hb_log h)"

section \<open>Invariant\<close>

definition hub_inv :: "hub \<Rightarrow> bool" where
  "hub_inv h \<longleftrightarrow> log_inv (hb_log h) \<and> lg_local (hb_log h) = hb_local h"

lemma hub_New_ok:
  obtains h where "hub_New local = Ok h" "hub_inv h" "hb_local h = local" "hb_identity h = None" "hb_logged h = []"
    "dd_seen (lg_dedup (hb_log h)) = {}"
  by (simp add: hub_New_def NewLog_def NewDedup_def DefaultDedupWindow_def DefaultScrollback_def hub_inv_def
      log_inv_def dedup_inv_def log_Conversation_def)

lemma fileLocal_simps [simp]:
  "hb_log (fileLocal m h) = snd (log_Append m (hb_log h))" "hb_local (fileLocal m h) = hb_local h"
  "hb_identity (fileLocal m h) = hb_identity h"
  by (auto simp: fileLocal_def hub_log_event_def split: prod.splits bool.splits)

lemma applyText_log:
  "hb_log (snd (applyText env h)) = (case text_message env of None \<Rightarrow> hb_log h | Some m \<Rightarrow> snd (log_Append m (hb_log h)))"
  "hb_local (snd (applyText env h)) = hb_local h" "hb_identity (snd (applyText env h)) = hb_identity h"
  "hb_logged (snd (applyText env h)) = hb_logged h"
  by (auto simp: applyText_def split: option.splits prod.splits)

lemma applyText_inv: "hub_inv h \<Longrightarrow> hub_inv (snd (applyText env h))"
  by (auto simp: hub_inv_def applyText_log log_Append_inv split: option.splits)

lemma hub_Apply_inv: "hub_inv h \<Longrightarrow> hub_inv (snd (hub_Apply p unmarshal env h))"
  using applyText_inv by (auto simp: hub_Apply_def applySealed_def hub_inv_def hub_log_event_def
      split: option.splits payload.splits sum.splits)

lemma hub_Apply_frame [simp]:
  "hb_local (snd (hub_Apply p unmarshal env h)) = hb_local h"
  "hb_identity (snd (hub_Apply p unmarshal env h)) = hb_identity h"
  by (auto simp: hub_Apply_def applySealed_def hub_log_event_def applyText_log split: option.splits payload.splits sum.splits)

lemma Send_inv:
  assumes "hub_inv h"
  shows "hub_inv (snd (SendDirect ident now rcpt body h))" "hub_inv (snd (SendBroadcast ident now body h))"
  using assms by (simp_all add: hub_inv_def SendDirect_def SendBroadcast_def log_Append_inv split: sum.split)

section \<open>Properties\<close>

text \<open>
  C10. Text that travelled sealed is filed exactly as if it had arrived live:
  for a text envelope encoded, sealed to this device's key and redelivered under
  any queue position, the hub's answer and its whole state afterwards are those
  of the live envelope itself; so the two ingest paths cannot drift apart in
  what they file or how they drop duplicates.
\<close>

theorem sealed_delivery_files_as_live:
  assumes "prims_ok p" "newIdentity p priv = Ok ident" "hb_identity h = Some ident"
    and "sealWithRand p rnd (ik_pub ident) plaintext = Ok box" "unmarshal plaintext = Some env"
    and "text_message env = Some m" "env_payload outer = Some (SealedDelivery box)"
  shows "hub_Apply p unmarshal (Some outer) h = hub_Apply p unmarshal (Some env) h"
proof -
  have "hub_Apply p unmarshal (Some outer) h = applyText env h"
    using sealed_box_opens [OF assms(1,2,4)] assms(3,5,7) by (simp add: hub_Apply_def applySealed_def)
  moreover have "\<nexists>c. env_payload env = Some (SealedDelivery c)" using assms(6) by (auto simp: text_message_def)
  ultimately show ?thesis by (auto simp: hub_Apply_def split: option.split payload.split)
qed

text \<open>
  A sealed delivery is filed whole or dropped whole: whatever the bytes of
  the frame, either they open and decode and the inner envelope takes the live
  path, or nothing is shown, no conversation changes, the duplicate window is
  untouched (so a later readable copy still displays), and exactly one event is
  logged, naming the position.
\<close>

theorem sealed_delivery_is_whole_or_nothing:
  assumes "env_payload outer = Some (SealedDelivery box)"
    and "hub_Apply p unmarshal (Some outer) h = ((m, shown), h')"
  shows "(\<exists>plain inner. Open p (hb_identity h) box = Ok plain \<and> unmarshal plain = Some inner
             \<and> ((m, shown), h') = applyText inner h)
       \<or> (\<not> shown \<and> m = zero_message \<and> hb_log h' = hb_log h
             \<and> (\<forall>k. hub_Conversation k h' = hub_Conversation k h)
             \<and> (\<exists>e. hb_logged h' = hb_logged h @ [e]
                  \<and> e \<in> {NoIdentityKey (env_position outer), Undecodable (env_position outer)}
                       \<union> range (Unreadable (env_position outer))))"
  using assms by (cases "hb_identity h")
    (auto simp: hub_Apply_def applySealed_def hub_log_event_def hub_Conversation_def split: sum.splits option.splits)

definition sample_hub :: hub where
  "sample_hub = \<lparr>hb_local = ''me'', hb_log = sample_log, hb_identity = Some toy_identity, hb_logged = []\<rparr>"

lemma sample_hub_inv: "hub_inv sample_hub"
  using sample_log_inv by (simp add: hub_inv_def sample_hub_def sample_log_def)

theorem sealed_delivery_files_as_live_witness:
  "\<exists>box. hub_Apply toy_prims draft_unmarshal (Some ((envelope_of (SealedDelivery box))\<lparr>env_position := 7\<rparr>)) sample_hub
     = hub_Apply toy_prims draft_unmarshal (Some (draft ''1'')) sample_hub"
proof -
  obtain box where b: "sealWithRand toy_prims (replicate 56 1) (ik_pub toy_identity) [1] = Ok box"
    using toy_seal by blast
  from sealed_delivery_files_as_live [OF toy_prims_ok toy_newIdentity _ b, of sample_hub draft_unmarshal "draft ''1''" _
      "(envelope_of (SealedDelivery box))\<lparr>env_position := 7\<rparr>"]
  show ?thesis by (intro exI [of _ box]) (simp add: sample_hub_def draft_unmarshal_def text_message_def draft_def)
qed

theorem sealed_delivery_is_whole_or_nothing_witness:
  "hb_logged (snd (hub_Apply toy_prims draft_unmarshal (Some ((envelope_of (SealedDelivery [1, 2]))\<lparr>env_position := 7\<rparr>)) sample_hub)) \<noteq> []"
proof -
  let ?o = "(envelope_of (SealedDelivery [1, 2]))\<lparr>env_position := 7\<rparr>"
  let ?r = "hub_Apply toy_prims draft_unmarshal (Some ?o) sample_hub"
  have "Open toy_prims (hb_identity sample_hub) [1, 2] = Err (TruncatedBox 2)"
    by (simp add: sample_hub_def Open_def crypto_sizes)
  then show ?thesis
    using sealed_delivery_is_whole_or_nothing [of ?o "[1, 2]" toy_prims draft_unmarshal sample_hub "fst (fst ?r)" "snd (fst ?r)" "snd ?r"]
    by (auto simp: sample_hub_def)
qed

end
