(* ===== verification/Presence.thy ===== *)
theory Presence
  imports Channels Wire
begin

text \<open>
  \<^verbatim>\<open>src/internal/coordinator/presence/\<close>: the liveness tracker (\<^verbatim>\<open>tracker.go\<close>), status
  labels (\<^verbatim>\<open>status.go\<close>) and the roster view with its subscriptions (\<^verbatim>\<open>view.go\<close>).
  The two presence tables are fields of the state.  A lease is the deadline of
  its timer; every watcher goroutine ever started stays in \<open>tr_watchers\<close>, so a
  fire that raced a rotation can still arrive.  A database write may fail: the
  flag \<open>fails\<close> of an operation says so.
\<close>

section \<open>State\<close>

record liveness =
  lv_online :: bool
  lv_lastSeen :: time
  lv_lease :: "time option"
  lv_gen :: u64

record status_label =
  sl_text :: string
  sl_updatedAt :: time

record device_state =
  ds_device :: string
  ds_conns :: nat
  ds_fact :: liveness
  ds_label :: status_label

record presence_change =
  pc_Device :: string
  pc_Online :: bool
  pc_LastSeen :: time
  pc_Status :: string

record presence_entry =
  pe_Device :: string
  pe_Online :: bool
  pe_LastSeen :: time
  pe_Status :: string

record presence_sub =
  ps_buf :: "presence_change list"
  ps_registered :: bool
  ps_closed_chan :: bool
  ps_once :: bool

record watcher =
  wa_device :: string
  wa_deadline :: time
  wa_gen :: u64

record tracker =
  tr_ttl :: duration
  tr_devices :: "(string \<times> device_state) list"
  tr_subs :: "presence_sub list"
  tr_closed :: bool
  tr_watchers :: "watcher list"
  tr_db_liveness :: "(string \<times> time) list"
  tr_db_status :: "(string \<times> (string \<times> time)) list"

definition subscriptionBuffer :: nat where "subscriptionBuffer = 32"
definition MaxStatusBytes :: nat where "MaxStatusBytes = 256"

datatype presence_error = TTLNotPositive | StatusTooLong nat | StatusNotUTF8 | TrackerClosed
  | StatusPersistFailed

section \<open>Subscriptions (view.go)\<close>

definition sub_push :: "presence_change \<Rightarrow> presence_sub \<Rightarrow> presence_sub" where
  "sub_push ch s = s\<lparr>ps_buf := nb_send subscriptionBuffer ch (ps_buf s)\<rparr>"

interpretation psub: drop_newest sub_push ps_buf subscriptionBuffer
  by unfold_locales (simp add: sub_push_def)

definition presence_notifyLocked :: "presence_change \<Rightarrow> tracker \<Rightarrow> tracker" where
  "presence_notifyLocked ch t =
     t\<lparr>tr_subs := map (\<lambda>s. if ps_registered s then sub_push ch s else s) (tr_subs t)\<rparr>"

definition presence_Subscribe :: "tracker \<Rightarrow> nat \<times> tracker" where
  "presence_Subscribe t =
     (length (tr_subs t),
      t\<lparr>tr_subs := tr_subs t @
          [\<lparr>ps_buf = [], ps_registered = \<not> tr_closed t, ps_closed_chan = tr_closed t,
            ps_once = False\<rparr>]\<rparr>)"

text \<open>Closing a channel that is already closed panics.\<close>

definition sub_Close :: "presence_sub \<Rightarrow> (string, presence_sub) result" where
  "sub_Close s =
     (if ps_once s then Ok s
      else if ps_closed_chan s then Err ''close of closed channel''
      else Ok (s\<lparr>ps_once := True, ps_registered := False, ps_closed_chan := True\<rparr>))"

definition presence_sub_Close :: "nat \<Rightarrow> tracker \<Rightarrow> (string, tracker) result" where
  "presence_sub_Close i t =
     (if i < length (tr_subs t) then
        (case sub_Close (tr_subs t ! i) of
           Inl p \<Rightarrow> Err p
         | Inr s \<Rightarrow> Ok (t\<lparr>tr_subs := (tr_subs t)[i := s]\<rparr>))
      else Ok t)"

definition presence_Snapshot :: "tracker \<Rightarrow> presence_entry list" where
  "presence_Snapshot t =
     sort_key pe_Device (map (\<lambda>(k, d). \<lparr>pe_Device = ds_device d, pe_Online = lv_online (ds_fact d),
        pe_LastSeen = lv_lastSeen (ds_fact d), pe_Status = sl_text (ds_label d)\<rparr>) (tr_devices t))"

definition presence_Known :: "string \<Rightarrow> tracker \<Rightarrow> bool" where
  "presence_Known device t \<longleftrightarrow> map_of (tr_devices t) device \<noteq> None"

section \<open>The tracker (tracker.go)\<close>

definition new_device :: "string \<Rightarrow> device_state" where
  "new_device device = \<lparr>ds_device = device, ds_conns = 0,
     ds_fact = \<lparr>lv_online = False, lv_lastSeen = zero_time, lv_lease = None, lv_gen = 0\<rparr>,
     ds_label = \<lparr>sl_text = '''', sl_updatedAt = zero_time\<rparr>\<rparr>"

definition deviceLocked :: "string \<Rightarrow> tracker \<Rightarrow> device_state" where
  "deviceLocked device t =
     (case map_of (tr_devices t) device of None \<Rightarrow> new_device device | Some d \<Rightarrow> d)"

definition put_device :: "device_state \<Rightarrow> tracker \<Rightarrow> tracker" where
  "put_device d t = t\<lparr>tr_devices := AList.update (ds_device d) d (tr_devices t)\<rparr>"

definition saveLiveness :: "bool \<Rightarrow> string \<Rightarrow> time \<Rightarrow> tracker \<Rightarrow> tracker" where
  "saveLiveness fails device lastSeen t =
     (if fails then t
      else t\<lparr>tr_db_liveness := AList.update device lastSeen (tr_db_liveness t)\<rparr>)"

definition endLeaseLocked :: "device_state \<Rightarrow> device_state" where
  "endLeaseLocked d = d\<lparr>ds_fact := (ds_fact d)\<lparr>lv_lease := None\<rparr>\<rparr>"

definition change_of :: "device_state \<Rightarrow> presence_change" where
  "change_of d = \<lparr>pc_Device = ds_device d, pc_Online = lv_online (ds_fact d),
     pc_LastSeen = lv_lastSeen (ds_fact d), pc_Status = sl_text (ds_label d)\<rparr>"

definition markAliveLocked :: "bool \<Rightarrow> time \<Rightarrow> device_state \<Rightarrow> tracker \<Rightarrow> tracker" where
  "markAliveLocked fails now d t =
     (let wasOnline = lv_online (ds_fact d);
          gen = lv_gen (ds_fact d) + 1;
          d1 = endLeaseLocked (d\<lparr>ds_fact := (ds_fact d)\<lparr>lv_lastSeen := now, lv_gen := gen\<rparr>\<rparr>);
          d2 = d1\<lparr>ds_fact := (ds_fact d1)\<lparr>lv_lease := Some (now + tr_ttl t), lv_online := True\<rparr>\<rparr>;
          t1 = put_device d2 (t\<lparr>tr_watchers := tr_watchers t @
                 [\<lparr>wa_device = ds_device d, wa_deadline = now + tr_ttl t, wa_gen = gen\<rparr>]\<rparr>);
          t2 = (if wasOnline then t1 else presence_notifyLocked (change_of d2) t1)
      in saveLiveness fails (ds_device d) now t2)"

definition markOfflineLocked :: "bool \<Rightarrow> time \<Rightarrow> device_state \<Rightarrow> tracker \<Rightarrow> tracker" where
  "markOfflineLocked fails seenAt d t =
     (let d1 = endLeaseLocked (d\<lparr>ds_fact := (ds_fact d)\<lparr>lv_online := False, lv_lastSeen := seenAt\<rparr>\<rparr>);
          t1 = presence_notifyLocked (change_of d1) (put_device d1 t)
      in saveLiveness fails (ds_device d) seenAt t1)"

definition ObserveHeartbeat :: "bool \<Rightarrow> time \<Rightarrow> string \<Rightarrow> tracker \<Rightarrow> tracker" where
  "ObserveHeartbeat fails now device t =
     (if tr_closed t then t else markAliveLocked fails now (deviceLocked device t) t)"

definition ConnectionEstablished :: "bool \<Rightarrow> time \<Rightarrow> string \<Rightarrow> tracker \<Rightarrow> tracker" where
  "ConnectionEstablished fails now device t =
     (if tr_closed t then t
      else let d = deviceLocked device t
           in markAliveLocked fails now (d\<lparr>ds_conns := ds_conns d + 1\<rparr>) t)"

definition ConnectionLost :: "bool \<Rightarrow> time \<Rightarrow> string \<Rightarrow> tracker \<Rightarrow> tracker" where
  "ConnectionLost fails now device t =
     (if tr_closed t then t
      else case map_of (tr_devices t) device of
        None \<Rightarrow> t
      | Some d \<Rightarrow>
          (if ds_conns d = 0 then t
           else let d1 = d\<lparr>ds_conns := ds_conns d - 1\<rparr> in
             if ds_conns d1 > 0 then put_device d1 t
             else if \<not> lv_online (ds_fact d1) then put_device d1 t
             else markOfflineLocked fails now d1 t))"

definition presence_expire :: "bool \<Rightarrow> string \<Rightarrow> u64 \<Rightarrow> tracker \<Rightarrow> tracker" where
  "presence_expire fails device gen t =
     (if tr_closed t then t
      else case map_of (tr_devices t) device of
        None \<Rightarrow> t
      | Some d \<Rightarrow>
          (if \<not> lv_online (ds_fact d) \<or> lv_gen (ds_fact d) \<noteq> gen then t
           else markOfflineLocked fails (lv_lastSeen (ds_fact d)) d t))"

text \<open>A watcher whose timer has lapsed expires its own lease.\<close>

definition presence_watch :: "bool \<Rightarrow> time \<Rightarrow> watcher \<Rightarrow> tracker \<Rightarrow> tracker" where
  "presence_watch fails now w t =
     (if wa_deadline w \<le> now then presence_expire fails (wa_device w) (wa_gen w) t else t)"

definition presence_Close :: "tracker \<Rightarrow> tracker" where
  "presence_Close t =
     (if tr_closed t then t
      else t\<lparr>tr_closed := True, tr_devices := map (\<lambda>(k, d). (k, endLeaseLocked d)) (tr_devices t)\<rparr>)"

definition loadPersisted :: "(string \<times> time) list \<Rightarrow> (string \<times> (string \<times> time)) list \<Rightarrow> tracker \<Rightarrow> tracker" where
  "loadPersisted liv sts t =
     fold (\<lambda>(device, text, updated) t.
             let d = deviceLocked device t
             in put_device (d\<lparr>ds_label := \<lparr>sl_text = text, sl_updatedAt = updated\<rparr>\<rparr>) t) sts
       (fold (\<lambda>(device, seen) t.
             let d = deviceLocked device t
             in put_device (d\<lparr>ds_fact := (ds_fact d)\<lparr>lv_lastSeen := seen\<rparr>\<rparr>) t) liv t)"

definition NewTracker ::
  "duration \<Rightarrow> (string \<times> time) list \<Rightarrow> (string \<times> (string \<times> time)) list \<Rightarrow> (presence_error, tracker) result" where
  "NewTracker ttl liv sts =
     (if ttl \<le> 0 then Err TTLNotPositive
      else Ok (loadPersisted liv sts
        \<lparr>tr_ttl = ttl, tr_devices = [], tr_subs = [], tr_closed = False, tr_watchers = [],
         tr_db_liveness = liv, tr_db_status = sts\<rparr>))"

section \<open>Status labels (status.go)\<close>

definition SetStatus ::
  "bool \<Rightarrow> time \<Rightarrow> string \<Rightarrow> string \<Rightarrow> tracker \<Rightarrow> (presence_error, unit) result \<times> tracker" where
  "SetStatus fails now device status t =
     (if length status > MaxStatusBytes then (Err (StatusTooLong (length status)), t)
      else if \<not> ValidString status then (Err StatusNotUTF8, t)
      else if tr_closed t then (Err TrackerClosed, t)
      else if fails then (Err StatusPersistFailed, t)
      else let t1 = t\<lparr>tr_db_status := AList.update device (status, now) (tr_db_status t)\<rparr>;
               d = deviceLocked device t1;
               d1 = d\<lparr>ds_label := \<lparr>sl_text = status, sl_updatedAt = now\<rparr>\<rparr>
           in (Ok (), presence_notifyLocked (change_of d1) (put_device d1 t1)))"

end
