(* ===== verification/PresenceProps.thy ===== *)
theory PresenceProps
  imports Presence
begin

text \<open>
  Correctness of the presence tracker: reachable states under arbitrary
  interleavings of observations, stale and current timer fires, status changes,
  subscriptions and shutdown, the lease invariant, and the restart round trip.
\<close>

section \<open>Reachable states\<close>

text \<open>
  \<open>faulty\<close> says whether database writes may fail.  A generation counter is a
  64-bit word; a run in which one device is observed \<open>2 ^ 64\<close> times is excluded.
\<close>

inductive presence_reach :: "bool \<Rightarrow> time \<Rightarrow> tracker \<Rightarrow> bool" for faulty where
  start: "NewTracker ttl liv sts = Ok t \<Longrightarrow> wf_map liv \<Longrightarrow> wf_map sts \<Longrightarrow> presence_reach faulty now t"
| tick: "presence_reach faulty now t \<Longrightarrow> now \<le> now' \<Longrightarrow> presence_reach faulty now' t"
| beat: "presence_reach faulty now t \<Longrightarrow> fails \<longrightarrow> faulty \<Longrightarrow> lv_gen (ds_fact (deviceLocked dev t)) \<noteq> - 1 \<Longrightarrow>
     presence_reach faulty now (ObserveHeartbeat fails now dev t)"
| conn: "presence_reach faulty now t \<Longrightarrow> fails \<longrightarrow> faulty \<Longrightarrow> lv_gen (ds_fact (deviceLocked dev t)) \<noteq> - 1 \<Longrightarrow>
     presence_reach faulty now (ConnectionEstablished fails now dev t)"
| lost: "presence_reach faulty now t \<Longrightarrow> fails \<longrightarrow> faulty \<Longrightarrow>
     presence_reach faulty now (ConnectionLost fails now dev t)"
| fire: "presence_reach faulty now t \<Longrightarrow> fails \<longrightarrow> faulty \<Longrightarrow> w \<in> set (tr_watchers t) \<Longrightarrow>
     presence_reach faulty now (presence_watch fails now w t)"
| relabel: "presence_reach faulty now t \<Longrightarrow> presence_reach faulty now (snd (SetStatus fails now dev txt t))"
| subscribe: "presence_reach faulty now t \<Longrightarrow> presence_reach faulty now (snd (presence_Subscribe t))"
| unsubscribe: "presence_reach faulty now t \<Longrightarrow> presence_sub_Close i t = Ok t' \<Longrightarrow>
     presence_reach faulty now t'"
| close: "presence_reach faulty now t \<Longrightarrow> presence_reach faulty now (presence_Close t)"

section \<open>Invariant\<close>

definition lease_ok :: "tracker \<Rightarrow> string \<Rightarrow> device_state \<Rightarrow> bool" where
  "lease_ok t k d \<longleftrightarrow> ds_device d = k
     \<and> (\<forall>w \<in> set (tr_watchers t). wa_device w = k \<longrightarrow> wa_gen w \<le> lv_gen (ds_fact d))
     \<and> (lv_online (ds_fact d) \<longrightarrow>
          \<lparr>wa_device = k, wa_deadline = lv_lastSeen (ds_fact d) + tr_ttl t, wa_gen = lv_gen (ds_fact d)\<rparr>
            \<in> set (tr_watchers t)
          \<and> (\<forall>w \<in> set (tr_watchers t). wa_device w = k \<and> wa_gen w = lv_gen (ds_fact d)
                \<longrightarrow> wa_deadline w = lv_lastSeen (ds_fact d) + tr_ttl t)
          \<and> (\<not> tr_closed t \<longrightarrow> lv_lease (ds_fact d) = Some (lv_lastSeen (ds_fact d) + tr_ttl t)))
     \<and> (\<not> lv_online (ds_fact d) \<longrightarrow> lv_lease (ds_fact d) = None)"

definition tracker_inv :: "tracker \<Rightarrow> bool" where
  "tracker_inv t \<longleftrightarrow> 0 < tr_ttl t \<and> wf_map (tr_devices t) \<and> wf_map (tr_db_liveness t)
     \<and> wf_map (tr_db_status t)
     \<and> (\<forall>k d. map_of (tr_devices t) k = Some d \<longrightarrow> lease_ok t k d)
     \<and> (\<forall>w \<in> set (tr_watchers t). map_of (tr_devices t) (wa_device w) \<noteq> None)"

lemma tracker_invD:
  assumes "tracker_inv t"
  shows "0 < tr_ttl t" "wf_map (tr_devices t)"
    "map_of (tr_devices t) k = Some d \<Longrightarrow> lease_ok t k d"
    "w \<in> set (tr_watchers t) \<Longrightarrow> map_of (tr_devices t) (wa_device w) \<noteq> None"
  using assms by (auto simp: tracker_inv_def)

lemma deviceLocked_lease_ok:
  assumes "tracker_inv t" shows "lease_ok t dev (deviceLocked dev t)"
proof (cases "map_of (tr_devices t) dev")
  case None
  then have "\<forall>w \<in> set (tr_watchers t). wa_device w \<noteq> dev" using tracker_invD(4) [OF assms] by fastforce
  then show ?thesis using None by (auto simp: deviceLocked_def new_device_def lease_ok_def)
qed (use assms in \<open>auto simp: deviceLocked_def tracker_invD\<close>)

text \<open>The fields the helpers touch.\<close>

lemma presence_frames [simp]:
  "tr_devices (presence_notifyLocked ch t) = tr_devices t"
  "tr_ttl (presence_notifyLocked ch t) = tr_ttl t"
  "tr_closed (presence_notifyLocked ch t) = tr_closed t"
  "tr_watchers (presence_notifyLocked ch t) = tr_watchers t"
  "tr_db_liveness (presence_notifyLocked ch t) = tr_db_liveness t"
  "tr_db_status (presence_notifyLocked ch t) = tr_db_status t"
  "tr_devices (saveLiveness fails dev s t) = tr_devices t"
  "tr_ttl (saveLiveness fails dev s t) = tr_ttl t"
  "tr_closed (saveLiveness fails dev s t) = tr_closed t"
  "tr_watchers (saveLiveness fails dev s t) = tr_watchers t"
  "tr_db_status (saveLiveness fails dev s t) = tr_db_status t"
  "tr_subs (saveLiveness fails dev s t) = tr_subs t"
  "tr_devices (put_device d t) = AList.update (ds_device d) d (tr_devices t)"
  "tr_ttl (put_device d t) = tr_ttl t"
  "tr_closed (put_device d t) = tr_closed t"
  "tr_watchers (put_device d t) = tr_watchers t"
  "tr_db_liveness (put_device d t) = tr_db_liveness t"
  "tr_db_status (put_device d t) = tr_db_status t"
  "tr_subs (put_device d t) = tr_subs t"
  by (simp_all add: presence_notifyLocked_def saveLiveness_def put_device_def)

text \<open>Every operation rewrites at most one device; this is the shape of the result.\<close>

lemma tracker_inv_put:
  assumes "tracker_inv t" "lease_ok t' (ds_device d) d"
    "tr_devices t' = AList.update (ds_device d) d (tr_devices t)"
    "tr_ttl t' = tr_ttl t" "tr_closed t' = tr_closed t"
    "wf_map (tr_db_liveness t')" "wf_map (tr_db_status t')"
    "set (tr_watchers t) \<subseteq> set (tr_watchers t')"
    "\<forall>w \<in> set (tr_watchers t') - set (tr_watchers t). wa_device w = ds_device d"
  shows "tracker_inv t'"
proof -
  have "lease_ok t' k d'" if "map_of (tr_devices t) k = Some d'" "k \<noteq> ds_device d" for k d'
  proof -
    have "wa_device w = k \<Longrightarrow> w \<in> set (tr_watchers t') \<longleftrightarrow> w \<in> set (tr_watchers t)" for w
      using assms(8,9) that(2) by auto
    then show ?thesis
      using tracker_invD(3) [OF assms(1) that(1)] assms(4,5) unfolding lease_ok_def by auto
  qed
  moreover have "map_of (tr_devices t') (wa_device w) \<noteq> None" if "w \<in> set (tr_watchers t')" for w
    using that assms(3,8,9) tracker_invD(4) [OF assms(1), of w] by auto
  ultimately show ?thesis
    using assms tracker_invD(1,2) [OF assms(1)] by (auto simp: tracker_inv_def)
qed

lemma markAlive_inv:
  assumes "tracker_inv t" "lease_ok t (ds_device d) d" "lv_gen (ds_fact d) \<noteq> - 1"
  shows "tracker_inv (markAliveLocked fails now d t)"
proof -
  let ?t = "markAliveLocked fails now d t"
  let ?d = "d\<lparr>ds_fact := \<lparr>lv_online = True, lv_lastSeen = now, lv_lease = Some (now + tr_ttl t),
      lv_gen = lv_gen (ds_fact d) + 1\<rparr>\<rparr>"
  have dev: "tr_devices ?t = AList.update (ds_device ?d) ?d (tr_devices t)"
    by (simp add: markAliveLocked_def Let_def endLeaseLocked_def) (cases "ds_fact d"; simp)
  have wat: "set (tr_watchers ?t) = insert \<lparr>wa_device = ds_device d, wa_deadline = now + tr_ttl t,
      wa_gen = lv_gen (ds_fact d) + 1\<rparr> (set (tr_watchers t))"
    by (simp add: markAliveLocked_def Let_def)
  have rest: "tr_ttl ?t = tr_ttl t" "tr_closed ?t = tr_closed t" "tr_db_status ?t = tr_db_status t"
    "wf_map (tr_db_liveness t) \<Longrightarrow> wf_map (tr_db_liveness ?t)"
    by (simp_all add: markAliveLocked_def Let_def saveLiveness_def)
  have "wa_gen w < lv_gen (ds_fact d) + 1"
    if "w \<in> set (tr_watchers t)" "wa_device w = ds_device d" for w
    using assms(2) that word_less_Suc [OF assms(3)] by (auto simp: lease_ok_def intro: le_less_trans)
  then have "lease_ok ?t (ds_device ?d) ?d"
    using wat rest by (force simp: lease_ok_def)
  then show ?thesis
    using dev wat rest assms(1) by (intro tracker_inv_put [OF assms(1), of ?t ?d]) (auto simp: tracker_inv_def)
qed

lemma markOffline_inv:
  assumes "tracker_inv t" "lease_ok t (ds_device d) d"
  shows "tracker_inv (markOfflineLocked fails seenAt d t)"
proof -
  let ?t = "markOfflineLocked fails seenAt d t"
  let ?d = "d\<lparr>ds_fact := (ds_fact d)\<lparr>lv_online := False, lv_lastSeen := seenAt, lv_lease := None\<rparr>\<rparr>"
  have "tr_devices ?t = AList.update (ds_device ?d) ?d (tr_devices t)"
    by (simp add: markOfflineLocked_def Let_def endLeaseLocked_def)
  moreover have "wf_map (tr_db_liveness t) \<Longrightarrow> wf_map (tr_db_liveness ?t)"
    by (simp add: markOfflineLocked_def Let_def saveLiveness_def)
  moreover have "lease_ok ?t (ds_device ?d) ?d"
    using assms(2) by (auto simp: lease_ok_def markOfflineLocked_def Let_def)
  ultimately show ?thesis
    using assms(1) by (intro tracker_inv_put [OF assms(1), of ?t ?d])
      (auto simp: tracker_inv_def markOfflineLocked_def Let_def)
qed

lemma lease_ok_cong:
  "lease_ok t k d \<Longrightarrow> tr_watchers t' = tr_watchers t \<Longrightarrow> tr_ttl t' = tr_ttl t \<Longrightarrow>
     tr_closed t' = tr_closed t \<Longrightarrow> ds_fact d' = ds_fact d \<Longrightarrow> ds_device d' = ds_device d \<Longrightarrow>
     lease_ok t' k d'"
  by (simp add: lease_ok_def)

lemma tracker_inv_cong:
  "tracker_inv t \<Longrightarrow> tr_devices t' = tr_devices t \<Longrightarrow> tr_watchers t' = tr_watchers t \<Longrightarrow>
     tr_ttl t' = tr_ttl t \<Longrightarrow> tr_closed t' = tr_closed t \<Longrightarrow> wf_map (tr_db_liveness t') \<Longrightarrow>
     wf_map (tr_db_status t') \<Longrightarrow> tracker_inv t'"
  by (auto simp: tracker_inv_def intro: lease_ok_cong)

lemma put_inv:
  assumes "tracker_inv t" "lease_ok t (ds_device d) d" shows "tracker_inv (put_device d t)"
  using assms tracker_inv_put [OF assms(1), of "put_device d t" d] lease_ok_cong [OF assms(2)]
  by (simp add: tracker_inv_def)

lemma lost_inv: "tracker_inv t \<Longrightarrow> tracker_inv (ConnectionLost fails now dev t)"
proof -
  assume iv: "tracker_inv t"
  show ?thesis
  proof (cases "map_of (tr_devices t) dev")
    case (Some d)
    have l: "lease_ok t (ds_device (d\<lparr>ds_conns := n\<rparr>)) (d\<lparr>ds_conns := n\<rparr>)" for n
      using tracker_invD(3) [OF iv Some] by (simp add: lease_ok_def)
    show ?thesis
      using iv Some put_inv [OF iv l] markOffline_inv [OF iv l]
      by (simp add: ConnectionLost_def Let_def)
  qed (use iv in \<open>simp add: ConnectionLost_def\<close>)
qed

lemma expire_inv: "tracker_inv t \<Longrightarrow> tracker_inv (presence_expire fails dev gen t)"
proof -
  assume iv: "tracker_inv t"
  show ?thesis
  proof (cases "map_of (tr_devices t) dev")
    case (Some d)
    then have "lease_ok t (ds_device d) d"
      using tracker_invD(3) [OF iv Some] by (simp add: lease_ok_def)
    then show ?thesis using iv Some markOffline_inv [OF iv, of d] by (simp add: presence_expire_def)
  qed (use iv in \<open>simp add: presence_expire_def\<close>)
qed

lemma status_inv: "tracker_inv t \<Longrightarrow> tracker_inv (snd (SetStatus fails now dev txt t))"
proof -
  assume iv: "tracker_inv t"
  let ?t1 = "t\<lparr>tr_db_status := AList.update dev (txt, now) (tr_db_status t)\<rparr>"
  let ?d = "(deviceLocked dev t)\<lparr>ds_label := \<lparr>sl_text = txt, sl_updatedAt = now\<rparr>\<rparr>"
  have iv1: "tracker_inv ?t1" by (rule tracker_inv_cong [OF iv]) (use iv in \<open>simp_all add: tracker_inv_def\<close>)
  have l: "lease_ok t (ds_device ?d) ?d"
    using deviceLocked_lease_ok [OF iv, of dev] by (simp add: lease_ok_def)
  have "lease_ok ?t1 (ds_device ?d) ?d" by (rule lease_ok_cong [OF l]) simp_all
  then have "tracker_inv (put_device ?d ?t1)" by (rule put_inv [OF iv1])
  then have "tracker_inv (presence_notifyLocked ch (put_device ?d ?t1))" for ch
    by (rule tracker_inv_cong) (use iv in \<open>simp_all add: tracker_inv_def\<close>)
  moreover have "deviceLocked dev ?t1 = deviceLocked dev t" by (simp add: deviceLocked_def)
  ultimately show ?thesis using iv by (simp add: SetStatus_def Let_def)
qed

lemma close_inv: "tracker_inv t \<Longrightarrow> tracker_inv (presence_Close t)"
proof -
  assume iv: "tracker_inv t"
  have m: "map_of (map (\<lambda>(k, d). (k, endLeaseLocked d)) xs) k = map_option endLeaseLocked (map_of xs k)"
    for xs :: "(string \<times> device_state) list" and k
    by (induction xs) auto
  let ?t = "t\<lparr>tr_closed := True, tr_devices := map (\<lambda>(k, d). (k, endLeaseLocked d)) (tr_devices t)\<rparr>"
  have "wf_map (tr_devices ?t)"
    using iv by (simp add: tracker_inv_def wf_map_def comp_def case_prod_beta)
  moreover have "lease_ok ?t k (endLeaseLocked d)" if "lease_ok t k d" for k d
    using that by (simp add: lease_ok_def endLeaseLocked_def)
  ultimately have "tracker_inv ?t"
    using iv m [of "tr_devices t"] by (auto simp: tracker_inv_def)
  then show ?thesis using iv by (simp add: presence_Close_def)
qed

lemma load_inv:
  assumes "0 < ttl" "wf_map liv" "wf_map sts"
  shows "tracker_inv (loadPersisted liv sts \<lparr>tr_ttl = ttl, tr_devices = [], tr_subs = [],
    tr_closed = False, tr_watchers = [], tr_db_liveness = liv, tr_db_status = sts\<rparr>)"
proof -
  have p: "tracker_inv (put_device (d\<lparr>ds_fact := (ds_fact d)\<lparr>lv_lastSeen := x\<rparr>\<rparr>) t) \<and>
      tr_watchers (put_device (d\<lparr>ds_fact := (ds_fact d)\<lparr>lv_lastSeen := x\<rparr>\<rparr>) t) = []"
    if "tracker_inv t \<and> tr_watchers t = []" "d = deviceLocked dev t" for d x t dev
    using that deviceLocked_lease_ok [of t dev] by (auto simp: lease_ok_def intro!: put_inv)
  have q: "tracker_inv (put_device (d\<lparr>ds_label := x\<rparr>) t) \<and>
      tr_watchers (put_device (d\<lparr>ds_label := x\<rparr>) t) = []"
    if "tracker_inv t \<and> tr_watchers t = []" "d = deviceLocked dev t" for d x t dev
    using that deviceLocked_lease_ok [of t dev] by (auto simp: lease_ok_def intro!: put_inv)
  have f1: "tracker_inv t \<and> tr_watchers t = [] \<Longrightarrow> tracker_inv (fold (\<lambda>(device, seen) t.
             let d = deviceLocked device t
             in put_device (d\<lparr>ds_fact := (ds_fact d)\<lparr>lv_lastSeen := seen\<rparr>\<rparr>) t) xs t) \<and>
      tr_watchers (fold (\<lambda>(device, seen) t.
             let d = deviceLocked device t
             in put_device (d\<lparr>ds_fact := (ds_fact d)\<lparr>lv_lastSeen := seen\<rparr>\<rparr>) t) xs t) = []" for xs t
  proof (induction xs arbitrary: t)
    case (Cons x xs)
    then show ?case using p [OF Cons.prems, of _ "fst x" "snd x"] by (simp add: case_prod_beta Let_def)
  qed simp
  have f2: "tracker_inv t \<and> tr_watchers t = [] \<Longrightarrow> tracker_inv (fold (\<lambda>(device, text, updated) t.
             let d = deviceLocked device t
             in put_device (d\<lparr>ds_label := \<lparr>sl_text = text, sl_updatedAt = updated\<rparr>\<rparr>) t) xs t) \<and>
      tr_watchers (fold (\<lambda>(device, text, updated) t.
             let d = deviceLocked device t
             in put_device (d\<lparr>ds_label := \<lparr>sl_text = text, sl_updatedAt = updated\<rparr>\<rparr>) t) xs t) = []"
    for xs :: "(string \<times> (string \<times> time)) list" and t
  proof (induction xs arbitrary: t)
    case (Cons x xs)
    then show ?case using q [OF Cons.prems, of _ "fst x"] by (simp add: case_prod_beta Let_def)
  qed simp
  show ?thesis
    unfolding loadPersisted_def using assms f1 f2 by (simp add: tracker_inv_def)
qed

lemma presence_reach_inv: "presence_reach faulty now t \<Longrightarrow> tracker_inv t"
proof (induction rule: presence_reach.induct)
  case (start ttl liv sts t now)
  then show ?case using load_inv by (auto simp: NewTracker_def split: if_splits)
next
  case (beat now t fails dev)
  then show ?case
    using markAlive_inv [OF beat.IH, of "deviceLocked dev t"] deviceLocked_lease_ok [OF beat.IH, of dev]
    by (auto simp: ObserveHeartbeat_def lease_ok_def)
next
  case (conn now t fails dev)
  let ?d = "(deviceLocked dev t)\<lparr>ds_conns := ds_conns (deviceLocked dev t) + 1\<rparr>"
  have "lease_ok t (ds_device ?d) ?d"
    using deviceLocked_lease_ok [OF conn.IH, of dev] by (simp add: lease_ok_def)
  then show ?case
    using conn markAlive_inv [OF conn.IH, of ?d] by (simp add: ConnectionEstablished_def Let_def)
next
  case (subscribe now t)
  then show ?case
    by (intro tracker_inv_cong [OF subscribe.IH]) (simp_all add: presence_Subscribe_def tracker_inv_def)
next
  case (unsubscribe now t i t')
  then show ?case
    by (intro tracker_inv_cong [OF unsubscribe.IH])
      (auto simp: presence_sub_Close_def tracker_inv_def split: if_splits sum.splits)
qed (simp_all add: lost_inv expire_inv status_inv close_inv presence_watch_def)

section \<open>Liveness follows the lease\<close>

definition gone_offline :: "device_state \<Rightarrow> device_state" where
  "gone_offline d = d\<lparr>ds_fact := (ds_fact d)\<lparr>lv_online := False, lv_lease := None\<rparr>\<rparr>"

lemma watch_device:
  assumes "tracker_inv t" "\<not> tr_closed t" "w \<in> set (tr_watchers t)"
    "map_of (tr_devices t) k = Some d"
  shows "map_of (tr_devices (presence_watch fails now w t)) k =
     Some (if wa_device w = k \<and> wa_gen w = lv_gen (ds_fact d) \<and> lv_online (ds_fact d)
              \<and> lv_lastSeen (ds_fact d) + tr_ttl t \<le> now then gone_offline d else d)"
proof (cases "wa_device w = k")
  case True
  have l: "lease_ok t k d" by (rule tracker_invD(3) [OF assms(1,4)])
  then have "wa_gen w = lv_gen (ds_fact d) \<Longrightarrow> lv_online (ds_fact d) \<Longrightarrow>
      wa_deadline w = lv_lastSeen (ds_fact d) + tr_ttl t" "ds_device d = k"
    using assms(3) True by (auto simp: lease_ok_def)
  then show ?thesis
    using assms True
    by (auto simp: presence_watch_def presence_expire_def markOfflineLocked_def Let_def
        endLeaseLocked_def gone_offline_def)
next
  case False
  have "ds_device d' = wa_device w" if "map_of (tr_devices t) (wa_device w) = Some d'" for d'
    using tracker_invD(3) [OF assms(1) that] by (simp add: lease_ok_def)
  then show ?thesis
    using assms False
    by (auto simp: presence_watch_def presence_expire_def markOfflineLocked_def Let_def
        endLeaseLocked_def split: option.split)
qed

lemma watch_frame:
  "tr_watchers (presence_watch fails now w t) = tr_watchers t"
  "tr_closed (presence_watch fails now w t) = tr_closed t"
  "tr_ttl (presence_watch fails now w t) = tr_ttl t"
  by (simp_all add: presence_watch_def presence_expire_def markOfflineLocked_def Let_def
      split: option.split)

lemma watch_all_device:
  assumes "tracker_inv t" "\<not> tr_closed t" "set ws \<subseteq> set (tr_watchers t)"
    "map_of (tr_devices t) k = Some d"
  shows "map_of (tr_devices (fold (presence_watch fails now) ws t)) k =
     Some (if (\<exists>w \<in> set ws. wa_device w = k \<and> wa_gen w = lv_gen (ds_fact d)) \<and> lv_online (ds_fact d)
              \<and> lv_lastSeen (ds_fact d) + tr_ttl t \<le> now then gone_offline d else d)"
  using assms
proof (induction ws arbitrary: t d)
  case (Cons w ws)
  let ?t = "presence_watch fails now w t"
  have "tracker_inv ?t" using Cons.prems(1) by (simp add: presence_watch_def expire_inv)
  then show ?case
    using Cons.IH [of ?t] Cons.prems watch_device [OF Cons.prems(1,2) _ Cons.prems(4), of w fails now]
    by (auto simp: watch_frame gone_offline_def)
qed simp

text \<open>
  C8. Liveness is exactly the lease: in every reachable state of an open tracker,
  once every watcher that is due at the present instant has fired (the stale
  ones of superseded leases included), a device is online if and only if it was
  online and its last observation is less than the time to live ago, and its
  last-seen instant is still that of the observation.
\<close>

theorem online_iff_lease_current:
  assumes "presence_reach faulty now t" "\<not> tr_closed t" "map_of (tr_devices t) dev = Some d"
  shows "\<exists>d'. map_of (tr_devices (fold (presence_watch fails now) (tr_watchers t) t)) dev = Some d'
     \<and> (lv_online (ds_fact d') \<longleftrightarrow> lv_online (ds_fact d) \<and> now < lv_lastSeen (ds_fact d) + tr_ttl t)
     \<and> lv_lastSeen (ds_fact d') = lv_lastSeen (ds_fact d)"
proof -
  have iv: "tracker_inv t" by (rule presence_reach_inv [OF assms(1)])
  have "\<exists>w \<in> set (tr_watchers t). wa_device w = dev \<and> wa_gen w = lv_gen (ds_fact d)"
    if "lv_online (ds_fact d)"
    using tracker_invD(3) [OF iv assms(3)] that unfolding lease_ok_def by (intro bexI) auto
  then show ?thesis
    using watch_all_device [OF iv assms(2) order.refl assms(3), of fails now]
    by (auto simp: gone_offline_def not_le)
qed

definition sample_tracker :: tracker where
  "sample_tracker = \<lparr>tr_ttl = 30, tr_devices = [], tr_subs = [], tr_closed = False,
     tr_watchers = [], tr_db_liveness = [], tr_db_status = []\<rparr>"

lemma sample_tracker_reach: "presence_reach faulty now sample_tracker"
  by (rule presence_reach.start [of 30 "[]" "[]"])
    (simp_all add: NewTracker_def loadPersisted_def sample_tracker_def)

definition sample_beaten :: tracker where
  "sample_beaten = ObserveHeartbeat False 100 ''ann'' sample_tracker"

lemma sample_beaten_reach: "presence_reach faulty 130 sample_beaten"
proof -
  have "presence_reach faulty 100 sample_beaten"
    unfolding sample_beaten_def
    by (rule presence_reach.beat [OF sample_tracker_reach])
      (simp_all add: sample_tracker_def deviceLocked_def new_device_def)
  then show ?thesis by (rule presence_reach.tick) simp
qed

theorem online_iff_lease_current_witness:
  "\<exists>d'. map_of (tr_devices (fold (presence_watch False 130) (tr_watchers sample_beaten) sample_beaten))
      ''ann'' = Some d' \<and> \<not> lv_online (ds_fact d') \<and> lv_lastSeen (ds_fact d') = 100"
proof -
  obtain d where "map_of (tr_devices sample_beaten) ''ann'' = Some d" "\<not> tr_closed sample_beaten"
    "lv_lastSeen (ds_fact d) = 100" "tr_ttl sample_beaten = 30"
    by (simp add: sample_beaten_def ObserveHeartbeat_def markAliveLocked_def Let_def sample_tracker_def
        deviceLocked_def new_device_def endLeaseLocked_def)
  then show ?thesis using online_iff_lease_current [OF sample_beaten_reach, of "''ann''" d False] by auto
qed

section \<open>Restart\<close>

definition mirrors :: "device_state option \<Rightarrow> time option \<Rightarrow> (string \<times> time) option \<Rightarrow> bool" where
  "mirrors dev seen lab = (case dev of
       None \<Rightarrow> seen = None \<and> lab = None
     | Some d \<Rightarrow> (seen \<noteq> None \<or> lab \<noteq> None)
         \<and> lv_lastSeen (ds_fact d) = (case seen of None \<Rightarrow> zero_time | Some s \<Rightarrow> s)
         \<and> sl_text (ds_label d) = (case lab of None \<Rightarrow> '''' | Some (s, _) \<Rightarrow> s))"

definition mirrored :: "tracker \<Rightarrow> bool" where
  "mirrored t \<longleftrightarrow> (\<forall>k. mirrors (map_of (tr_devices t) k) (map_of (tr_db_liveness t) k)
     (map_of (tr_db_status t) k))"

lemma load_liveness:
  assumes "wf_map liv" "\<And>k d. map_of (tr_devices t) k = Some d \<Longrightarrow> ds_device d = k"
  shows "map_of (tr_devices (fold (\<lambda>(device, seen) t.
             let d = deviceLocked device t
             in put_device (d\<lparr>ds_fact := (ds_fact d)\<lparr>lv_lastSeen := seen\<rparr>\<rparr>) t) liv t)) k =
     (case map_of liv k of None \<Rightarrow> map_of (tr_devices t) k
      | Some s \<Rightarrow> Some ((deviceLocked k t)\<lparr>ds_fact := (ds_fact (deviceLocked k t))\<lparr>lv_lastSeen := s\<rparr>\<rparr>))"
  using assms
proof (induction liv arbitrary: t)
  case (Cons x xs)
  obtain dev s where x: "x = (dev, s)" by force
  let ?d = "(deviceLocked dev t)\<lparr>ds_fact := (ds_fact (deviceLocked dev t))\<lparr>lv_lastSeen := s\<rparr>\<rparr>"
  have dd: "ds_device ?d = dev" "\<And>k. ds_device (deviceLocked k t) = k"
    using Cons.prems(2) by (auto simp: deviceLocked_def new_device_def split: option.split)
  have "map_of xs dev = None" "wf_map xs"
    using Cons.prems(1) x by (auto simp: wf_map_def map_of_eq_None_iff image_def)
  then have xs: "map_of xs dev = None" "wf_map xs" .
  have pd: "ds_device d = k" if "map_of (tr_devices (put_device ?d t)) k = Some d" for k d
    using that Cons.prems(2) [of k d] dd(1) by (auto split: if_splits)
  have dl: "deviceLocked k (put_device ?d t) = (if k = dev then ?d else deviceLocked k t)"
    using dd(1) by (simp add: deviceLocked_def)
  show ?case
    using Cons.IH [of "put_device ?d t", OF xs(2) pd] xs(1) dd(1) dl
    by (cases "k = dev") (simp_all add: x Let_def split: option.split)
qed simp

lemma load_status:
  assumes "wf_map sts" "\<And>k d. map_of (tr_devices t) k = Some d \<Longrightarrow> ds_device d = k"
  shows "map_of (tr_devices (fold (\<lambda>(device, text, updated) t.
             let d = deviceLocked device t
             in put_device (d\<lparr>ds_label := \<lparr>sl_text = text, sl_updatedAt = updated\<rparr>\<rparr>) t) sts t)) k =
     (case map_of sts k of None \<Rightarrow> map_of (tr_devices t) k
      | Some (s, u) \<Rightarrow> Some ((deviceLocked k t)\<lparr>ds_label := \<lparr>sl_text = s, sl_updatedAt = u\<rparr>\<rparr>))"
  using assms
proof (induction sts arbitrary: t)
  case (Cons x xs)
  obtain dev s u where x: "x = (dev, s, u)" by (metis surj_pair)
  let ?d = "(deviceLocked dev t)\<lparr>ds_label := \<lparr>sl_text = s, sl_updatedAt = u\<rparr>\<rparr>"
  have dd: "ds_device ?d = dev" "\<And>k. ds_device (deviceLocked k t) = k"
    using Cons.prems(2) by (auto simp: deviceLocked_def new_device_def split: option.split)
  have "map_of xs dev = None" "wf_map xs"
    using Cons.prems(1) x by (auto simp: wf_map_def map_of_eq_None_iff image_def)
  then have xs: "map_of xs dev = None" "wf_map xs" .
  have pd: "ds_device d = k" if "map_of (tr_devices (put_device ?d t)) k = Some d" for k d
    using that Cons.prems(2) [of k d] dd(1) by (auto split: if_splits)
  have dl: "deviceLocked k (put_device ?d t) = (if k = dev then ?d else deviceLocked k t)"
    using dd(1) by (simp add: deviceLocked_def)
  show ?case
    using Cons.IH [of "put_device ?d t", OF xs(2) pd] xs(1) dd(1) dl
    by (cases "k = dev") (simp_all add: x Let_def split: option.split)
qed simp

lemma mirrored_put:
  assumes "mirrored t" "tr_devices t' = AList.update k d (tr_devices t)"
    "\<And>j. j \<noteq> k \<Longrightarrow> map_of (tr_db_liveness t') j = map_of (tr_db_liveness t) j"
    "\<And>j. j \<noteq> k \<Longrightarrow> map_of (tr_db_status t') j = map_of (tr_db_status t) j"
    "mirrors (Some d) (map_of (tr_db_liveness t') k) (map_of (tr_db_status t') k)"
  shows "mirrored t'"
  unfolding mirrored_def
proof
  fix j
  show "mirrors (map_of (tr_devices t') j) (map_of (tr_db_liveness t') j) (map_of (tr_db_status t') j)"
    using assms(1,2,5) assms(3,4) [of j] unfolding mirrored_def by (cases "j = k") simp_all
qed

lemma mirrored_known:
  assumes "mirrored t"
  shows "lv_lastSeen (ds_fact (deviceLocked k t)) = (case map_of (tr_db_liveness t) k of None \<Rightarrow> zero_time | Some s \<Rightarrow> s)"
    "sl_text (ds_label (deviceLocked k t)) = (case map_of (tr_db_status t) k of None \<Rightarrow> '''' | Some (s, _) \<Rightarrow> s)"
    "map_of (tr_devices t) k \<noteq> None \<Longrightarrow> map_of (tr_db_liveness t) k \<noteq> None \<or> map_of (tr_db_status t) k \<noteq> None"
proof -
  have "mirrors (map_of (tr_devices t) k) (map_of (tr_db_liveness t) k) (map_of (tr_db_status t) k)"
    using assms unfolding mirrored_def by blast
  then show "lv_lastSeen (ds_fact (deviceLocked k t)) = (case map_of (tr_db_liveness t) k of None \<Rightarrow> zero_time | Some s \<Rightarrow> s)"
    "sl_text (ds_label (deviceLocked k t)) = (case map_of (tr_db_status t) k of None \<Rightarrow> '''' | Some (s, _) \<Rightarrow> s)"
    "map_of (tr_devices t) k \<noteq> None \<Longrightarrow> map_of (tr_db_liveness t) k \<noteq> None \<or> map_of (tr_db_status t) k \<noteq> None"
    by (cases "map_of (tr_devices t) k"; simp add: mirrors_def deviceLocked_def new_device_def)+
qed

lemma markAlive_mirrored:
  assumes "mirrored t" "ds_label d = ds_label (deviceLocked (ds_device d) t)"
  shows "mirrored (markAliveLocked False now d t)"
proof -
  let ?d = "d\<lparr>ds_fact := \<lparr>lv_online = True, lv_lastSeen = now, lv_lease = Some (now + tr_ttl t),
      lv_gen = lv_gen (ds_fact d) + 1\<rparr>\<rparr>"
  have "tr_devices (markAliveLocked False now d t) = AList.update (ds_device d) ?d (tr_devices t)"
    by (simp add: markAliveLocked_def Let_def endLeaseLocked_def) (cases "ds_fact d"; simp)
  then show ?thesis
    using assms(2) mirrored_known(2) [OF assms(1), of "ds_device d"]
    by (intro mirrored_put [OF assms(1), of _ "ds_device d" ?d])
      (simp_all add: markAliveLocked_def Let_def saveLiveness_def mirrors_def)
qed

lemma markOffline_mirrored:
  assumes "mirrored t" "ds_label d = ds_label (deviceLocked (ds_device d) t)"
  shows "mirrored (markOfflineLocked False seen d t)"
proof -
  let ?d = "d\<lparr>ds_fact := (ds_fact d)\<lparr>lv_online := False, lv_lastSeen := seen, lv_lease := None\<rparr>\<rparr>"
  have "tr_devices (markOfflineLocked False seen d t) = AList.update (ds_device d) ?d (tr_devices t)"
    by (simp add: markOfflineLocked_def Let_def endLeaseLocked_def)
  then show ?thesis
    using assms(2) mirrored_known(2) [OF assms(1), of "ds_device d"]
    by (intro mirrored_put [OF assms(1), of _ "ds_device d" ?d])
      (simp_all add: markOfflineLocked_def Let_def saveLiveness_def mirrors_def)
qed

lemma known_device:
  assumes "tracker_inv t" "map_of (tr_devices t) k = Some d"
  shows "ds_device d = k" "deviceLocked k t = d"
  using tracker_invD(3) [OF assms] assms(2) by (simp_all add: lease_ok_def deviceLocked_def)

lemma lost_mirrored:
  assumes "tracker_inv t" "mirrored t" shows "mirrored (ConnectionLost False now dev t)"
proof (cases "map_of (tr_devices t) dev")
  case (Some d)
  note kd = known_device [OF assms(1) Some]
  have "mirrored (put_device (d\<lparr>ds_conns := n\<rparr>) t)" for n
    by (rule mirrored_put [OF assms(2), of _ dev "d\<lparr>ds_conns := n\<rparr>"])
      (use mirrored_known [OF assms(2), of dev] kd Some in \<open>simp_all add: mirrors_def\<close>)
  moreover have "mirrored (markOfflineLocked False seen (d\<lparr>ds_conns := n\<rparr>) t)" for seen n
    by (rule markOffline_mirrored [OF assms(2)]) (use kd in simp)
  ultimately show ?thesis using assms(2) Some by (simp add: ConnectionLost_def Let_def)
qed (use assms in \<open>simp add: ConnectionLost_def\<close>)

lemma expire_mirrored:
  assumes "tracker_inv t" "mirrored t" shows "mirrored (presence_expire False dev gen t)"
proof (cases "map_of (tr_devices t) dev")
  case (Some d)
  note kd = known_device [OF assms(1) Some]
  have "mirrored (markOfflineLocked False seen d t)" for seen
    by (rule markOffline_mirrored [OF assms(2)]) (use kd in simp)
  then show ?thesis using assms(2) Some by (simp add: presence_expire_def)
qed (use assms in \<open>simp add: presence_expire_def\<close>)

lemma status_mirrored:
  assumes "tracker_inv t" "mirrored t" shows "mirrored (snd (SetStatus fails now dev txt t))"
proof -
  let ?t1 = "t\<lparr>tr_db_status := AList.update dev (txt, now) (tr_db_status t)\<rparr>"
  let ?d = "(deviceLocked dev t)\<lparr>ds_label := \<lparr>sl_text = txt, sl_updatedAt = now\<rparr>\<rparr>"
  have "deviceLocked dev ?t1 = deviceLocked dev t" by (simp add: deviceLocked_def)
  moreover have "mirrored (presence_notifyLocked ch (put_device ?d ?t1))" for ch
    using deviceLocked_lease_ok [OF assms(1), of dev] mirrored_known [OF assms(2), of dev]
    by (intro mirrored_put [OF assms(2), of _ dev ?d]) (simp_all add: lease_ok_def mirrors_def)
  ultimately show ?thesis using assms(2) by (simp add: SetStatus_def Let_def)
qed

lemma loaded_device:
  assumes "NewTracker ttl liv sts = Ok t" "wf_map liv" "wf_map sts"
  shows "mirrors (map_of (tr_devices t) k) (map_of liv k) (map_of sts k)"
    "map_of (tr_devices t) k = Some d \<Longrightarrow> ds_device d = k \<and> \<not> lv_online (ds_fact d)"
    "tr_db_liveness t = liv" "tr_db_status t = sts"
proof -
  let ?t0 = "\<lparr>tr_ttl = ttl, tr_devices = [], tr_subs = [], tr_closed = False, tr_watchers = [],
      tr_db_liveness = liv, tr_db_status = sts\<rparr>"
  let ?t1 = "fold (\<lambda>(device, seen) t. let d = deviceLocked device t
             in put_device (d\<lparr>ds_fact := (ds_fact d)\<lparr>lv_lastSeen := seen\<rparr>\<rparr>) t) liv ?t0"
  have new: "deviceLocked j ?t0 = new_device j" for j by (simp add: deviceLocked_def)
  have d1: "map_of (tr_devices ?t1) j = (case map_of liv j of None \<Rightarrow> None
      | Some s \<Rightarrow> Some ((new_device j)\<lparr>ds_fact := (ds_fact (new_device j))\<lparr>lv_lastSeen := s\<rparr>\<rparr>))" for j
    using load_liveness [OF assms(2), of ?t0 j] by (simp add: new split: option.split)
  have t: "t = fold (\<lambda>(device, text, updated) t. let d = deviceLocked device t
             in put_device (d\<lparr>ds_label := \<lparr>sl_text = text, sl_updatedAt = updated\<rparr>\<rparr>) t) sts ?t1"
    using assms(1) by (auto simp: NewTracker_def loadPersisted_def split: if_splits)
  have "ds_device e = j" if "map_of (tr_devices ?t1) j = Some e" for j e
    using that d1 [of j] by (auto simp: new_device_def split: option.splits)
  then have d2: "map_of (tr_devices t) j = (case map_of sts j of None \<Rightarrow> map_of (tr_devices ?t1) j
      | Some (s, u) \<Rightarrow> Some ((deviceLocked j ?t1)\<lparr>ds_label := \<lparr>sl_text = s, sl_updatedAt = u\<rparr>\<rparr>))" for j
    using load_status [OF assms(3), of ?t1 j] t by simp
  have dl: "deviceLocked j ?t1 = (case map_of liv j of None \<Rightarrow> new_device j
      | Some s \<Rightarrow> (new_device j)\<lparr>ds_fact := (ds_fact (new_device j))\<lparr>lv_lastSeen := s\<rparr>\<rparr>)" for j
    by (subst deviceLocked_def) (simp add: d1 split: option.split)
  show "mirrors (map_of (tr_devices t) k) (map_of liv k) (map_of sts k)"
    unfolding d2 [of k] d1 dl
    by (auto simp: mirrors_def new_device_def split: option.split)
  show "map_of (tr_devices t) k = Some d \<Longrightarrow> ds_device d = k \<and> \<not> lv_online (ds_fact d)"
    unfolding d2 [of k] d1 dl by (auto simp: new_device_def split: option.splits)
  have f1: "tr_db_liveness (fold (\<lambda>(device, seen) t. let d = deviceLocked device t
             in put_device (d\<lparr>ds_fact := (ds_fact d)\<lparr>lv_lastSeen := seen\<rparr>\<rparr>) t) xs a) = tr_db_liveness a
      \<and> tr_db_status (fold (\<lambda>(device, seen) t. let d = deviceLocked device t
             in put_device (d\<lparr>ds_fact := (ds_fact d)\<lparr>lv_lastSeen := seen\<rparr>\<rparr>) t) xs a) = tr_db_status a"
    for xs a by (induction xs arbitrary: a) (simp_all add: case_prod_beta Let_def)
  have f2: "tr_db_liveness (fold (\<lambda>(device, text, updated) t. let d = deviceLocked device t
             in put_device (d\<lparr>ds_label := \<lparr>sl_text = text, sl_updatedAt = updated\<rparr>\<rparr>) t) xs a) = tr_db_liveness a
      \<and> tr_db_status (fold (\<lambda>(device, text, updated) t. let d = deviceLocked device t
             in put_device (d\<lparr>ds_label := \<lparr>sl_text = text, sl_updatedAt = updated\<rparr>\<rparr>) t) xs a) = tr_db_status a"
    for xs a by (induction xs arbitrary: a) (simp_all add: case_prod_beta Let_def)
  show "tr_db_liveness t = liv" "tr_db_status t = sts" using f1 f2 t by simp_all
qed

lemma presence_reach_mirrored: "presence_reach False now t \<Longrightarrow> mirrored t"
proof (induction rule: presence_reach.induct)
  case (start ttl liv sts t now)
  then show ?case using loaded_device [OF start(1-3)] unfolding mirrored_def by simp
next
  case (beat now t fails dev)
  have "ds_device (deviceLocked dev t) = dev"
    using deviceLocked_lease_ok [OF presence_reach_inv [OF beat.hyps(1)]] by (simp add: lease_ok_def)
  then show ?case using beat markAlive_mirrored by (simp add: ObserveHeartbeat_def)
next
  case (conn now t fails dev)
  have "ds_device (deviceLocked dev t) = dev"
    using deviceLocked_lease_ok [OF presence_reach_inv [OF conn.hyps(1)]] by (simp add: lease_ok_def)
  then show ?case
    using conn markAlive_mirrored [OF conn.IH] by (simp add: ConnectionEstablished_def Let_def)
next
  case (lost now t fails dev)
  then show ?case using lost_mirrored [OF presence_reach_inv [OF lost.hyps(1)]] by simp
next
  case (fire now t fails w)
  then show ?case
    using expire_mirrored [OF presence_reach_inv [OF fire.hyps(1)]] by (simp add: presence_watch_def)
next
  case (relabel now t fails dev lab)
  then show ?case using status_mirrored [OF presence_reach_inv [OF relabel.hyps(1)]] by simp
next
  case (subscribe now t)
  then show ?case by (simp add: presence_Subscribe_def mirrored_def)
next
  case (unsubscribe now t i t')
  then show ?case by (auto simp: presence_sub_Close_def mirrored_def split: if_splits sum.splits)
next
  case (close now t)
  have "map_of (map (\<lambda>(k, d). (k, endLeaseLocked d)) xs) k = map_option endLeaseLocked (map_of xs k)"
    for xs :: "(string \<times> device_state) list" and k
    by (induction xs) auto
  moreover have "mirrors (map_option endLeaseLocked a) b c = mirrors a b c" for a b c
    by (cases a) (simp_all add: mirrors_def endLeaseLocked_def)
  ultimately show ?case using close by (simp add: presence_Close_def mirrored_def)
qed

definition entry_of :: "device_state \<Rightarrow> presence_entry" where
  "entry_of d = \<lparr>pe_Device = ds_device d, pe_Online = lv_online (ds_fact d),
     pe_LastSeen = lv_lastSeen (ds_fact d), pe_Status = sl_text (ds_label d)\<rparr>"

lemma Snapshot_entries:
  "presence_Snapshot t = sort_key pe_Device (map (\<lambda>(k, d). entry_of d) (tr_devices t))"
  by (simp add: presence_Snapshot_def entry_of_def)

lemma Snapshot_set:
  assumes "wf_map (tr_devices t)"
  shows "e \<in> set (presence_Snapshot t) \<longleftrightarrow> (\<exists>k d. map_of (tr_devices t) k = Some d \<and> e = entry_of d)"
  using assms by (force simp: Snapshot_entries wf_map_lookup [symmetric])

lemma Snapshot_distinct:
  assumes "wf_map (tr_devices t)" "\<And>k d. map_of (tr_devices t) k = Some d \<Longrightarrow> ds_device d = k"
  shows "distinct (map pe_Device (map (\<lambda>(k, d). entry_of d) (tr_devices t)))"
proof -
  have eq: "map pe_Device (map (\<lambda>(k, d). entry_of d) (tr_devices t)) = map fst (tr_devices t)"
    using assms by (auto simp: entry_of_def wf_map_lookup)
  show ?thesis using assms(1) unfolding eq by (simp add: wf_map_def)
qed

text \<open>
  Restart round trip: a tracker opened on the tables that a run without write
  failures left behind shows the same roster, device by device, with the same
  last-seen instants and labels, and with every device offline.
\<close>

theorem restart_preserves_roster:
  assumes "presence_reach False now t"
    and "NewTracker ttl (tr_db_liveness t) (tr_db_status t) = Ok t'"
  shows "presence_Snapshot t' = map (\<lambda>e. e\<lparr>pe_Online := False\<rparr>) (presence_Snapshot t)"
proof -
  have iv: "tracker_inv t" and mi: "mirrored t"
    using presence_reach_inv presence_reach_mirrored assms(1) by blast+
  have wf: "wf_map (tr_db_liveness t)" "wf_map (tr_db_status t)" using iv by (simp_all add: tracker_inv_def)
  note new = loaded_device [OF assms(2) wf]
  have "tracker_inv t'"
    using load_inv [OF _ wf] assms(2) by (auto simp: NewTracker_def split: if_splits)
  then have wf': "wf_map (tr_devices t')" by (simp add: tracker_inv_def)
  let ?off = "\<lambda>e :: presence_entry. e\<lparr>pe_Online := False\<rparr>"
  have r: "presence_Snapshot t' = sort_key pe_Device (map (\<lambda>(k, d). entry_of d) (tr_devices t'))"
    "map ?off (presence_Snapshot t) = sort_key pe_Device (map ?off (map (\<lambda>(k, d). entry_of d) (tr_devices t)))"
    by (simp add: Snapshot_entries) (unfold Snapshot_entries, rule map_sort_key, simp)
  have same: "map_option entry_of (map_of (tr_devices t') k) = map_option (?off \<circ> entry_of) (map_of (tr_devices t) k)" for k
  proof -
    have m: "mirrors (map_of (tr_devices t) k) (map_of (tr_db_liveness t) k) (map_of (tr_db_status t) k)"
      using mi unfolding mirrored_def by blast
    show ?thesis
    proof (cases "map_of (tr_devices t) k")
      case None
      then show ?thesis using m new(1) [of k] by (cases "map_of (tr_devices t') k") (simp_all add: mirrors_def)
    next
      case (Some d)
      with m new(1) [of k] obtain d' where d': "map_of (tr_devices t') k = Some d'"
        by (cases "map_of (tr_devices t') k") (simp_all add: mirrors_def)
      then show ?thesis
        using Some m new(1) [of k] new(2) [OF d'] known_device(1) [OF iv Some]
        by (simp add: mirrors_def entry_of_def)
    qed
  qed
  have "map ?off (map (\<lambda>(k, d). entry_of d) (tr_devices t)) = map (\<lambda>(k, d). (?off \<circ> entry_of) d) (tr_devices t)"
    by (simp add: split_beta)
  then have "set (map (\<lambda>(k, d). entry_of d) (tr_devices t')) = set (map ?off (map (\<lambda>(k, d). entry_of d) (tr_devices t)))"
    using map_values_iff [OF wf', of _ entry_of] same
      map_values_iff [OF tracker_invD(2) [OF iv], of _ "?off \<circ> entry_of"] by (auto simp only: set_eq_iff)
  moreover have "map pe_Device (map ?off xs) = map pe_Device xs" for xs by simp
  ultimately show ?thesis
    unfolding r using Snapshot_distinct [OF wf'] new(2) Snapshot_distinct [OF tracker_invD(2) [OF iv]]
      known_device(1) [OF iv]
    by (intro sort_key_cong_set) metis+
qed

theorem restart_preserves_roster_witness:
  "presence_Snapshot (loadPersisted (tr_db_liveness sample_beaten) (tr_db_status sample_beaten)
     \<lparr>tr_ttl = 30, tr_devices = [], tr_subs = [], tr_closed = False, tr_watchers = [],
      tr_db_liveness = tr_db_liveness sample_beaten, tr_db_status = tr_db_status sample_beaten\<rparr>) =
   map (\<lambda>e. e\<lparr>pe_Online := False\<rparr>) (presence_Snapshot sample_beaten)"
  by (rule restart_preserves_roster [OF sample_beaten_reach, of 30]) (simp add: NewTracker_def)

section \<open>Labels and subscriptions\<close>

text \<open>
  A status label never moves liveness: setting one changes no device's
  liveness fact, connection count or lease; it fails exactly on an oversized or
  ill-formed text, a closed tracker or a failed write, and then changes nothing;
  and on success the stored row and the label in memory are the new text.
\<close>

theorem status_is_not_liveness:
  assumes "tracker_inv t" "SetStatus fails now dev text t = (res, t')"
  shows "(\<forall>k. ds_fact (deviceLocked k t') = ds_fact (deviceLocked k t)
            \<and> ds_conns (deviceLocked k t') = ds_conns (deviceLocked k t))
       \<and> (res = Ok () \<longleftrightarrow> length text \<le> MaxStatusBytes \<and> ValidString text \<and> \<not> tr_closed t \<and> \<not> fails)
       \<and> (res \<noteq> Ok () \<longrightarrow> t' = t)
       \<and> (res = Ok () \<longrightarrow> map_of (tr_db_status t') dev = Some (text, now)
            \<and> sl_text (ds_label (deviceLocked dev t')) = text)"
proof -
  let ?ok = "length text \<le> MaxStatusBytes \<and> ValidString text \<and> \<not> tr_closed t \<and> \<not> fails"
  let ?t1 = "t\<lparr>tr_db_status := AList.update dev (text, now) (tr_db_status t)\<rparr>"
  let ?d = "(deviceLocked dev t)\<lparr>ds_label := \<lparr>sl_text = text, sl_updatedAt = now\<rparr>\<rparr>"
  have dd: "ds_device (deviceLocked dev t) = dev"
    using deviceLocked_lease_ok [OF assms(1)] by (simp add: lease_ok_def)
  have same: "deviceLocked dev ?t1 = deviceLocked dev t" by (simp add: deviceLocked_def)
  have dl: "deviceLocked k (presence_notifyLocked ch (put_device ?d ?t1)) =
      (if k = dev then ?d else deviceLocked k t)" for k ch
    using dd by (simp add: deviceLocked_def)
  show ?thesis
  proof (cases ?ok)
    case True
    then have "res = Ok ()" "t' = presence_notifyLocked (change_of ?d) (put_device ?d ?t1)"
      using assms(2) same by (simp_all add: SetStatus_def Let_def)
    then show ?thesis using True dl by simp
  next
    case False
    then show ?thesis using assms(2) by (auto simp: SetStatus_def Let_def split: if_splits)
  qed
qed

theorem status_is_not_liveness_witness:
  "ds_fact (deviceLocked ''ann'' (snd (SetStatus False 110 ''ann'' ''lunch'' sample_beaten)))
     = ds_fact (deviceLocked ''ann'' sample_beaten)"
  using status_is_not_liveness [OF presence_reach_inv [OF sample_beaten_reach] surjective_pairing]
  by blast

text \<open>
  A subscription taken on a closed tracker cannot be closed: its channel is
  already closed, and the subscriber's own \<^verbatim>\<open>Close\<close> closes it again and panics.
  On an open tracker a subscription is closed any number of times without one.
\<close>

theorem closed_tracker_subscription_panics:
  "case presence_Subscribe t of (i, t1) \<Rightarrow>
     (if tr_closed t then presence_sub_Close i t1 = Err ''close of closed channel''
      else (case presence_sub_Close i t1 of
              Inl _ \<Rightarrow> False
            | Inr t2 \<Rightarrow> presence_sub_Close i t2 = Ok t2))"
  by (simp add: presence_Subscribe_def presence_sub_Close_def sub_Close_def nth_append)

text \<open>
  A heartbeat of a device that is already online tells subscribers nothing: it
  renews the lease and the last-seen instant, and every subscription keeps the
  buffer it had.
\<close>

theorem heartbeat_refresh_is_silent:
  assumes "lv_online (ds_fact (deviceLocked dev t))" "\<not> tr_closed t"
  shows "tr_subs (ObserveHeartbeat fails now dev t) = tr_subs t \<and>
     lv_lastSeen (ds_fact (deviceLocked (ds_device (deviceLocked dev t)) (ObserveHeartbeat fails now dev t))) = now"
  using assms by (simp add: ObserveHeartbeat_def markAliveLocked_def Let_def endLeaseLocked_def)
    (simp add: deviceLocked_def saveLiveness_def put_device_def)

theorem heartbeat_refresh_is_silent_witness:
  "tr_subs (ObserveHeartbeat False 120 ''ann'' sample_beaten) = tr_subs sample_beaten"
  using heartbeat_refresh_is_silent [of "''ann''" sample_beaten False 120]
  by (simp add: sample_beaten_def ObserveHeartbeat_def markAliveLocked_def Let_def sample_tracker_def
      deviceLocked_def new_device_def endLeaseLocked_def)

end
