(* ===== verification/Roster.thy ===== *)
theory Roster
  imports PresenceProps
begin

text \<open>
  The client's roster (\<^verbatim>\<open>src/internal/presenceview/view.go\<close>) and the mapping of
  tracker changes onto the wire (\<^verbatim>\<open>src/internal/coordinator/presence.go\<close>), with the
  end-to-end convergence of the client's roster to the coordinator's.
\<close>

section \<open>Onto the wire (coordinator/presence.go)\<close>

definition presenceUpdateFields :: "string \<Rightarrow> bool \<Rightarrow> time \<Rightarrow> string \<Rightarrow> payload" where
  "presenceUpdateFields device online lastSeen status =
     PresenceUpdate device (if online then PRESENCE_ONLINE else PRESENCE_OFFLINE) status
       (if \<not> online \<and> \<not> IsZero lastSeen then Some lastSeen else None)"

definition presenceUpdateFromChange :: "presence_change \<Rightarrow> envelope" where
  "presenceUpdateFromChange ch =
     envelope_of (presenceUpdateFields (pc_Device ch) (pc_Online ch) (pc_LastSeen ch) (pc_Status ch))"

definition presenceUpdateEnvelope :: "presence_entry \<Rightarrow> envelope" where
  "presenceUpdateEnvelope e =
     envelope_of (presenceUpdateFields (pe_Device e) (pe_Online e) (pe_LastSeen e) (pe_Status e))"

text \<open>The frames the pump of the connection of \<open>self\<close> writes for a run of changes.\<close>

definition pumpPresence :: "string \<Rightarrow> presence_change list \<Rightarrow> envelope list" where
  "pumpPresence self chs =
     map presenceUpdateFromChange (filter (\<lambda>ch. pc_Device ch \<noteq> self) chs)"

section \<open>The client's view (presenceview/view.go)\<close>

record view_entry =
  ve_device :: string
  ve_online :: bool
  ve_lastSeen :: int
  ve_status :: string

record roster_sub =
  rs_buf :: "view_entry list"
  rs_registered :: bool
  rs_once :: bool

record roster_view =
  rv_entries :: "(string \<times> view_entry) list"
  rv_subs :: "roster_sub list"

definition roster_buffer :: nat where "roster_buffer = 32"

definition view_New :: roster_view where
  "view_New = \<lparr>rv_entries = [], rv_subs = []\<rparr>"

text \<open>Go's \<^verbatim>\<open>UnixNano\<close>: nanoseconds since 1970 as an \<^verbatim>\<open>int64\<close>.\<close>

definition unix_epoch :: time where "unix_epoch = 62135596800 * second"

definition UnixNano :: "time \<Rightarrow> int" where "UnixNano t = wrap64 (t - unix_epoch)"

definition roster_push :: "view_entry \<Rightarrow> roster_sub \<Rightarrow> roster_sub" where
  "roster_push d s = s\<lparr>rs_buf := nb_send roster_buffer d (rs_buf s)\<rparr>"

interpretation rsub: drop_newest roster_push rs_buf roster_buffer
  by unfold_locales (simp add: roster_push_def)

definition view_notifyLocked :: "view_entry \<Rightarrow> roster_view \<Rightarrow> roster_view" where
  "view_notifyLocked d v =
     v\<lparr>rv_subs := map (\<lambda>s. if rs_registered s then roster_push d s else s) (rv_subs v)\<rparr>"

definition zero_entry :: view_entry where
  "zero_entry = \<lparr>ve_device = '''', ve_online = False, ve_lastSeen = 0, ve_status = ''''\<rparr>"

definition view_entry_at :: "string \<Rightarrow> roster_view \<Rightarrow> view_entry" where
  "view_entry_at device v =
     (case map_of (rv_entries v) device of None \<Rightarrow> zero_entry | Some e \<Rightarrow> e)"

definition view_Apply :: "payload option \<Rightarrow> roster_view \<Rightarrow> roster_view" where
  "view_Apply pu v =
     (case pu of
        Some (PresenceUpdate device state status last_seen) \<Rightarrow>
          (if device = '''' then v
           else let old = view_entry_at device v;
                    e = old\<lparr>ve_device := device, ve_status := status\<rparr>;
                    e = (case state of
                           PRESENCE_ONLINE \<Rightarrow> e\<lparr>ve_online := True\<rparr>
                         | PRESENCE_OFFLINE \<Rightarrow>
                             (case last_seen of
                                None \<Rightarrow> e\<lparr>ve_online := False\<rparr>
                              | Some ts \<Rightarrow> e\<lparr>ve_online := False, ve_lastSeen := UnixNano ts\<rparr>)
                         | _ \<Rightarrow> e);
                    v1 = v\<lparr>rv_entries := AList.update device e (rv_entries v)\<rparr>
                in if old \<noteq> e then view_notifyLocked e v1 else v1)
      | _ \<Rightarrow> v)"

definition view_Snapshot :: "roster_view \<Rightarrow> view_entry list" where
  "view_Snapshot v = sort_key ve_device (map snd (rv_entries v))"

definition view_Subscribe :: "roster_view \<Rightarrow> nat \<times> roster_view" where
  "view_Subscribe v =
     (length (rv_subs v),
      v\<lparr>rv_subs := rv_subs v @ [\<lparr>rs_buf = [], rs_registered = True, rs_once = False\<rparr>]\<rparr>)"

definition view_sub_Close :: "nat \<Rightarrow> roster_view \<Rightarrow> roster_view" where
  "view_sub_Close i v =
     (if i < length (rv_subs v) \<and> \<not> rs_once (rv_subs v ! i)
      then v\<lparr>rv_subs := (rv_subs v)[i := (rv_subs v ! i)\<lparr>rs_registered := False, rs_once := True\<rparr>]\<rparr>
      else v)"

section \<open>Applying updates\<close>

lemma view_Apply_entries:
  "map_of (rv_entries (view_Apply (Some (PresenceUpdate device state status last_seen)) v)) k =
     (if device = '''' \<or> k \<noteq> device then map_of (rv_entries v) k
      else Some (let e = (view_entry_at device v)\<lparr>ve_device := device, ve_status := status\<rparr>
        in case state of
             PRESENCE_ONLINE \<Rightarrow> e\<lparr>ve_online := True\<rparr>
           | PRESENCE_OFFLINE \<Rightarrow>
               (case last_seen of None \<Rightarrow> e\<lparr>ve_online := False\<rparr>
                | Some ts \<Rightarrow> e\<lparr>ve_online := False, ve_lastSeen := UnixNano ts\<rparr>)
           | _ \<Rightarrow> e))"
  by (auto simp: view_Apply_def Let_def view_notifyLocked_def)

text \<open>
  Applying a presence update is idempotent: applying the same update again
  leaves every roster line as it is and notifies nobody.
\<close>

theorem roster_apply_idempotent:
  "view_Apply pu (view_Apply pu v) = view_Apply pu v"
proof (cases pu)
  case (Some p)
  show ?thesis
  proof (cases p)
    case (PresenceUpdate device state status last_seen)
    have up: "AList.update k e (AList.update k e m) = AList.update k e m" for k e and m :: "(string \<times> view_entry) list"
      by (induction m) auto
    show ?thesis
      by (cases "device = ''''")
        (simp_all add: view_Apply_def Some PresenceUpdate Let_def view_notifyLocked_def view_entry_at_def up
          split: presence_state.splits option.splits)
  qed (simp_all add: Some view_Apply_def)
qed (simp add: view_Apply_def)

text \<open>
  An update whose state this build does not know is not ignored: it keeps the
  liveness verdict and the last-seen value, but takes the label, and it creates
  an offline line for a device the roster did not know.
\<close>

theorem unknown_state_still_applies:
  assumes "device \<noteq> ''''" "state \<notin> {PRESENCE_ONLINE, PRESENCE_OFFLINE}"
  shows "\<exists>e. map_of (rv_entries (view_Apply (Some (PresenceUpdate device state status ls)) v)) device = Some e
      \<and> ve_status e = status \<and> ve_online e = ve_online (view_entry_at device v)
      \<and> ve_lastSeen e = ve_lastSeen (view_entry_at device v)"
  using assms by (cases state) (simp_all add: view_Apply_entries Let_def)

theorem unknown_state_still_applies_witness:
  "\<exists>e. map_of (rv_entries (view_Apply (Some (PresenceUpdate ''bob'' PRESENCE_UNSPECIFIED ''x'' None)) view_New))
     ''bob'' = Some e \<and> ve_status e = ''x'' \<and> \<not> ve_online e"
  using unknown_state_still_applies [of "''bob''" PRESENCE_UNSPECIFIED "''x''" None view_New]
  by (auto simp: view_entry_at_def zero_entry_def view_New_def)
section \<open>Convergence\<close>

text \<open>One tracker operation, with the time it happens at and whether its write fails.\<close>

datatype presence_op =
    PBeat bool time string
  | PConn bool time string
  | PLost bool time string
  | PFire bool time watcher
  | PStatus bool time string string

primrec presence_exec :: "presence_op \<Rightarrow> tracker \<Rightarrow> tracker" where
  "presence_exec (PBeat fails now dev) t = ObserveHeartbeat fails now dev t"
| "presence_exec (PConn fails now dev) t = ConnectionEstablished fails now dev t"
| "presence_exec (PLost fails now dev) t = ConnectionLost fails now dev t"
| "presence_exec (PFire fails now w) t = presence_watch fails now w t"
| "presence_exec (PStatus fails now dev text) t = snd (SetStatus fails now dev text t)"






definition apply_frames :: "envelope list \<Rightarrow> roster_view \<Rightarrow> roster_view" where
  "apply_frames fs v = fold (\<lambda>f. view_Apply (env_payload f)) fs v"












lemma fold_sub_push_registered [simp]: "ps_registered (fold sub_push chs s) = ps_registered s"
  by (induction chs arbitrary: s) (simp_all add: sub_push_def)




section \<open>The roster a new connection receives\<close>

text \<open>
  \<^verbatim>\<open>serveConn\<close> subscribes, starts the pump and then writes the snapshot it took;
  the pump and the snapshot loop are two goroutines that write to one
  connection, so the client receives some interleaving of the two sequences.
\<close>

definition connect_frames :: "presence_entry list \<Rightarrow> envelope list" where
  "connect_frames es = map presenceUpdateEnvelope es"

text \<open>
  Subscribing before taking the snapshot does not make the roster right: the
  device \<open>bob\<close> is online when the snapshot is taken and is lost before the
  snapshot loop has written his line, and the pump writes the loss first.  The
  frames are an interleaving of the two goroutines' writes, each in its own
  order, and after them the client's roster shows \<open>bob\<close> online although the
  tracker has him offline and will not announce him again.
\<close>

theorem snapshot_can_overwrite_newer_change:
  "\<exists>t t' snap chs frames.
     presence_reach False 100 t \<and> snap = presence_Snapshot t
     \<and> t' = presence_exec (PLost False 110 ''bob'') t
     \<and> chs = ps_buf (tr_subs t' ! 0) \<and> ps_buf (tr_subs t ! 0) = []
     \<and> frames \<in> shuffles (connect_frames snap) (pumpPresence ''me'' chs)
     \<and> ve_online (view_entry_at ''bob'' (apply_frames frames view_New))
     \<and> \<not> lv_online (ds_fact (deviceLocked ''bob'' t'))"
proof -
  let ?ta = "ConnectionEstablished False 100 ''bob'' sample_tracker"
  let ?t = "snd (presence_Subscribe ?ta)"
  let ?t' = "presence_exec (PLost False 110 ''bob'') ?t"
  let ?snap = "presence_Snapshot ?t"
  let ?chs = "ps_buf (tr_subs ?t' ! 0)"
  have "presence_reach False 100 ?ta"
    by (rule presence_reach.conn [OF sample_tracker_reach])
      (simp_all add: sample_tracker_def deviceLocked_def new_device_def)
  then have r: "presence_reach False 100 ?t" by (rule presence_reach.subscribe)
  note defs = presence_Subscribe_def sample_tracker_def ConnectionEstablished_def ConnectionLost_def
    deviceLocked_def new_device_def markAliveLocked_def markOfflineLocked_def Let_def endLeaseLocked_def
    put_device_def saveLiveness_def presence_notifyLocked_def sub_push_def nb_send_def subscriptionBuffer_def
    presence_Snapshot_def change_of_def
  have s: "?snap = [\<lparr>pe_Device = ''bob'', pe_Online = True, pe_LastSeen = 100, pe_Status = ''''\<rparr>]"
    by (simp add: defs)
  have c: "?chs = [\<lparr>pc_Device = ''bob'', pc_Online = False, pc_LastSeen = 110, pc_Status = ''''\<rparr>]"
    "ps_buf (tr_subs ?t ! 0) = []" "\<not> lv_online (ds_fact (deviceLocked ''bob'' ?t'))"
    by (simp_all add: defs)
  let ?frames = "pumpPresence ''me'' ?chs @ connect_frames ?snap"
  have "?frames \<in> shuffles (connect_frames ?snap) (pumpPresence ''me'' ?chs)"
    unfolding s c(1) by (simp add: connect_frames_def pumpPresence_def)
  moreover have "ve_online (view_entry_at ''bob'' (apply_frames ?frames view_New))"
    unfolding s c(1)
    by (simp add: connect_frames_def pumpPresence_def apply_frames_def presenceUpdateEnvelope_def
        presenceUpdateFromChange_def presenceUpdateFields_def view_entry_at_def view_Apply_entries
        view_New_def Let_def)
  ultimately show ?thesis using r c(2,3) by blast
qed

end
