(* ===== verification/App.thy ===== *)
theory App
  imports Client Outbox History Hub Roster
begin

text \<open>
  \<^verbatim>\<open>src/cmd/walkie/app.go\<close>: the assembled client.  The state is built from the components'
  own states.  The drain goroutine has the program counter \<open>ap_drain\<close>; calls of
  \<^verbatim>\<open>SendFromUI\<close> in progress are the list \<open>ap_ui\<close>, since the terminal and the control
  socket both call it.  \<open>ap_accepted\<close> is a history variable: the envelopes whose call
  returned success or \<^verbatim>\<open>held\<close>.
\<close>

section \<open>State\<close>

text \<open>The third-party code the client calls.\<close>

record platform =
  pf_prims :: prims
  pf_marshal :: "envelope \<Rightarrow> bytes option"
  pf_unmarshal :: "bytes \<Rightarrow> envelope option"

datatype drain_pc = DrainIdle | DrainRead | DrainSend "envelope list" | DrainRemove envelope "envelope list"

datatype ui_pc = UiSend envelope | UiHold envelope send_error

record app =
  ap_client :: client
  ap_box :: outbox
  ap_hist :: history
  ap_key :: "identity_key option"
  ap_presence :: roster_view
  ap_inbound :: "message list"
  ap_onFiled :: "message list option"
  ap_hub :: "hub option"
  ap_draining :: bool
  ap_spawned :: nat
  ap_drain :: drain_pc
  ap_ui :: "ui_pc list"
  ap_accepted :: "envelope list"

definition newApp :: "client \<Rightarrow> outbox \<Rightarrow> history \<Rightarrow> identity_key option \<Rightarrow> roster_view \<Rightarrow> app" where
  "newApp client box hist key presence =
     \<lparr>ap_client = client, ap_box = box, ap_hist = hist, ap_key = key, ap_presence = presence,
      ap_inbound = [], ap_onFiled = None, ap_hub = None, ap_draining = False, ap_spawned = 0,
      ap_drain = DrainIdle, ap_ui = [], ap_accepted = []\<rparr>"

definition inbound_buffer :: nat where "inbound_buffer = 64"

definition ConnectedAs :: "client \<Rightarrow> string" where "ConnectedAs c = cl_identity c"

definition SetOnFiled :: "app \<Rightarrow> app" where "SetOnFiled a = a\<lparr>ap_onFiled := Some []\<rparr>"

section \<open>Inbound (OnEnvelope)\<close>

definition app_notify :: "message \<Rightarrow> app \<Rightarrow> app" where
  "app_notify msg a = a\<lparr>ap_onFiled := map_option (\<lambda>calls. calls @ [msg]) (ap_onFiled a),
     ap_inbound := nb_send inbound_buffer msg (ap_inbound a)\<rparr>"

interpretation inbound: drop_newest app_notify ap_inbound inbound_buffer
  by unfold_locales (simp add: app_notify_def)

definition hubRef :: "app \<Rightarrow> (panic, hub option) result \<times> app" where
  "hubRef a =
     (case ap_hub a of
        Some h \<Rightarrow> (Ok (Some h), a)
      | None \<Rightarrow>
          (if ConnectedAs (ap_client a) = '''' then (Ok None, a)
           else case hub_New (ConnectedAs (ap_client a)) of
             Inl p \<Rightarrow> (Err p, a)
           | Inr h \<Rightarrow> (case UseIdentity (ap_key a) h of
                 Inl p \<Rightarrow> (Err p, a)
               | Inr h1 \<Rightarrow> (Ok (Some h1), a\<lparr>ap_hub := Some h1\<rparr>))))"

definition hubSource :: "app \<Rightarrow> hub option" where "hubSource a = ap_hub a"

definition is_sealed :: "envelope \<Rightarrow> bool" where
  "is_sealed env = (case env_payload env of Some (SealedDelivery c) \<Rightarrow> True | _ \<Rightarrow> False)"

definition file_history :: "(history_stmt \<Rightarrow> bool) \<Rightarrow> time \<Rightarrow> message \<Rightarrow> app \<Rightarrow> app" where
  "file_history fails now msg a =
     a\<lparr>ap_hist := snd (history_Append fails now (ConnectedAs (ap_client a)) msg (ap_hist a))\<rparr>"

definition OnEnvelope ::
  "platform \<Rightarrow> (history_stmt \<Rightarrow> bool) \<Rightarrow> time \<Rightarrow> bool \<Rightarrow> envelope \<Rightarrow> app \<Rightarrow> (panic, app) result" where
  "OnEnvelope pf fails now wire_ok env a =
     (case env_payload env of
        Some (PresenceUpdate d st l t) \<Rightarrow> Ok (a\<lparr>ap_presence := view_Apply (env_payload env) (ap_presence a)\<rparr>)
      | _ \<Rightarrow>
        (case hubRef a of
           (Inl p, a1) \<Rightarrow> Err p
         | (Inr None, a1) \<Rightarrow> Ok a1
         | (Inr (Some h), a1) \<Rightarrow>
             (case hub_Apply (pf_prims pf) (pf_unmarshal pf) (Some env) h of
                ((msg, shown), h1) \<Rightarrow>
                  (let a2 = a1\<lparr>ap_hub := Some h1\<rparr>;
                       a3 = (if is_sealed env
                             then a2\<lparr>ap_client := Acknowledge wire_ok (env_position env) (ap_client a2)\<rparr> else a2)
                   in Ok (if shown then app_notify msg (file_history fails now msg a3) else a3)))))"

section \<open>Online duties (WatchConn)\<close>

definition announceKey :: "bool \<Rightarrow> app \<Rightarrow> (panic, app) result" where
  "announceKey wire_ok a =
     (case ap_key a of
        None \<Rightarrow> Err (Panic ''nil pointer dereference'')
      | Some k \<Rightarrow> Ok (a\<lparr>ap_client := snd (client_Send wire_ok (envelope_of (PublicKeyAnnounce (ik_pub k))) (ap_client a))\<rparr>))"

text \<open>One iteration of the loop over the subscription; \<^verbatim>\<open>go a.drainOutbox()\<close> is a spawned
  goroutine that has not run yet.\<close>

definition WatchConn :: "bool \<Rightarrow> conn_change \<Rightarrow> app \<Rightarrow> (panic, app) result" where
  "WatchConn wire_ok ch a =
     (if cc_To ch \<noteq> StateOnline then Ok a
      else case announceKey wire_ok a of
        Inl p \<Rightarrow> Err p
      | Inr a1 \<Rightarrow> Ok (a1\<lparr>ap_spawned := ap_spawned a1 + 1\<rparr>))"

definition drain_return :: "app \<Rightarrow> app" where
  "drain_return a = a\<lparr>ap_draining := False, ap_drain := DrainIdle\<rparr>"

definition drain_enter :: "app \<Rightarrow> app" where
  "drain_enter a =
     (let a1 = a\<lparr>ap_spawned := ap_spawned a - 1\<rparr>
      in if ap_draining a then a1 else a1\<lparr>ap_draining := True, ap_drain := DrainRead\<rparr>)"

definition drainOutbox :: "platform \<Rightarrow> bool \<Rightarrow> bool \<Rightarrow> app \<Rightarrow> app" where
  "drainOutbox pf db_fails wire_ok a =
     (case ap_drain a of
        DrainIdle \<Rightarrow> a
      | DrainRead \<Rightarrow>
          (case outbox_Pending (pf_unmarshal pf) db_fails (ap_box a) of
             Inl e \<Rightarrow> drain_return a
           | Inr pending \<Rightarrow> a\<lparr>ap_drain := DrainSend pending\<rparr>)
      | DrainSend [] \<Rightarrow> drain_return a
      | DrainSend (env # rest) \<Rightarrow>
          (case client_Send wire_ok env (ap_client a) of
             (Inl e, c) \<Rightarrow> drain_return (a\<lparr>ap_client := c\<rparr>)
           | (Inr _, c) \<Rightarrow> a\<lparr>ap_client := c, ap_drain := DrainRemove env rest\<rparr>)
      | DrainRemove env rest \<Rightarrow>
          (case outbox_Remove db_fails (env_message_id env) (ap_box a) of
             (Inl e, b) \<Rightarrow> drain_return (a\<lparr>ap_box := b\<rparr>)
           | (Inr _, b) \<Rightarrow> a\<lparr>ap_box := b, ap_drain := DrainSend rest\<rparr>))"

section \<open>Composing (SendFromUI)\<close>

datatype ui_error = UiPanic panic | NotConnectedYet | Refused hub_error | HeldOffline
  | SendAndHoldFailed send_error outbox_error

definition TrimPrefix :: "string \<Rightarrow> string \<Rightarrow> string" where
  "TrimPrefix s pre = (if take (length pre) s = pre then drop (length pre) s else s)"

text \<open>Up to the transmission: compose, file for display and history, notify.\<close>

definition ui_file ::
  "(history_stmt \<Rightarrow> bool) \<Rightarrow> time \<Rightarrow> string \<Rightarrow> string \<Rightarrow> string \<Rightarrow> app \<Rightarrow> (ui_error, envelope) result \<times> app" where
  "ui_file fails now ident conversation body a =
     (case hubRef a of
        (Inl p, a1) \<Rightarrow> (Err (UiPanic p), a1)
      | (Inr None, a1) \<Rightarrow> (Err NotConnectedYet, a1)
      | (Inr (Some h), a1) \<Rightarrow>
          (case (if conversation = BroadcastConversation then SendBroadcast ident now body h
                 else SendDirect ident now (TrimPrefix conversation ''dm:'') body h) of
             (Inl e, h1) \<Rightarrow> (Err (Refused e), a1\<lparr>ap_hub := Some h1\<rparr>)
           | (Inr env, h1) \<Rightarrow>
               (let filed = \<lparr>msg_ID = env_message_id env, msg_Sender = ConnectedAs (ap_client a1),
                      msg_Recipient = (case env_payload env of Some (DirectMessage r b s) \<Rightarrow> r | _ \<Rightarrow> ''''),
                      msg_Body = body,
                      msg_SentAt = (case env_sent_at env of Some t \<Rightarrow> t | None \<Rightarrow> unix_epoch),
                      msg_ReceivedAt = zero_time\<rparr>
                in (Ok env, app_notify filed (file_history fails now filed (a1\<lparr>ap_hub := Some h1\<rparr>))))))"

definition ui_transmit :: "bool \<Rightarrow> envelope \<Rightarrow> app \<Rightarrow> (send_error, unit) result \<times> app" where
  "ui_transmit wire_ok env a =
     (case client_Send wire_ok env (ap_client a) of (r, c) \<Rightarrow> (r, a\<lparr>ap_client := c\<rparr>))"

definition ui_hold ::
  "platform \<Rightarrow> bool \<Rightarrow> time \<Rightarrow> envelope \<Rightarrow> send_error \<Rightarrow> app \<Rightarrow> (ui_error, unit) result \<times> app" where
  "ui_hold pf db_fails now env err a =
     (case outbox_Enqueue (pf_marshal pf) db_fails now env (ap_box a) of
        (Inl qerr, b) \<Rightarrow> (Err (SendAndHoldFailed err qerr), a\<lparr>ap_box := b\<rparr>)
      | (Inr _, b) \<Rightarrow> (Err HeldOffline, a\<lparr>ap_box := b\<rparr>))"

definition SendFromUI ::
  "platform \<Rightarrow> (history_stmt \<Rightarrow> bool) \<Rightarrow> bool \<Rightarrow> bool \<Rightarrow> time \<Rightarrow> string \<Rightarrow> string \<Rightarrow> string \<Rightarrow> app \<Rightarrow>
     (ui_error, unit) result \<times> app" where
  "SendFromUI pf fails db_fails wire_ok now ident conversation body a =
     (case ui_file fails now ident conversation body a of
        (Inl e, a1) \<Rightarrow> (Err e, a1)
      | (Inr env, a1) \<Rightarrow>
          (case ui_transmit wire_ok env a1 of
             (Inl e, a2) \<Rightarrow> ui_hold pf db_fails now env e a2
           | (Inr _, a2) \<Rightarrow> (Ok (), a2)))"

section \<open>Interleavings\<close>

text \<open>The steps of the assembled client's goroutines: the read loop, the watcher of the
  connection, the drain, the calls of \<^verbatim>\<open>SendFromUI\<close> at their three stages, the
  supervisor's own steps.\<close>

inductive app_step :: "platform \<Rightarrow> app \<Rightarrow> app \<Rightarrow> bool" for pf :: platform where
  receive: "OnEnvelope pf fails now ok env a = Ok a' \<Longrightarrow> app_step pf a a'"
| watch: "WatchConn ok ch a = Ok a' \<Longrightarrow> app_step pf a a'"
| drain_start: "0 < ap_spawned a \<Longrightarrow> app_step pf a (drain_enter a)"
| drain: "app_step pf a (drainOutbox pf db_fails ok a)"
| compose: "ui_file fails now ident conversation body a = (Ok env, a1) \<Longrightarrow>
    app_step pf a (a1\<lparr>ap_ui := UiSend env # ap_ui a1\<rparr>)"
| refuse: "ui_file fails now ident conversation body a = (Err e, a1) \<Longrightarrow> app_step pf a a1"
| transmitted: "ap_ui a = us @ UiSend env # vs \<Longrightarrow> ui_transmit ok env a = (Ok (), a1) \<Longrightarrow>
    app_step pf a (a1\<lparr>ap_ui := us @ vs, ap_accepted := ap_accepted a1 @ [env]\<rparr>)"
| not_transmitted: "ap_ui a = us @ UiSend env # vs \<Longrightarrow> ui_transmit ok env a = (Err e, a1) \<Longrightarrow>
    app_step pf a (a1\<lparr>ap_ui := us @ UiHold env e # vs\<rparr>)"
| holding: "ap_ui a = us @ UiHold env e # vs \<Longrightarrow> ui_hold pf db_fails now env e a = (Err HeldOffline, a1) \<Longrightarrow>
    app_step pf a (a1\<lparr>ap_ui := us @ vs, ap_accepted := ap_accepted a1 @ [env]\<rparr>)"
| not_held: "ap_ui a = us @ UiHold env e # vs \<Longrightarrow> ui_hold pf db_fails now env e a = (Err err, a1) \<Longrightarrow> err \<noteq> HeldOffline \<Longrightarrow>
    app_step pf a (a1\<lparr>ap_ui := us @ vs\<rparr>)"
| connection: "client_step timely (ap_client a) c \<Longrightarrow> app_step pf a (a\<lparr>ap_client := c\<rparr>)"

inductive app_reach :: "platform \<Rightarrow> app \<Rightarrow> app \<Rightarrow> bool" for pf :: platform where
  app_here: "app_reach pf a a"
| app_next: "app_reach pf a a1 \<Longrightarrow> app_step pf a1 a2 \<Longrightarrow> app_reach pf a a2"

end
