(* ===== verification/AppProps.thy ===== *)
theory AppProps
  imports App
begin

text \<open>
  Properties of the assembled client (\<^verbatim>\<open>src/cmd/walkie/app.go\<close>): what a composed message can
  count on under every interleaving of the client's goroutines, the order of a
  drain, and the acknowledgement of queued deliveries.
\<close>

section \<open>The wire only grows\<close>

definition on_wire :: "client \<Rightarrow> envelope set" where "on_wire c = snd ` set (cl_sent c)"

lemma client_Send_sent: "set (cl_sent c) \<subseteq> set (cl_sent (snd (client_Send ok env c)))"
  by (auto simp: client_Send_def split: option.split)

lemma Acknowledge_sent: "set (cl_sent c) \<subseteq> set (cl_sent (Acknowledge ok pos c))"
  by (auto simp: Acknowledge_def client_Send_def split: option.split)

lemma client_Transition_sent [simp]: "cl_sent (snd (client_Transition s r c)) = cl_sent c"
  by (simp add: client_Transition_def split: prod.split)

lemma client_Transition_sentD: "client_Transition s r c = (x, c1) \<Longrightarrow> cl_sent c1 = cl_sent c"
  using client_Transition_sent [of s r c] by simp

lemmas client_sent_defs =
  run_top_def run_failed_def run_dialed_def handshake_failed_def handshake_reply_def run_online_def
  serve_start_def serve_done_def serve_hint_def read_frame_def read_error_def verdict_step_def
  teardownSession_def clearSession_def clearInflight_def client_close_def update_wd_def enter_backoff_def
  stop_step_def Let_def

lemma client_step_sent: "client_step timely c c' \<Longrightarrow> set (cl_sent c) \<subseteq> set (cl_sent c')"
proof (induction rule: client_step.induct)
  case (send ok env c r c')
  then show ?case using client_Send_sent [of c ok env] by simp
qed (auto simp: client_sent_defs Acknowledge_sent [THEN subsetD]
    dest!: client_Transition_sentD
    split: prod.splits transition_result.splits option.splits sum.splits payload.splits verdict.splits stop_pc.splits)

section \<open>A composed message is held or sent\<close>

definition codec_ok :: "platform \<Rightarrow> bool" where
  "codec_ok pf \<longleftrightarrow> (\<forall>e b. pf_marshal pf e = Some b \<longrightarrow> pf_unmarshal pf b = Some e)"

abbreviation app_held :: "platform \<Rightarrow> app \<Rightarrow> envelope list" where
  "app_held pf a \<equiv> held (pf_unmarshal pf) (ap_box a)"

text \<open>What the drain still has to do is the front of the hold; the message between its
  transmission and its removal is on the wire.\<close>

definition drain_ok :: "drain_pc \<Rightarrow> envelope list \<Rightarrow> envelope set \<Rightarrow> bool" where
  "drain_ok pc hold wire = (case pc of
      DrainSend pending \<Rightarrow> \<exists>newer. hold = pending @ newer
    | DrainRemove env pending \<Rightarrow> (\<exists>newer. hold = env # pending @ newer) \<and> env \<in> wire
    | _ \<Rightarrow> True)"

definition app_inv :: "platform \<Rightarrow> app \<Rightarrow> bool" where
  "app_inv pf a \<longleftrightarrow> outbox_inv (pf_unmarshal pf) (ap_box a)
     \<and> set (ap_accepted a) \<subseteq> set (app_held pf a) \<union> on_wire (ap_client a)
     \<and> drain_ok (ap_drain a) (app_held pf a) (on_wire (ap_client a))"

lemma drain_ok_mono: "drain_ok pc hold wire \<Longrightarrow> wire \<subseteq> wire' \<Longrightarrow> drain_ok pc hold wire'"
  by (auto simp: drain_ok_def split: drain_pc.splits)

lemma app_inv_frame:
  assumes "app_inv pf a" "ap_box a' = ap_box a" "ap_accepted a' = ap_accepted a" "ap_drain a' = ap_drain a"
    and "set (cl_sent (ap_client a)) \<subseteq> set (cl_sent (ap_client a'))"
  shows "app_inv pf a'"
proof -
  have "on_wire (ap_client a) \<subseteq> on_wire (ap_client a')" using assms(5) by (auto simp: on_wire_def)
  then show ?thesis using assms(1-4) drain_ok_mono by (auto simp: app_inv_def)
qed

lemma app_notify_frame [simp]:
  "ap_box (app_notify m a) = ap_box a" "ap_accepted (app_notify m a) = ap_accepted a"
  "ap_drain (app_notify m a) = ap_drain a" "ap_client (app_notify m a) = ap_client a" "ap_hub (app_notify m a) = ap_hub a"
  "ap_hist (app_notify m a) = ap_hist a" "ap_draining (app_notify m a) = ap_draining a"
  by (simp_all add: app_notify_def)

lemma file_history_frame [simp]:
  "ap_box (file_history f now m a) = ap_box a" "ap_accepted (file_history f now m a) = ap_accepted a"
  "ap_drain (file_history f now m a) = ap_drain a" "ap_client (file_history f now m a) = ap_client a"
  "ap_hub (file_history f now m a) = ap_hub a" "ap_draining (file_history f now m a) = ap_draining a"
  by (simp_all add: file_history_def)

lemma hubRef_frame:
  assumes "hubRef a = (r, a1)"
  shows "ap_box a1 = ap_box a \<and> ap_accepted a1 = ap_accepted a \<and> ap_drain a1 = ap_drain a \<and> ap_client a1 = ap_client a
       \<and> ap_draining a1 = ap_draining a"
  using assms by (auto simp: hubRef_def split: option.splits if_splits sum.splits)

lemma OnEnvelope_cases:
  assumes "OnEnvelope pf fails now ok env a = Ok a'"
  obtains (presence) v where "a' = a\<lparr>ap_presence := v\<rparr>" "\<not> is_sealed env"
  | (no_hub) "hubRef a = (Ok None, a')"
  | (applied) h a1 msg shown h1 where "hubRef a = (Ok (Some h), a1)"
      "hub_Apply (pf_prims pf) (pf_unmarshal pf) (Some env) h = ((msg, shown), h1)"
      "a' = (let a3 = (if is_sealed env
               then a1\<lparr>ap_hub := Some h1, ap_client := Acknowledge ok (env_position env) (ap_client a1)\<rparr>
               else a1\<lparr>ap_hub := Some h1\<rparr>)
             in if shown then app_notify msg (file_history fails now msg a3) else a3)"
proof (cases "\<exists>d st l t. env_payload env = Some (PresenceUpdate d st l t)")
  case True
  then show thesis using assms presence by (auto simp: OnEnvelope_def is_sealed_def)
next
  case False
  then have b: "OnEnvelope pf fails now ok env a = (case hubRef a of
           (Inl p, a1) \<Rightarrow> Err p
         | (Inr None, a1) \<Rightarrow> Ok a1
         | (Inr (Some h), a1) \<Rightarrow>
             (case hub_Apply (pf_prims pf) (pf_unmarshal pf) (Some env) h of
                ((msg, shown), h1) \<Rightarrow>
                  (let a2 = a1\<lparr>ap_hub := Some h1\<rparr>;
                       a3 = (if is_sealed env
                             then a2\<lparr>ap_client := Acknowledge ok (env_position env) (ap_client a2)\<rparr> else a2)
                   in Ok (if shown then app_notify msg (file_history fails now msg a3) else a3))))"
    unfolding OnEnvelope_def by (cases "env_payload env") (simp_all split: payload.split)
  obtain r a1 where r: "hubRef a = (r, a1)" by fastforce
  obtain o1 where o1: "r = Ok o1" using assms b r by (cases r) simp_all
  show thesis
  proof (cases o1)
    case None
    then show thesis using assms b r o1 no_hub by simp
  next
    case (Some h)
    obtain msg shown h1 where m: "hub_Apply (pf_prims pf) (pf_unmarshal pf) (Some env) h = ((msg, shown), h1)"
      by (metis prod.collapse)
    show thesis using applied [OF _ m, of a1] assms b r o1 Some m by (simp add: Let_def split: if_splits)
  qed
qed

lemma OnEnvelope_frame:
  assumes "OnEnvelope pf fails now ok env a = Ok a'"
  shows "ap_box a' = ap_box a \<and> ap_accepted a' = ap_accepted a \<and> ap_drain a' = ap_drain a
       \<and> set (cl_sent (ap_client a)) \<subseteq> set (cl_sent (ap_client a'))"
  using assms
proof (cases rule: OnEnvelope_cases)
  case no_hub
  then show ?thesis using hubRef_frame by auto
next
  case (applied h a1 msg shown h1)
  then show ?thesis using hubRef_frame [OF applied(1)] Acknowledge_sent [of "ap_client a" ok "env_position env"]
    by (auto simp: Let_def)
qed simp

lemma WatchConn_frame:
  assumes "WatchConn ok ch a = Ok a'"
  shows "ap_box a' = ap_box a \<and> ap_accepted a' = ap_accepted a \<and> ap_drain a' = ap_drain a
       \<and> set (cl_sent (ap_client a)) \<subseteq> set (cl_sent (ap_client a'))"
  using assms subsetD [OF client_Send_sent [of "ap_client a" ok]]
  by (auto simp: WatchConn_def announceKey_def split: option.splits sum.splits if_splits)

lemma ui_file_frame:
  assumes "ui_file fails now ident conv body a = (r, a')"
  shows "ap_box a' = ap_box a \<and> ap_accepted a' = ap_accepted a \<and> ap_drain a' = ap_drain a \<and> ap_client a' = ap_client a
       \<and> ap_draining a' = ap_draining a"
proof -
  obtain r1 a1 where h: "hubRef a = (r1, a1)" by fastforce
  show ?thesis
  proof (cases "\<exists>h. r1 = Ok (Some h)")
    case True
    then obtain h0 where r1: "r1 = Ok (Some h0)" ..
    obtain s h1 where s: "(if conv = BroadcastConversation then SendBroadcast ident now body h0
        else SendDirect ident now (TrimPrefix conv ''dm:'') body h0) = (s, h1)" by fastforce
    show ?thesis using assms hubRef_frame [OF h] unfolding ui_file_def h r1
      by (cases s) (auto simp: s Let_def)
  next
    case False
    then show ?thesis using assms hubRef_frame [OF h]
      by (cases r1) (auto simp: ui_file_def h split: option.splits)
  qed
qed

lemma client_Send_Ok: "client_Send ok env c = (Ok (), c') \<Longrightarrow> on_wire c' = insert env (on_wire c)"
  by (auto simp: client_Send_def on_wire_def split: option.splits if_splits)

lemma client_Send_Err: "client_Send ok env c = (Err e, c') \<Longrightarrow> c' = c"
  by (auto simp: client_Send_def split: option.splits if_splits)

lemma drainOutbox_inv:
  assumes inv: "app_inv pf a" shows "app_inv pf (drainOutbox pf db_fails ok a)"
proof (cases "ap_drain a")
  case DrainRead
  then show ?thesis using inv Pending_held [of "pf_unmarshal pf" "ap_box a"]
    by (cases db_fails) (auto simp: drainOutbox_def app_inv_def drain_return_def drain_ok_def outbox_Pending_def)
next
  case (DrainSend pending)
  show ?thesis
  proof (cases pending)
    case (Cons env rest)
    obtain r c where rc: "client_Send ok env (ap_client a) = (r, c)" by fastforce
    then show ?thesis using inv DrainSend Cons client_Send_Ok [of ok env "ap_client a" c] client_Send_Err [of ok env "ap_client a"]
      by (cases r) (auto simp: drainOutbox_def app_inv_def drain_return_def drain_ok_def)
  qed (use inv DrainSend in \<open>auto simp: drainOutbox_def app_inv_def drain_return_def drain_ok_def\<close>)
next
  case (DrainRemove env rest)
  then obtain newer where h: "app_held pf a = env # rest @ newer" and w: "env \<in> on_wire (ap_client a)"
    using inv by (auto simp: app_inv_def drain_ok_def)
  let ?b = "snd (outbox_Remove False (env_message_id env) (ap_box a))"
  have b: "outbox_inv (pf_unmarshal pf) (ap_box a)" using inv by (simp add: app_inv_def)
  have "held (pf_unmarshal pf) ?b = rest @ newer" by (rule ob.remove_head [OF b h])
  moreover have "outbox_inv (pf_unmarshal pf) ?b" by (rule ob.inv_remove [OF b])
  moreover have "drainOutbox pf db_fails ok a =
      (if db_fails then drain_return a else a\<lparr>ap_box := ?b, ap_drain := DrainSend rest\<rparr>)"
    using DrainRemove by (simp add: drainOutbox_def outbox_Remove_def)
  ultimately show ?thesis using inv h w by (auto simp: app_inv_def drain_return_def drain_ok_def)
qed (use inv in \<open>simp add: drainOutbox_def\<close>)

lemma drain_ok_grow: "drain_ok pc hold wire \<Longrightarrow> drain_ok pc (hold @ newer) wire"
  by (auto simp: drain_ok_def split: drain_pc.splits)

lemma ui_hold_inv:
  assumes "codec_ok pf" "app_inv pf a" "ui_hold pf db_fails now env e a = (r, a')"
  shows "app_inv pf a' \<and> (r = Err HeldOffline \<longrightarrow> env \<in> set (app_held pf a'))"
proof -
  obtain q b where qb: "outbox_Enqueue (pf_marshal pf) db_fails now env (ap_box a) = (q, b)" by fastforce
  have codec: "pf_marshal pf e = Some b \<Longrightarrow> pf_unmarshal pf b = Some e" for e b using assms(1) by (simp add: codec_ok_def)
  have i: "outbox_inv (pf_unmarshal pf) (ap_box a)" using assms(2) by (simp add: app_inv_def)
  have b: "outbox_inv (pf_unmarshal pf) b" using Enqueue_inv [where marshal = "pf_marshal pf", OF i codec] qb by (metis snd_conv)
  show ?thesis
  proof (cases q)
    case (Inl x)
    then have "b = ap_box a" using qb by (auto simp: outbox_Enqueue_def split: if_splits option.splits)
    then show ?thesis using assms(2,3) qb Inl by (auto simp: ui_hold_def app_inv_def)
  next
    case (Inr u)
    then have "held (pf_unmarshal pf) b = app_held pf a @ [env]"
      using Enqueue_held [where marshal = "pf_marshal pf" and unmarshal = "pf_unmarshal pf", OF _ codec] qb by simp
    then show ?thesis using assms(2,3) qb Inr b drain_ok_grow by (auto simp: ui_hold_def app_inv_def)
  qed
qed

lemma app_step_inv:
  assumes "codec_ok pf" "app_step pf a a'" "app_inv pf a" shows "app_inv pf a'"
  using assms(2,3)
proof (induction rule: app_step.induct)
  case (receive fails now ok env a a')
  then show ?case using OnEnvelope_frame app_inv_frame by blast
next
  case (watch ok ch a a')
  then show ?case using WatchConn_frame app_inv_frame by blast
next
  case (drain_start a)
  have "drain_ok DrainRead hold wire" for hold wire by (simp add: drain_ok_def)
  then show ?case using drain_start by (cases "ap_draining a") (simp_all add: drain_enter_def app_inv_def)
next
  case (drain a db_fails ok)
  then show ?case by (rule drainOutbox_inv)
next
  case (compose fails now ident conversation body a env a1)
  then have "app_inv pf a1" using ui_file_frame app_inv_frame by (metis order_refl)
  then show ?case by (simp add: app_inv_def)
next
  case (refuse fails now ident conversation body a e a1)
  then show ?case using ui_file_frame app_inv_frame by (metis order_refl)
next
  case (transmitted a us env vs ok a1)
  obtain c where c: "client_Send ok env (ap_client a) = (Ok (), c)" "a1 = a\<lparr>ap_client := c\<rparr>"
    using transmitted(2) by (auto simp: ui_transmit_def split: prod.splits)
  then show ?case using transmitted(3) client_Send_Ok [OF c(1)]
      drain_ok_mono [of _ _ "on_wire (ap_client a)" "on_wire c"] by (auto simp: app_inv_def)
next
  case (not_transmitted a us env vs ok e a1)
  obtain c where c: "client_Send ok env (ap_client a) = (Err e, c)" "a1 = a\<lparr>ap_client := c\<rparr>"
    using not_transmitted(2) by (auto simp: ui_transmit_def split: prod.splits)
  then have "a1 = a" using client_Send_Err by fastforce
  then show ?case using not_transmitted(3) by (simp add: app_inv_def)
next
  case (holding a us env e vs db_fails now a1)
  then show ?case using ui_hold_inv [OF assms(1) holding(3,2)] by (auto simp: app_inv_def)
next
  case (not_held a us env e vs db_fails now err a1)
  then show ?case using ui_hold_inv [OF assms(1) not_held(4,2)] by (auto simp: app_inv_def)
next
  case (connection timely a c)
  then show ?case using client_step_sent [OF connection(1)] by (intro app_inv_frame [OF connection(2)]) simp_all
qed

text \<open>
  C3. No accepted message is lost on the client: under every interleaving of the
  read loop, the connection supervisor, the drain and any number of concurrent
  composers, with any database statement or write failing at any time, a message
  whose send was answered with success or with the promise to hold it is, in
  every state reached from then on, in the durable hold or was handed to the
  transport; the drain removes nothing it has not sent.
\<close>

theorem accepted_messages_are_held_or_sent:
  assumes "codec_ok pf" "outbox_inv (pf_unmarshal pf) box"
    and "app_reach pf (newApp client box hist key presence) a"
  shows "set (ap_accepted a) \<subseteq> set (app_held pf a) \<union> on_wire (ap_client a) \<and> app_inv pf a"
proof -
  have "app_inv pf (newApp client box hist key presence)"
    using assms(2) by (simp add: app_inv_def newApp_def drain_ok_def)
  with assms(3) have "app_inv pf a"
    by (induction rule: app_reach.induct) (auto intro: app_step_inv [OF assms(1)])
  then show ?thesis by (simp add: app_inv_def)
qed

section \<open>The order of a drain\<close>

text \<open>A drain running alone, each of its steps with the failures of a schedule.\<close>

abbreviation drain_run :: "platform \<Rightarrow> (bool \<times> bool) list \<Rightarrow> app \<Rightarrow> app" where
  "drain_run pf sched a \<equiv> fold (\<lambda>(db_fails, ok). drainOutbox pf db_fails ok) sched a"

definition drain_rel :: "platform \<Rightarrow> nat \<Rightarrow> (nat \<times> envelope) list \<Rightarrow> envelope list \<Rightarrow> nat \<Rightarrow> app \<Rightarrow> bool" where
  "drain_rel pf s sent hold k a \<longleftrightarrow>
     outbox_inv (pf_unmarshal pf) (ap_box a) \<and> cl_sess (ap_client a) = Some s \<and> k \<le> length hold
     \<and> cl_sent (ap_client a) = sent @ map (Pair s) (take k hold)
     \<and> (case ap_drain a of
          DrainRead \<Rightarrow> k = 0 \<and> app_held pf a = hold
        | DrainSend pending \<Rightarrow> pending = drop k hold \<and> app_held pf a = drop k hold
        | DrainRemove env pending \<Rightarrow> 0 < k \<and> env # pending = drop (k - 1) hold \<and> app_held pf a = drop (k - 1) hold
        | DrainIdle \<Rightarrow> app_held pf a \<in> {drop k hold, drop (k - 1) hold})"

definition drain_left :: "app \<Rightarrow> envelope list \<Rightarrow> nat" where
  "drain_left a hold = (case ap_drain a of
      DrainIdle \<Rightarrow> 0 | DrainRead \<Rightarrow> 2 * length hold + 2 | DrainSend p \<Rightarrow> 2 * length p + 1
    | DrainRemove e p \<Rightarrow> 2 * length p + 2)"

text \<open>One step of the drain keeps the relation; without failures it makes progress and
  goes idle only when everything is sent and removed.\<close>

lemma drain_rel_step:
  assumes "drain_rel pf s sent hold k a"
  shows "\<exists>k'. drain_rel pf s sent hold k' (drainOutbox pf d ok a)
       \<and> (\<not> d \<and> ok \<and> ap_drain a \<noteq> DrainIdle \<longrightarrow> drain_left a hold = Suc (drain_left (drainOutbox pf d ok a) hold)
            \<and> (ap_drain (drainOutbox pf d ok a) = DrainIdle \<longrightarrow> k' = length hold \<and> app_held pf (drainOutbox pf d ok a) = []
                 \<and> \<not> ap_draining (drainOutbox pf d ok a)))"
proof (cases "ap_drain a")
  case DrainIdle
  then show ?thesis using assms by (intro exI [of _ k]) (simp add: drainOutbox_def)
next
  case DrainRead
  then have r: "k = 0" "app_held pf a = hold" and i: "outbox_inv (pf_unmarshal pf) (ap_box a)"
    using assms by (simp_all add: drain_rel_def)
  have "drainOutbox pf d ok a = (if d then drain_return a else a\<lparr>ap_drain := DrainSend hold\<rparr>)"
    using DrainRead Pending_held [OF i] r by (simp add: drainOutbox_def outbox_Pending_def)
  note eq = this
  show ?thesis unfolding eq using assms DrainRead r
    by (intro exI [of _ 0]) (simp add: drain_rel_def drain_return_def drain_left_def)
next
  case (DrainSend pending)
  then have p: "pending = drop k hold" "app_held pf a = drop k hold" and k: "k \<le> length hold"
    and s: "cl_sess (ap_client a) = Some s"
    using assms by (simp_all add: drain_rel_def)
  show ?thesis
  proof (cases pending)
    case Nil
    then have "drainOutbox pf d ok a = drain_return a" using DrainSend by (simp add: drainOutbox_def)
    note eq = this
    show ?thesis unfolding eq using assms DrainSend p k Nil
      by (intro exI [of _ k]) (simp add: drain_rel_def drain_return_def drain_left_def)
  next
    case (Cons env rest)
    then have lt: "k < length hold" "hold ! k = env" "drop (Suc k) hold = rest" using p k
      by (metis drop_eq_Nil le_neq_implies_less list.distinct(1) linorder_not_le,
          metis nth_via_drop, metis drop_Suc list.sel(3) tl_drop)
    have eq: "drainOutbox pf d ok a = (if ok then a\<lparr>ap_client := (ap_client a)\<lparr>cl_sent := cl_sent (ap_client a) @ [(s, env)]\<rparr>,
        ap_drain := DrainRemove env rest\<rparr> else drain_return a)"
      using DrainSend Cons s by (simp add: drainOutbox_def client_Send_def)
    have "length hold - k = Suc (length rest)" using lt by (auto simp flip: lt(3))
    moreover have "take (Suc k) hold = take k hold @ [env]" using lt by (simp add: take_Suc_conv_app_nth)
    ultimately show ?thesis unfolding eq using assms DrainSend p Cons lt
      by (intro exI [of _ "if ok then Suc k else k"]) (simp add: drain_rel_def drain_return_def drain_left_def)
  qed
next
  case (DrainRemove env pending)
  then have p: "0 < k" "env # pending = drop (k - 1) hold" "app_held pf a = drop (k - 1) hold"
    and i: "outbox_inv (pf_unmarshal pf) (ap_box a)"
    using assms by (simp_all add: drain_rel_def)
  let ?b = "snd (outbox_Remove False (env_message_id env) (ap_box a))"
  have "held (pf_unmarshal pf) ?b = pending" using p by (intro ob.remove_head [OF i]) simp
  moreover have "drop k hold = pending" using p(1,2) by (metis Suc_diff_1 drop_Suc list.sel(3) tl_drop)
  moreover have "outbox_inv (pf_unmarshal pf) ?b" by (rule ob.inv_remove [OF i])
  moreover have eq: "drainOutbox pf d ok a = (if d then drain_return a else a\<lparr>ap_box := ?b, ap_drain := DrainSend pending\<rparr>)"
    using DrainRemove by (simp add: drainOutbox_def outbox_Remove_def)
  ultimately show ?thesis unfolding eq using assms DrainRemove p
    by (intro exI [of _ k]) (simp add: drain_rel_def drain_return_def drain_left_def)
qed

lemma drain_rel_run:
  "drain_rel pf s sent hold k a \<Longrightarrow> \<exists>k'. drain_rel pf s sent hold k' (drain_run pf sched a)"
proof (induction sched arbitrary: k a)
  case (Cons dw sched)
  obtain k1 where "drain_rel pf s sent hold k1 (drainOutbox pf (fst dw) (snd dw) a)"
    using drain_rel_step [OF Cons.prems] by blast
  from Cons.IH [OF this] show ?case by (simp add: split_beta)
qed auto

lemma drain_run_idle: "ap_drain a = DrainIdle \<Longrightarrow> drain_run pf sched a = a"
  by (induction sched) (auto simp: drainOutbox_def)

lemma drain_completes:
  assumes "drain_rel pf s sent hold k a" "ap_drain a \<noteq> DrainIdle" "drain_left a hold \<le> n"
  shows "drain_rel pf s sent hold (length hold) (drain_run pf (replicate n (False, True)) a)
       \<and> app_held pf (drain_run pf (replicate n (False, True)) a) = []
       \<and> \<not> ap_draining (drain_run pf (replicate n (False, True)) a)
       \<and> ap_drain (drain_run pf (replicate n (False, True)) a) = DrainIdle"
  using assms
proof (induction n arbitrary: k a)
  case 0
  then show ?case by (simp add: drain_left_def split: drain_pc.splits)
next
  case (Suc n)
  let ?a = "drainOutbox pf False True a"
  obtain k' where r: "drain_rel pf s sent hold k' ?a" and l: "drain_left a hold = Suc (drain_left ?a hold)"
    and e: "ap_drain ?a = DrainIdle \<Longrightarrow> k' = length hold \<and> app_held pf ?a = [] \<and> \<not> ap_draining ?a"
    using drain_rel_step [OF Suc.prems(1), of False True] Suc.prems(2) by blast
  show ?case
  proof (cases "ap_drain ?a = DrainIdle")
    case True
    then show ?thesis using e r drain_run_idle [OF True, of pf "replicate n (False, True)"] by simp
  next
    case False
    then show ?thesis using Suc.IH [OF r False] Suc.prems(3) l by simp
  qed
qed

text \<open>
  C35. A drain transmits in composition order and never skips: whatever fails and
  whenever, what it put on the wire is the held messages from the oldest on, in
  their order, and what it removed from the hold is what it transmitted, less at
  most the last one (whose removal failed or is still to come); and a drain
  during which nothing fails ends with everything transmitted once and the hold
  empty.
\<close>

theorem drain_keeps_composition_order:
  assumes "outbox_inv (pf_unmarshal pf) (ap_box a)" "cl_sess (ap_client a) = Some s" "ap_drain a = DrainRead"
    and "hold = app_held pf a"
  shows "(\<exists>k. cl_sent (ap_client (drain_run pf sched a)) = cl_sent (ap_client a) @ map (Pair s) (take k hold)
            \<and> app_held pf (drain_run pf sched a) \<in> {drop k hold, drop (k - 1) hold})
       \<and> (\<forall>n \<ge> 2 * length hold + 2. let a' = drain_run pf (replicate n (False, True)) a in
            cl_sent (ap_client a') = cl_sent (ap_client a) @ map (Pair s) hold
            \<and> app_held pf a' = [] \<and> \<not> ap_draining a' \<and> ap_drain a' = DrainIdle)"
proof -
  have start: "drain_rel pf s (cl_sent (ap_client a)) hold 0 a" using assms by (simp add: drain_rel_def)
  obtain k where "drain_rel pf s (cl_sent (ap_client a)) hold k (drain_run pf sched a)"
    using drain_rel_run [OF start] by blast
  then have "cl_sent (ap_client (drain_run pf sched a)) = cl_sent (ap_client a) @ map (Pair s) (take k hold)"
    "app_held pf (drain_run pf sched a) \<in> {drop k hold, drop (k - 1) hold}"
    by (auto simp: drain_rel_def split: drain_pc.splits)
  moreover have "ap_drain a \<noteq> DrainIdle" "drain_left a hold = 2 * length hold + 2"
    using assms(3) by (simp_all add: drain_left_def)
  ultimately show ?thesis using drain_completes [OF start] by (auto simp: drain_rel_def Let_def)
qed

section \<open>Composing and acknowledging\<close>

definition composed :: "string \<Rightarrow> time \<Rightarrow> string \<Rightarrow> string \<Rightarrow> envelope" where
  "composed ident now rcpt body = \<lparr>env_message_id = ident, env_sent_at = Some now, env_position = 0,
     env_received_at = None, env_payload = Some (DirectMessage rcpt body '''')\<rparr>"

lemma hubRef_ok:
  assumes "ap_hub a \<noteq> None \<or> ConnectedAs (ap_client a) \<noteq> '''' \<and> ap_key a \<noteq> None"
  obtains h where "hubRef a = (Ok (Some h), a\<lparr>ap_hub := Some h\<rparr>)"
proof (cases "ap_hub a")
  case None
  obtain h where "hub_New (ConnectedAs (ap_client a)) = Ok h" by (rule hub_New_ok)
  then show ?thesis using assms None that by (auto simp: hubRef_def UseIdentity_def)
next
  case (Some h)
  then show ?thesis using that [of h] by (simp add: hubRef_def)
qed

lemma TrimPrefix_dm: "TrimPrefix (ConversationKey rcpt) ''dm:'' = rcpt"
  by (simp add: TrimPrefix_def ConversationKey_def dmKeyPrefix_def)

lemma ui_file_direct:
  assumes "ap_hub a \<noteq> None \<or> ConnectedAs (ap_client a) \<noteq> '''' \<and> ap_key a \<noteq> None"
    and "ValidateBody body = Ok ()" "rcpt \<noteq> ''''"
  shows "fst (ui_file fails now ident (ConversationKey rcpt) body a) = Ok (composed ident now rcpt body)"
proof -
  obtain h where "hubRef a = (Ok (Some h), a\<lparr>ap_hub := Some h\<rparr>)" by (rule hubRef_ok [OF assms(1)])
  then show ?thesis using assms(2,3) by (simp add: ui_file_def TrimPrefix_dm SendDirect_def Let_def composed_def)
qed

text \<open>
  Acknowledgement of queued deliveries: a sealed delivery advances the
  acknowledged position to its own, whatever became of its content, and the
  coordinator is told; a delivery that is not sealed never does, whatever its
  position, so a message that was queued in plaintext (the recipient had no
  pinned key) is never acknowledged and is redelivered on every reconnect.
\<close>

theorem only_sealed_deliveries_are_acknowledged:
  assumes "ap_hub a = Some h" "OnEnvelope pf fails now ok env a = Ok a'"
  shows "cl_acked (ap_client a') =
           (if is_sealed env then max (cl_acked (ap_client a)) (env_position env) else cl_acked (ap_client a))
       \<and> (is_sealed env \<and> cl_acked (ap_client a) < env_position env \<and> cl_sess (ap_client a) = Some s \<and> ok \<longrightarrow>
            cl_sent (ap_client a') = cl_sent (ap_client a) @ [(s, envelope_of (QueueAck (env_position env)))])
       \<and> (\<not> is_sealed env \<longrightarrow> ap_client a' = ap_client a)"
  using assms(2)
proof (cases rule: OnEnvelope_cases)
  case (applied h0 a1 msg shown h1)
  have "a1 = a" using applied(1) assms(1) by (simp add: hubRef_def)
  then have "ap_client a' = (if is_sealed env then Acknowledge ok (env_position env) (ap_client a) else ap_client a)"
    using applied(3) by (auto simp: Let_def)
  then show ?thesis by (auto simp: Acknowledge_def client_Send_def max_def not_le split: option.splits)
qed (use assms(1) in \<open>simp_all add: hubRef_def\<close>)

text \<open>
  A live send overtakes the hold: while messages composed earlier are
  still held on an installed session (the drain of this connection has not run
  yet, or stopped), a new message to the same recipient goes straight to the wire,
  and a complete drain afterwards transmits the older ones behind it.
\<close>

theorem live_send_overtakes_the_hold:
  assumes "outbox_inv (pf_unmarshal pf) (ap_box a)" "ap_hub a \<noteq> None" "cl_sess (ap_client a) = Some s"
    and "ValidateBody body = Ok ()" "rcpt \<noteq> ''''" "ap_drain a = DrainIdle" "\<not> ap_draining a"
    and "n = 2 * length (app_held pf a) + 2"
    and "SendFromUI pf fails db_fails True now ident (ConversationKey rcpt) body a = (r, a')"
  shows "r = Ok ()
       \<and> cl_sent (ap_client (drain_run pf (replicate n (False, True)) (drain_enter a')))
           = cl_sent (ap_client a) @ map (Pair s) (composed ident now rcpt body # app_held pf a)"
proof -
  obtain a1 where f: "ui_file fails now ident (ConversationKey rcpt) body a = (Ok (composed ident now rcpt body), a1)"
    using ui_file_direct [of a body rcpt fails now ident] assms(2,4,5) by (metis fst_conv prod.collapse)
  have fr: "ap_box a1 = ap_box a" "ap_client a1 = ap_client a" "ap_drain a1 = ap_drain a" "ap_draining a1 = ap_draining a"
    using ui_file_frame [OF f] by auto
  have sent: "r = Ok ()" "ap_box a' = ap_box a" "ap_drain a' = DrainIdle" "\<not> ap_draining a'" "cl_sess (ap_client a') = Some s"
    "cl_sent (ap_client a') = cl_sent (ap_client a) @ [(s, composed ident now rcpt body)]"
    using assms(3,6,7,9) f fr by (auto simp: SendFromUI_def ui_transmit_def client_Send_def)
  have e: "ap_box (drain_enter a') = ap_box a" "ap_drain (drain_enter a') = DrainRead" "ap_client (drain_enter a') = ap_client a'"
    using sent by (simp_all add: drain_enter_def)
  have "drain_rel pf s (cl_sent (ap_client a')) (app_held pf a) 0 (drain_enter a')"
    using assms(1) sent e by (simp add: drain_rel_def)
  moreover have "drain_left (drain_enter a') (app_held pf a) \<le> n" using e assms(8) by (simp add: drain_left_def)
  ultimately have "drain_rel pf s (cl_sent (ap_client a')) (app_held pf a) (length (app_held pf a))
      (drain_run pf (replicate n (False, True)) (drain_enter a'))"
    using drain_completes [of pf s "cl_sent (ap_client a')" "app_held pf a" 0 "drain_enter a'" n] e(2) by simp
  then show ?thesis using sent by (simp add: drain_rel_def)
qed

section \<open>Witnesses\<close>

definition sample_platform :: platform where
  "sample_platform = \<lparr>pf_prims = toy_prims, pf_marshal = draft_marshal, pf_unmarshal = draft_unmarshal\<rparr>"

lemma sample_codec: "codec_ok sample_platform"
  by (simp add: codec_ok_def sample_platform_def draft_codec)

definition sample_client :: client where
  "sample_client = \<lparr>cl_cfg = DefaultConfig, cl_now = 0, cl_mach = NewMachine, cl_hints = 0, cl_acked = 0,
     cl_sess = Some 0, cl_inflight = None, cl_identity = ''me'', cl_quit = False, cl_cancelled = False,
     cl_stop = StopNone, cl_sup = SupOnline 0, cl_reader = RdIdle, cl_torn = False, cl_wds = [],
     cl_dials = 1, cl_dead = {}, cl_sent = [], cl_handled = [], cl_crashed = False\<rparr>"

definition sample_app :: app where
  "sample_app = newApp sample_client sample_outbox sample_history (Some toy_identity) view_New"

lemma draft_composed: "composed ident 9 ''bob'' ''hi'' = draft ident"
  by (simp add: composed_def draft_def envelope_of_def)

lemma hi_valid: "ValidateBody ''hi'' = Ok ()"
  unfolding ValidateBody_ok_iff by (auto simp: MaxBodyBytes_def intro: ascii_valid)

lemma sample_app_held: "app_held sample_platform sample_app = [draft ''1'']"
  "outbox_inv (pf_unmarshal sample_platform) (ap_box sample_app)"
  using sample_outbox_held sample_outbox_inv by (simp_all add: sample_app_def newApp_def sample_platform_def)

theorem accepted_messages_are_held_or_sent_witness:
  "\<exists>a. app_reach sample_platform sample_app a \<and> ap_accepted a = [draft ''2'']
     \<and> draft ''2'' \<in> set (app_held sample_platform a) \<union> on_wire (ap_client a)"
proof -
  have hub: "ap_hub sample_app \<noteq> None \<or> ConnectedAs (ap_client sample_app) \<noteq> '''' \<and> ap_key sample_app \<noteq> None"
    by (simp add: sample_app_def newApp_def ConnectedAs_def sample_client_def)
  obtain a1 where f: "ui_file no_history_faults 9 ''2'' (ConversationKey ''bob'') ''hi'' sample_app = (Ok (draft ''2''), a1)"
    using ui_file_direct [OF hub hi_valid, of "''bob''" no_history_faults 9 "''2''"] draft_composed
    by (metis fst_conv prod.collapse list.distinct(1))
  have fr: "ap_client a1 = sample_client" "ap_accepted a1 = []"
    using ui_file_frame [OF f] by (simp_all add: sample_app_def newApp_def)
  let ?a2 = "a1\<lparr>ap_ui := UiSend (draft ''2'') # ap_ui a1\<rparr>"
  have "app_step sample_platform sample_app ?a2" by (rule compose [OF f])
  moreover obtain a3 where t: "ui_transmit True (draft ''2'') ?a2 = (Ok (), a3)" "ap_accepted a3 = []"
    using fr by (simp add: ui_transmit_def client_Send_def sample_client_def)
  let ?a4 = "a3\<lparr>ap_ui := [] @ ap_ui a1, ap_accepted := ap_accepted a3 @ [draft ''2'']\<rparr>"
  have "app_step sample_platform ?a2 ?a4" by (rule transmitted [OF _ t(1)]) simp
  ultimately have r: "app_reach sample_platform sample_app ?a4" by (blast intro: app_reach.intros)
  then have "app_reach sample_platform (newApp sample_client sample_outbox sample_history (Some toy_identity) view_New) ?a4"
    by (simp add: sample_app_def)
  moreover have "outbox_inv (pf_unmarshal sample_platform) sample_outbox"
    using sample_outbox_inv by (simp add: sample_platform_def)
  ultimately show ?thesis
    using accepted_messages_are_held_or_sent [OF sample_codec] r t(2) by (intro exI [of _ ?a4]) fastforce
qed

theorem drain_keeps_composition_order_witness:
  "let a' = drain_run sample_platform (replicate 4 (False, True)) (drain_enter sample_app) in
     cl_sent (ap_client a') = [(0, draft ''1'')] \<and> app_held sample_platform a' = []"
proof -
  have e: "ap_box (drain_enter sample_app) = ap_box sample_app" "ap_client (drain_enter sample_app) = sample_client"
    "ap_drain (drain_enter sample_app) = DrainRead"
    by (simp_all add: drain_enter_def sample_app_def newApp_def)
  have "cl_sess sample_client = Some 0" "cl_sent sample_client = []" by (simp_all add: sample_client_def)
  then show ?thesis
    using drain_keeps_composition_order [of sample_platform "drain_enter sample_app" 0 "[draft ''1'']" "[]"] sample_app_held e
    by (simp add: Let_def)
qed

theorem only_sealed_deliveries_are_acknowledged_witness:
  "\<exists>a'. OnEnvelope sample_platform no_history_faults 9 True ((draft ''1'')\<lparr>env_position := 5\<rparr>)
       (sample_app\<lparr>ap_hub := Some sample_hub\<rparr>) = Ok a' \<and> cl_acked (ap_client a') = 0"
proof -
  let ?e = "(draft ''1'')\<lparr>env_position := 5\<rparr>" and ?a = "sample_app\<lparr>ap_hub := Some sample_hub\<rparr>"
  have "\<exists>a'. OnEnvelope sample_platform no_history_faults 9 True ?e ?a = Ok a'"
    by (simp add: OnEnvelope_def hubRef_def draft_def Let_def split: prod.split)
  then obtain a' where "OnEnvelope sample_platform no_history_faults 9 True ?e ?a = Ok a'" ..
  moreover from only_sealed_deliveries_are_acknowledged [OF _ this, of sample_hub] have "cl_acked (ap_client a') = 0"
    by (simp add: is_sealed_def draft_def sample_app_def newApp_def sample_client_def)
  ultimately show ?thesis by blast
qed

theorem live_send_overtakes_the_hold_witness:
  "\<exists>a'. SendFromUI sample_platform no_history_faults False True 9 ''2'' (ConversationKey ''bob'') ''hi''
       (sample_app\<lparr>ap_hub := Some sample_hub\<rparr>) = (Ok (), a')
     \<and> cl_sent (ap_client (drain_run sample_platform (replicate 4 (False, True)) (drain_enter a')))
         = [(0, draft ''2''), (0, draft ''1'')]"
proof -
  let ?a = "sample_app\<lparr>ap_hub := Some sample_hub\<rparr>"
  let ?r = "SendFromUI sample_platform no_history_faults False True 9 ''2'' (ConversationKey ''bob'') ''hi'' ?a"
  have f: "cl_sess (ap_client ?a) = Some 0" "cl_sent (ap_client ?a) = []" "ap_drain ?a = DrainIdle" "\<not> ap_draining ?a"
    by (simp_all add: sample_app_def newApp_def sample_client_def)
  have "4 = 2 * length (app_held sample_platform ?a) + 2" using sample_app_held by simp
  from live_send_overtakes_the_hold [OF _ _ f(1) hi_valid _ f(3,4) this, of "''bob''" no_history_faults False 9 "''2''" "fst ?r" "snd ?r"]
  have "fst ?r = Ok ()" "cl_sent (ap_client (drain_run sample_platform (replicate 4 (False, True)) (drain_enter (snd ?r))))
         = [(0, draft ''2''), (0, draft ''1'')]"
    using sample_app_held f(2) draft_composed by simp_all
  then show ?thesis by (intro exI [of _ "snd ?r"]) (metis prod.collapse)
qed

end
