(* ===== verification/Queue.thy ===== *)
theory Queue
  imports Wire "HOL-Library.Multiset"
begin

text \<open>
  \<^verbatim>\<open>src/internal/coordinator/queue/\<close>: the coordinator's durable offline queue
  (\<^verbatim>\<open>queue.go\<close>) with its at-rest sealing seam (\<^verbatim>\<open>sealed.go\<close>).  The two SQLite tables
  are fields of the state: \<open>q_inbox\<close> lists the rows in insertion order and
  \<open>q_cursor\<close> maps a recipient to its counters.  Instants stand for the fixed-width
  timestamp strings, whose string order is the chronological order.  Every
  statement may fail: an operation takes the predicate that says which of its
  statements do, and a failure inside a transaction rolls it back.  Protobuf
  marshalling and the sealing primitive are parameters, collected in
  \<open>queue_deps\<close>.
\<close>

section \<open>State\<close>

record inbox_row =
  row_recipient :: string
  row_position :: int
  row_message_id :: string
  row_body :: bytes
  row_enqueued_at :: time

record cursor =
  cur_next :: int
  cur_acked :: int

text \<open>The sweep timer: absent, armed at an instant, or fired and drained.\<close>

datatype sweep_timer = NoTimer | ArmedAt time | SpentTimer

datatype metric = QueueEviction string | QueueDepth nat

record queue =
  q_inbox :: "inbox_row list"
  q_cursor :: "string \<Rightarrow> cursor option"
  q_ttl :: duration
  q_maxSize :: int
  q_timer :: sweep_timer
  q_closed :: bool
  q_wake :: bool
  q_swept :: bool
  q_metrics :: "metric list"

record queue_deps =
  qd_marshal :: "envelope \<Rightarrow> bytes option"
  qd_unmarshal :: "bytes \<Rightarrow> envelope option"
  qd_atRest :: "(string \<Rightarrow> bytes \<Rightarrow> (bytes \<times> bool) option) option"

record delivery =
  del_Position :: u64
  del_Envelope :: envelope

datatype stmt = StBegin | StEnsureCursor | StCount | StReadCursor | StAdvance | StInsert
  | StAckAdvance | StDelete | StCommit | StMin | StQuery | StEvict int | StDepth

datatype queue_error = CapacityError string int | QueueClosed | MarshalFailed | SealFailed
  | UnsupportedPayload | StatementFailed stmt | BadTTL | BadMaxSize | NilAtRest

type_synonym faults = "stmt \<Rightarrow> bool"

abbreviation no_faults :: faults where "no_faults \<equiv> \<lambda>_. False"

section \<open>At-rest framing (sealed.go)\<close>

definition storedPlainMarker :: byte where "storedPlainMarker = 0"
definition storedSealedMarker :: byte where "storedSealedMarker = 1"

definition keystoreSealer_Seal ::
  "(string \<Rightarrow> 'key option) \<Rightarrow> ('key \<Rightarrow> bytes \<Rightarrow> bytes option) \<Rightarrow> string \<Rightarrow> bytes \<Rightarrow> (bytes \<times> bool) option" where
  "keystoreSealer_Seal pinnedKey seal recipient marshalled =
     (case pinnedKey recipient of
        None \<Rightarrow> Some (marshalled, False)
      | Some pub \<Rightarrow>
          (case seal pub marshalled of None \<Rightarrow> None | Some box \<Rightarrow> Some (box, True)))"

definition sealForStorage :: "queue_deps \<Rightarrow> string \<Rightarrow> bytes \<Rightarrow> bytes option" where
  "sealForStorage deps recipient marshalled =
     (case qd_atRest deps of
        None \<Rightarrow> Some (storedPlainMarker # marshalled)
      | Some seal \<Rightarrow>
          (case seal recipient marshalled of
             None \<Rightarrow> None
           | Some (stored, sealed) \<Rightarrow>
               Some ((if sealed then storedSealedMarker else storedPlainMarker) # stored)))"

definition deliveryFromStorage :: "queue_deps \<Rightarrow> int \<Rightarrow> bytes \<Rightarrow> envelope option" where
  "deliveryFromStorage deps pos body =
     (case body of
        [] \<Rightarrow> None
      | marker # payload \<Rightarrow>
          (if marker = storedSealedMarker then
             Some ((envelope_of (SealedDelivery payload))\<lparr>env_position := uint64 pos\<rparr>)
           else if marker = storedPlainMarker then
             (case qd_unmarshal deps payload of
                None \<Rightarrow> None
              | Some env \<Rightarrow> Some (env\<lparr>env_position := uint64 pos\<rparr>))
           else None))"

section \<open>Timer and metrics helpers\<close>

definition nudge :: "queue \<Rightarrow> queue" where
  "nudge q = q\<lparr>q_wake := True\<rparr>"

definition retained :: "string \<Rightarrow> queue \<Rightarrow> inbox_row list" where
  "retained recipient q = filter (\<lambda>r. row_recipient r = recipient) (q_inbox q)"

definition observeDepth :: "faults \<Rightarrow> string \<Rightarrow> queue \<Rightarrow> queue" where
  "observeDepth fails recipient q =
     (if fails StDepth then q
      else q\<lparr>q_metrics := q_metrics q @ [QueueDepth (length (retained recipient q))]\<rparr>)"

definition earliest :: "queue \<Rightarrow> time option" where
  "earliest q = (case q_inbox q of
     [] \<Rightarrow> None
   | r # rs \<Rightarrow> Some (fold min (map row_enqueued_at rs) (row_enqueued_at r)))"

definition rearmLocked :: "faults \<Rightarrow> time \<Rightarrow> queue \<Rightarrow> queue" where
  "rearmLocked fails now q =
     (case (if fails StMin then None else earliest q) of
        None \<Rightarrow> nudge (q\<lparr>q_timer := NoTimer\<rparr>)
      | Some at \<Rightarrow>
          (let delay = at + q_ttl q - now;
               delay = (if delay < 0 then 0 else delay)
           in nudge (q\<lparr>q_timer := ArmedAt (now + delay)\<rparr>)))"

section \<open>Enqueue\<close>

text \<open>The cursor row that \<^verbatim>\<open>INSERT OR IGNORE\<close> guarantees.\<close>

definition ensure_cursor :: "string \<Rightarrow> queue \<Rightarrow> cursor" where
  "ensure_cursor recipient q =
     (case q_cursor q recipient of None \<Rightarrow> \<lparr>cur_next = 1, cur_acked = 0\<rparr> | Some c \<Rightarrow> c)"

definition queue_Enqueue ::
  "queue_deps \<Rightarrow> faults \<Rightarrow> time \<Rightarrow> string \<Rightarrow> envelope \<Rightarrow> queue
     \<Rightarrow> (queue_error, u64) result \<times> queue" where
  "queue_Enqueue deps fails now recipient env q =
     (case qd_marshal deps env of None \<Rightarrow> (Err MarshalFailed, q) | Some marshalled \<Rightarrow>
      (case sealForStorage deps recipient marshalled of None \<Rightarrow> (Err SealFailed, q) | Some body \<Rightarrow>
       (if q_closed q then (Err QueueClosed, q)
        else if fails StBegin then (Err (StatementFailed StBegin), q)
        else if fails StEnsureCursor then (Err (StatementFailed StEnsureCursor), q)
        else let cur = ensure_cursor recipient q;
                 n = length (retained recipient q) in
          if fails StCount then (Err (StatementFailed StCount), q)
          else if q_maxSize q \<le> int n
            then (Err (CapacityError recipient (q_maxSize q)),
                  q\<lparr>q_metrics := q_metrics q @ [QueueEviction ''size_cap'']\<rparr>)
          else if fails StReadCursor \<or> cur_next cur < 0 \<or> 2 ^ 63 \<le> cur_next cur
            then (Err (StatementFailed StReadCursor), q)
          else let position = uint64 (cur_next cur) in
          if fails StAdvance then (Err (StatementFailed StAdvance), q)
          else if fails StInsert
              \<or> (\<exists>r \<in> set (retained recipient q). row_position r = int64 position)
            then (Err (StatementFailed StInsert), q)
          else if fails StCommit then (Err (StatementFailed StCommit), q)
          else let row = \<lparr>row_recipient = recipient, row_position = int64 position,
                          row_message_id = env_message_id env, row_body = body,
                          row_enqueued_at = now\<rparr>;
                   q1 = q\<lparr>q_inbox := q_inbox q @ [row],
                          q_cursor := (q_cursor q)(recipient \<mapsto> cur\<lparr>cur_next := cur_next cur + 1\<rparr>)\<rparr>;
                   q2 = rearmLocked fails now q1
               in (Ok position, q2\<lparr>q_metrics := q_metrics q2 @ [QueueDepth (n + 1)]\<rparr>))))"

definition queue_Deliver ::
  "queue_deps \<Rightarrow> faults \<Rightarrow> time \<Rightarrow> string \<Rightarrow> envelope \<Rightarrow> queue
     \<Rightarrow> (queue_error, unit) result \<times> queue" where
  "queue_Deliver deps fails now recipient env q =
     (case env_payload env of
        Some (DirectMessage _ _ _) \<Rightarrow>
          (case queue_Enqueue deps fails now recipient env q of
             (Inl e, q') \<Rightarrow> (Err e, q')
           | (Inr _, q') \<Rightarrow> (Ok (), q'))
      | _ \<Rightarrow> (Err UnsupportedPayload, q))"

section \<open>Resume, count and acknowledge\<close>

definition resume_rows :: "string \<Rightarrow> u64 \<Rightarrow> queue \<Rightarrow> inbox_row list" where
  "resume_rows recipient after q =
     sort_key row_position (filter (\<lambda>r. row_position r > int64 after) (retained recipient q))"

definition queue_Resume ::
  "queue_deps \<Rightarrow> faults \<Rightarrow> string \<Rightarrow> u64 \<Rightarrow> queue \<Rightarrow> (queue_error, delivery list) result" where
  "queue_Resume deps fails recipient after q =
     (if fails StQuery then Err (StatementFailed StQuery)
      else Ok (List.map_filter (\<lambda>r.
        map_option (\<lambda>env. \<lparr>del_Position = uint64 (row_position r), del_Envelope = env\<rparr>)
          (deliveryFromStorage deps (row_position r) (row_body r)))
        (resume_rows recipient after q)))"

definition queue_PendingCount ::
  "faults \<Rightarrow> string \<Rightarrow> u64 \<Rightarrow> queue \<Rightarrow> (queue_error, u64) result" where
  "queue_PendingCount fails recipient after q =
     (if fails StCount then Err (StatementFailed StCount)
      else Ok (of_nat (length (filter (\<lambda>r. row_position r > int64 after) (retained recipient q)))))"

definition queue_Ack ::
  "faults \<Rightarrow> string \<Rightarrow> u64 \<Rightarrow> queue \<Rightarrow> (queue_error, unit) result \<times> queue" where
  "queue_Ack fails recipient position q =
     (if q_closed q then (Err QueueClosed, q)
      else if fails StBegin then (Err (StatementFailed StBegin), q)
      else if fails StEnsureCursor then (Err (StatementFailed StEnsureCursor), q)
      else let cur = ensure_cursor recipient q in
        if fails StAckAdvance then (Err (StatementFailed StAckAdvance), q)
        else let cur' = (if cur_acked cur < int64 position
                         then cur\<lparr>cur_acked := int64 position\<rparr> else cur) in
        if fails StDelete then (Err (StatementFailed StDelete), q)
        else if fails StCommit then (Err (StatementFailed StCommit), q)
        else (Ok (), observeDepth fails recipient
          (q\<lparr>q_cursor := (q_cursor q)(recipient \<mapsto> cur'),
             q_inbox := filter (\<lambda>r. \<not> (row_recipient r = recipient \<and> row_position r \<le> int64 position))
                          (q_inbox q)\<rparr>)))"

section \<open>Expiry\<close>

definition expired :: "time \<Rightarrow> queue \<Rightarrow> inbox_row \<Rightarrow> bool" where
  "expired now q r \<longleftrightarrow> row_enqueued_at r \<le> now - q_ttl q"

text \<open>The delete loop is outside any transaction: a failing delete stops it with the
  rows before it already gone.\<close>

fun evict :: "faults \<Rightarrow> inbox_row list \<Rightarrow> queue \<Rightarrow> bool \<times> queue" where
  "evict fails [] q = (True, q)"
| "evict fails (e # due) q =
     (if fails (StEvict (row_position e)) then (False, q)
      else evict fails due
        (q\<lparr>q_inbox := filter (\<lambda>r. \<not> (row_recipient r = row_recipient e
                                     \<and> row_position r = row_position e)) (q_inbox q),
           q_metrics := q_metrics q @ [QueueEviction ''ttl'']\<rparr>))"

definition sweep :: "faults \<Rightarrow> time \<Rightarrow> queue \<Rightarrow> (queue_error, unit) result \<times> queue" where
  "sweep fails now q =
     (if fails StQuery then (Err (StatementFailed StQuery), q)
      else let due = filter (expired now q) (q_inbox q) in
        case evict fails due q of
          (False, q1) \<Rightarrow> (Err (StatementFailed StDelete), q1)
        | (True, q1) \<Rightarrow>
            (let q2 = fold (observeDepth fails) (remdups (map row_recipient due)) q1;
                 q3 = rearmLocked fails now q2
             in (Ok (), if due \<noteq> [] then q3\<lparr>q_swept := True\<rparr> else q3)))"

text \<open>One turn of the watcher goroutine: at Close it ends, a wake-up only re-reads the
  timer, and a lapsed timer (whose channel value the receive consumes) sweeps.\<close>

definition watch_turn :: "faults \<Rightarrow> time \<Rightarrow> queue \<Rightarrow> queue" where
  "watch_turn fails now q =
     (if q_closed q then q
      else case q_timer q of
        ArmedAt t \<Rightarrow>
          (if t \<le> now then
             (case sweep fails now (q\<lparr>q_timer := SpentTimer\<rparr>) of
                (Inl _, q') \<Rightarrow> nudge q'
              | (Inr _, q') \<Rightarrow> q')
           else q\<lparr>q_wake := False\<rparr>)
      | _ \<Rightarrow> q\<lparr>q_wake := False\<rparr>)"

section \<open>Construction and shutdown\<close>

definition newQueue ::
  "faults \<Rightarrow> time \<Rightarrow> duration \<Rightarrow> int \<Rightarrow> inbox_row list \<Rightarrow> (string \<Rightarrow> cursor option)
     \<Rightarrow> (queue_error, queue) result" where
  "newQueue fails now ttl maxSize inbox cursors =
     (if ttl \<le> 0 then Err BadTTL
      else if maxSize \<le> 0 then Err BadMaxSize
      else let q = \<lparr>q_inbox = inbox, q_cursor = cursors, q_ttl = ttl, q_maxSize = maxSize,
                    q_timer = NoTimer, q_closed = False, q_wake = False, q_swept = False,
                    q_metrics = []\<rparr>
           in case sweep fails now q of (Inl e, _) \<Rightarrow> Err e | (Inr _, q') \<Rightarrow> Ok q')"

definition queue_Close :: "queue \<Rightarrow> queue" where
  "queue_Close q = (if q_closed q then q else q\<lparr>q_closed := True, q_timer := NoTimer\<rparr>)"

end
