(* ===== verification/QueueProps.thy ===== *)
theory QueueProps
  imports Queue
begin

text \<open>
  Correctness of the offline queue: its invariant, the interface
  \<open>durable_backlog\<close> the coordinator's handlers rely on, and the properties of
  arbitrary sequences of queue operations, process restarts included.
\<close>

section \<open>Invariant\<close>

definition queue_inv :: "queue \<Rightarrow> bool" where
  "queue_inv q \<longleftrightarrow> 0 < q_ttl q \<and> 0 < q_maxSize q \<and>
     (\<forall>rec. sorted_wrt (<) (map row_position (retained rec q))
        \<and> int (length (retained rec q)) \<le> q_maxSize q
        \<and> (\<forall>r \<in> set (retained rec q). 1 \<le> row_position r
              \<and> row_position r < cur_next (ensure_cursor rec q))
        \<and> 1 \<le> cur_next (ensure_cursor rec q) \<and> cur_next (ensure_cursor rec q) \<le> 2 ^ 63)"

lemma queue_invD:
  assumes "queue_inv q"
  shows "0 < q_ttl q" "0 < q_maxSize q"
    "sorted_wrt (<) (map row_position (retained rec q))"
    "int (length (retained rec q)) \<le> q_maxSize q"
    "r \<in> set (retained rec q) \<Longrightarrow> 1 \<le> row_position r"
    "r \<in> set (retained rec q) \<Longrightarrow> row_position r < cur_next (ensure_cursor rec q)"
    "1 \<le> cur_next (ensure_cursor rec q)" "cur_next (ensure_cursor rec q) \<le> 2 ^ 63"
  using assms by (auto simp: queue_inv_def)

text \<open>What an operation that only touches timer, signals and metrics leaves alone.\<close>

definition same_tables :: "queue \<Rightarrow> queue \<Rightarrow> bool" where
  "same_tables q q' \<longleftrightarrow> q_inbox q' = q_inbox q \<and> q_cursor q' = q_cursor q
     \<and> q_ttl q' = q_ttl q \<and> q_maxSize q' = q_maxSize q"

lemma same_tables_simps [simp]:
  "same_tables q q"
  "same_tables q (nudge q)"
  "same_tables q (observeDepth fails rec q)"
  "same_tables q (rearmLocked fails now q)"
  "same_tables q (queue_Close q)"
  by (auto simp: same_tables_def nudge_def observeDepth_def rearmLocked_def queue_Close_def Let_def
      split: option.splits)

lemma same_tables_trans: "same_tables a b \<Longrightarrow> same_tables b c \<Longrightarrow> same_tables a c"
  by (simp add: same_tables_def)

lemma same_tables_fold_observe: "same_tables q (fold (observeDepth fails) recs q)"
proof (induction recs arbitrary: q)
  case (Cons r recs)
  show ?case using same_tables_trans [OF same_tables_simps(3) Cons.IH] by simp
qed simp

lemma same_tables_retained: "same_tables q q' \<Longrightarrow> retained rec q' = retained rec q"
  and same_tables_cursor: "same_tables q q' \<Longrightarrow> ensure_cursor rec q' = ensure_cursor rec q"
  and same_tables_inv: "same_tables q q' \<Longrightarrow> queue_inv q \<Longrightarrow> queue_inv q'"
  by (simp_all add: same_tables_def retained_def ensure_cursor_def queue_inv_def)

lemma queue_inv_update_simps [simp]:
  "retained rec (q\<lparr>q_metrics := m\<rparr>) = retained rec q"
  "retained rec (q\<lparr>q_cursor := c\<rparr>) = retained rec q"
  "retained rec (q\<lparr>q_timer := t\<rparr>) = retained rec q"
  "retained rec (q\<lparr>q_swept := b\<rparr>) = retained rec q"
  "retained rec (q\<lparr>q_wake := b\<rparr>) = retained rec q"
  "ensure_cursor rec (q\<lparr>q_metrics := m\<rparr>) = ensure_cursor rec q"
  "ensure_cursor rec (q\<lparr>q_inbox := i\<rparr>) = ensure_cursor rec q"
  "queue_inv (q\<lparr>q_metrics := m\<rparr>) = queue_inv q"
  "queue_inv (q\<lparr>q_timer := t\<rparr>) = queue_inv q"
  "queue_inv (q\<lparr>q_swept := b\<rparr>) = queue_inv q"
  "queue_inv (q\<lparr>q_wake := b\<rparr>) = queue_inv q"
  by (simp_all add: retained_def ensure_cursor_def queue_inv_def)

section \<open>What each operation does to the backlog\<close>

lemma enqueue_cases:
  assumes "queue_Enqueue deps fails now rec env q = (res, q')"
  obtains (refused) e where "res = Err e" "same_tables q q'" "q_timer q' = q_timer q"
      "q_closed q' = q_closed q"
  | (accepted) m body cur where
      "qd_marshal deps env = Some m" "sealForStorage deps rec m = Some body"
      "\<not> q_closed q" "\<not> q_closed q'" "cur = ensure_cursor rec q"
      "int (length (retained rec q)) < q_maxSize q"
      "0 \<le> cur_next cur" "cur_next cur < 2 ^ 63"
      "res = Ok (uint64 (cur_next cur))"
      "q_inbox q' = q_inbox q @ [\<lparr>row_recipient = rec, row_position = cur_next cur,
         row_message_id = env_message_id env, row_body = body, row_enqueued_at = now\<rparr>]"
      "q_cursor q' = (q_cursor q)(rec \<mapsto> cur\<lparr>cur_next := cur_next cur + 1\<rparr>)"
      "q_ttl q' = q_ttl q" "q_maxSize q' = q_maxSize q"
      "\<not> fails StMin \<Longrightarrow> q_timer q' = q_timer (rearmLocked fails now
         (q\<lparr>q_inbox := q_inbox q'\<rparr>))"
proof (cases "qd_marshal deps env")
  case None
  then show thesis using assms refused by (auto simp: queue_Enqueue_def)
next
  case (Some m)
  note m = Some
  show thesis
  proof (cases "sealForStorage deps rec m")
    case None
    then show thesis using assms m refused by (auto simp: queue_Enqueue_def)
  next
    case (Some body)
    note eq = assms [unfolded queue_Enqueue_def m Some option.simps Let_def]
    have rearm: "q_timer (rearmLocked fails now (q\<lparr>q_inbox := i, q_cursor := c\<rparr>))
        = q_timer (rearmLocked fails now (q\<lparr>q_inbox := i\<rparr>))"
      "q_closed (rearmLocked fails now (q\<lparr>q_inbox := i, q_cursor := c\<rparr>)) = q_closed q"
      "q_inbox (rearmLocked fails now p) = q_inbox p"
      "q_cursor (rearmLocked fails now p) = q_cursor p"
      "q_ttl (rearmLocked fails now p) = q_ttl p"
      "q_maxSize (rearmLocked fails now p) = q_maxSize p" for i c p
      by (auto simp: rearmLocked_def earliest_def nudge_def Let_def split: option.splits)
    show thesis
      using eq m Some
      by (auto split: if_splits simp: int64_uint64 rearm same_tables_def intro: refused accepted)
  qed
qed

lemma enqueue_retained:
  assumes "queue_Enqueue deps fails now rec env q = (Ok p, q')"
  shows "\<exists>m body. qd_marshal deps env = Some m \<and> sealForStorage deps rec m = Some body \<and>
    retained rec' q' = retained rec' q @ (if rec' = rec then [\<lparr>row_recipient = rec,
      row_position = int64 p, row_message_id = env_message_id env, row_body = body,
      row_enqueued_at = now\<rparr>] else [])"
  using assms by (cases rule: enqueue_cases) (auto simp: retained_def int64_uint64)

lemma enqueue_inv:
  assumes "queue_inv q" shows "queue_inv (snd (queue_Enqueue deps fails now rec env q))"
proof -
  obtain res q' where e: "queue_Enqueue deps fails now rec env q = (res, q')" by force
  then have "queue_inv q'"
  proof (cases rule: enqueue_cases)
    case refused
    then show ?thesis using assms same_tables_inv by blast
  next
    case (accepted m body cur)
    have r: "retained rec' q' = retained rec' q @ (if rec' = rec then [\<lparr>row_recipient = rec,
        row_position = cur_next cur, row_message_id = env_message_id env, row_body = body,
        row_enqueued_at = now\<rparr>] else [])" for rec'
      using accepted by (simp add: retained_def)
    have c: "ensure_cursor rec' q' = (if rec' = rec then cur\<lparr>cur_next := cur_next cur + 1\<rparr>
        else ensure_cursor rec' q)" for rec'
      using accepted by (simp add: ensure_cursor_def)
    note iv = queue_invD [OF assms]
    have "1 \<le> row_position x \<and> row_position x < cur_next (ensure_cursor rec' q')"
      if "x \<in> set (retained rec' q')" for x rec'
      using that accepted(5) iv(5,6) [of x rec'] iv(7) [of rec]
      by (auto simp: r c split: if_splits)
    moreover have "sorted_wrt (<) (map row_position (retained rec' q'))" for rec'
      using accepted(5) iv(3) [of rec'] iv(6) [of _ rec] by (auto simp: r sorted_wrt_append)
    moreover have "int (length (retained rec' q')) \<le> q_maxSize q'" for rec'
      using accepted(6,13) iv(4) [of rec'] by (simp add: r)
    moreover have "1 \<le> cur_next (ensure_cursor rec' q') \<and> cur_next (ensure_cursor rec' q') \<le> 2 ^ 63" for rec'
      using accepted(5,7,8) iv(7,8) [of rec'] by (simp add: c)
    ultimately show ?thesis
      using accepted(12,13) iv(1,2) by (simp add: queue_inv_def)
  qed
  then show ?thesis using e by simp
qed

text \<open>Deleting rows keeps the invariant.\<close>

lemma filter_inbox_inv:
  assumes "queue_inv q" "q_inbox q' = filter P (q_inbox q)" "q_ttl q' = q_ttl q"
    "q_maxSize q' = q_maxSize q"
    "\<And>rec. cur_next (ensure_cursor rec q') = cur_next (ensure_cursor rec q)"
  shows "queue_inv q'"
proof -
  have r: "retained rec q' = filter P (retained rec q)" for rec
    using assms(2) by (simp add: retained_def conj_commute)
  have "sorted_wrt (<) (map row_position (filter P xs))"
    if "sorted_wrt (<) (map row_position xs)" for xs
    using that by (induction xs) auto
  moreover have "int (length (filter P (retained rec q))) \<le> q_maxSize q" for rec
    using queue_invD(4) [OF assms(1), of rec] length_filter_le [of P "retained rec q"] by linarith
  ultimately show ?thesis
    using assms(1,3-5) unfolding queue_inv_def r by auto
qed

lemma ack_cases:
  assumes "queue_Ack fails rec pos q = (res, q')"
  obtains (refused) e where "res = Err e" "q' = q"
  | (acked) "res = Ok ()" "\<not> q_closed q" "q_closed q' = q_closed q" "q_timer q' = q_timer q"
      "q_inbox q' = filter (\<lambda>r. \<not> (row_recipient r = rec \<and> row_position r \<le> int64 pos)) (q_inbox q)"
      "cur_acked (ensure_cursor rec q') = max (cur_acked (ensure_cursor rec q)) (int64 pos)"
      "\<And>rec'. cur_next (ensure_cursor rec' q') = cur_next (ensure_cursor rec' q)"
      "\<And>rec'. rec' \<noteq> rec \<Longrightarrow> ensure_cursor rec' q' = ensure_cursor rec' q"
      "q_ttl q' = q_ttl q" "q_maxSize q' = q_maxSize q"
proof -
  have o: "ensure_cursor rec' (observeDepth f r p) = ensure_cursor rec' p"
    "q_inbox (observeDepth f r p) = q_inbox p" "q_ttl (observeDepth f r p) = q_ttl p"
    "q_maxSize (observeDepth f r p) = q_maxSize p" "q_closed (observeDepth f r p) = q_closed p"
    "q_timer (observeDepth f r p) = q_timer p" for f r p rec'
    by (simp_all add: observeDepth_def ensure_cursor_def)
  show thesis
  proof (cases "q_closed q \<or> fails StBegin \<or> fails StEnsureCursor \<or> fails StAckAdvance
      \<or> fails StDelete \<or> fails StCommit")
    case True
    then have "\<exists>e. res = Err e \<and> q' = q"
      using assms by (auto simp: queue_Ack_def Let_def split: if_splits)
    then show thesis using refused by blast
  next
    case False
    then have "res = Ok ()" and q': "q' = observeDepth fails rec
        (q\<lparr>q_cursor := (q_cursor q)(rec \<mapsto>
             if cur_acked (ensure_cursor rec q) < int64 pos
             then (ensure_cursor rec q)\<lparr>cur_acked := int64 pos\<rparr> else ensure_cursor rec q),
           q_inbox := filter (\<lambda>r. \<not> (row_recipient r = rec \<and> row_position r \<le> int64 pos))
                        (q_inbox q)\<rparr>)"
      using assms by (simp_all add: queue_Ack_def Let_def)
    with False show thesis
      by (intro acked) (simp_all add: o, simp_all add: ensure_cursor_def)
  qed
qed

lemma ack_inv: "queue_inv q \<Longrightarrow> queue_inv (snd (queue_Ack fails rec pos q))"
proof -
  assume iv: "queue_inv q"
  obtain res q' where a: "queue_Ack fails rec pos q = (res, q')" by force
  then have "queue_inv q'"
    by (cases rule: ack_cases) (use iv in \<open>auto intro: filter_inbox_inv\<close>)
  then show ?thesis using a by simp
qed

lemma evict_frame:
  "evict fails due q = (ok, q') \<Longrightarrow>
     q_cursor q' = q_cursor q \<and> q_ttl q' = q_ttl q \<and> q_maxSize q' = q_maxSize q
     \<and> q_closed q' = q_closed q \<and> q_timer q' = q_timer q
     \<and> (\<exists>P. q_inbox q' = filter P (q_inbox q)
           \<and> (\<forall>r \<in> set (q_inbox q). \<not> P r \<longrightarrow> (\<exists>e \<in> set due.
                 row_recipient r = row_recipient e \<and> row_position r = row_position e)))"
proof (induction fails due q rule: evict.induct)
  case (1 fails q)
  then show ?case by (auto intro: exI [of _ "\<lambda>_. True"])
next
  case (2 fails e due q)
  show ?case
  proof (cases "fails (StEvict (row_position e))")
    case True
    then show ?thesis using 2 by (auto intro: exI [of _ "\<lambda>_. True"])
  next
    case False
    let ?K = "\<lambda>r. \<not> (row_recipient r = row_recipient e \<and> row_position r = row_position e)"
    obtain P where "q_inbox q' = filter P (filter ?K (q_inbox q))"
      "\<forall>r \<in> set (filter ?K (q_inbox q)). \<not> P r \<longrightarrow> (\<exists>e \<in> set due.
                 row_recipient r = row_recipient e \<and> row_position r = row_position e)"
      using 2 False by force
    then show ?thesis
      using 2 False by (intro conjI exI [of _ "\<lambda>r. ?K r \<and> P r"]) auto
  qed
qed

lemma evict_ok:
  "(\<And>p. \<not> fails (StEvict p)) \<Longrightarrow>
     \<exists>q'. evict fails due q = (True, q') \<and> q_inbox q' = filter (\<lambda>r. \<not> (\<exists>e \<in> set due.
        row_recipient r = row_recipient e \<and> row_position r = row_position e)) (q_inbox q)"
  by (induction fails due q rule: evict.induct) (auto intro: filter_cong)

text \<open>No two retained rows share recipient and position.\<close>

lemma row_unique:
  assumes "queue_inv q" "r \<in> set (q_inbox q)" "e \<in> set (q_inbox q)"
    "row_recipient r = row_recipient e" "row_position r = row_position e"
  shows "r = e"
proof -
  let ?xs = "retained (row_recipient e) q"
  have "distinct (map row_position ?xs)"
    using queue_invD(3) [OF assms(1)] strict_sorted_iff by blast
  moreover have "r \<in> set ?xs" "e \<in> set ?xs" using assms by (auto simp: retained_def)
  ultimately show ?thesis using assms(5) by (auto simp: distinct_map dest: inj_onD)
qed

lemma sweep_frame:
  assumes "queue_inv q" "sweep fails now q = (res, q')"
  shows "q_cursor q' = q_cursor q \<and> q_ttl q' = q_ttl q \<and> q_maxSize q' = q_maxSize q
     \<and> q_closed q' = q_closed q
     \<and> (\<exists>P. q_inbox q' = filter P (q_inbox q) \<and> (\<forall>r \<in> set (q_inbox q). \<not> P r \<longrightarrow> expired now q r))"
proof (cases "fails StQuery")
  case True
  then show ?thesis using assms by (auto simp: sweep_def intro: exI [of _ "\<lambda>_. True"])
next
  case False
  let ?due = "filter (expired now q) (q_inbox q)"
  obtain ok q1 where e: "evict fails ?due q = (ok, q1)" by force
  have o: "q_inbox (fold (observeDepth fails) recs p) = q_inbox p \<and>
      q_cursor (fold (observeDepth fails) recs p) = q_cursor p \<and>
      q_ttl (fold (observeDepth fails) recs p) = q_ttl p \<and>
      q_maxSize (fold (observeDepth fails) recs p) = q_maxSize p" for recs p
    using same_tables_fold_observe [of p fails recs] by (simp add: same_tables_def)
  have oc: "q_closed (fold (observeDepth fails) recs p) = q_closed p" for recs p
    by (induction recs arbitrary: p) (simp_all add: observeDepth_def)
  have ra: "q_inbox (rearmLocked fails now p) = q_inbox p \<and> q_cursor (rearmLocked fails now p) = q_cursor p
      \<and> q_ttl (rearmLocked fails now p) = q_ttl p \<and> q_maxSize (rearmLocked fails now p) = q_maxSize p
      \<and> q_closed (rearmLocked fails now p) = q_closed p" for p
    by (auto simp: rearmLocked_def nudge_def Let_def split: option.splits)
  have "same_tables q1 q' \<and> q_closed q' = q_closed q1"
    using assms(2) False e o oc ra
    by (cases ok) (auto simp: sweep_def Let_def same_tables_def split: if_splits)
  then show ?thesis
    using evict_frame [OF e] row_unique [OF assms(1)] by (fastforce simp: same_tables_def)
qed

lemma sweep_inv: "queue_inv q \<Longrightarrow> queue_inv (snd (sweep fails now q))"
proof -
  assume iv: "queue_inv q"
  obtain res q' where s: "sweep fails now q = (res, q')" by force
  then obtain P where "q_inbox q' = filter P (q_inbox q)" using sweep_frame [OF iv] by blast
  then show ?thesis
    using filter_inbox_inv [OF iv] sweep_frame [OF iv s] s by (simp add: ensure_cursor_def)
qed

end
