(* ===== verification/QueueRuns.thy ===== *)
theory QueueRuns
  imports QueueProps
begin

text \<open>
  The offline queue seen by its clients.  The locale \<open>durable_backlog\<close> states what
  the coordinator relies on when it holds a message, replays a backlog and
  processes an acknowledgement; the queue of \<^verbatim>\<open>queue.go\<close> interprets it.  Below it,
  properties of runs: arbitrary sequences of enqueues, acknowledgements, sweeps,
  watcher turns, shutdowns and restarts, each with its own failing statements.
\<close>

section \<open>The interface\<close>

locale durable_backlog =
  fixes backlog :: "string \<Rightarrow> 'q \<Rightarrow> inbox_row list"
    and enqueue :: "string \<Rightarrow> envelope \<Rightarrow> 'q \<Rightarrow> (queue_error, u64) result \<times> 'q"
    and ack :: "string \<Rightarrow> u64 \<Rightarrow> 'q \<Rightarrow> (queue_error, unit) result \<times> 'q"
    and resume :: "string \<Rightarrow> u64 \<Rightarrow> 'q \<Rightarrow> delivery list"
    and decode :: "inbox_row \<Rightarrow> delivery option"
    and invar :: "'q \<Rightarrow> bool"
  assumes backlog_order: "invar q \<Longrightarrow> sorted_wrt (<) (map row_position (backlog rec q))"
    and backlog_range: "invar q \<Longrightarrow> x \<in> set (backlog rec q) \<Longrightarrow> 1 \<le> row_position x \<and> row_position x < 2 ^ 63"
    and enqueue_ok: "invar q \<Longrightarrow> enqueue rec env q = (Inr p, q') \<Longrightarrow>
          \<exists>row. row_position row = int64 p \<and> backlog rec q' = backlog rec q @ [row]"
    and enqueue_other: "invar q \<Longrightarrow> enqueue rec env q = (res, q') \<Longrightarrow>
          rec' \<noteq> rec \<or> res = Inl e \<Longrightarrow> backlog rec' q' = backlog rec' q"
    and ack_ok: "invar q \<Longrightarrow> ack rec p q = (Inr u, q') \<Longrightarrow> backlog rec' q' =
          (if rec' = rec then filter (\<lambda>x. int64 p < row_position x) (backlog rec' q)
           else backlog rec' q)"
    and ack_err: "invar q \<Longrightarrow> ack rec p q = (Inl e, q') \<Longrightarrow> backlog rec' q' = backlog rec' q"
    and resume_backlog: "invar q \<Longrightarrow> resume rec after q =
          List.map_filter decode (filter (\<lambda>x. int64 after < row_position x) (backlog rec q))"
    and decode_position: "decode x = Some d \<Longrightarrow> del_Position d = uint64 (row_position x)"
    and enqueue_invar: "invar q \<Longrightarrow> enqueue rec env q = (res, q') \<Longrightarrow> invar q'"
    and ack_invar: "invar q \<Longrightarrow> ack rec p q = (ares, q') \<Longrightarrow> invar q'"
begin

lemma decoded_position:
  assumes "invar q" "x \<in> set (backlog rec q)" "decode x = Some d"
  shows "int64 (del_Position d) = row_position x"
  using assms backlog_range [OF assms(1,2)] by (simp add: decode_position int64_uint64)

lemma resume_mem:
  "invar q \<Longrightarrow> d \<in> set (resume rec after q) \<longleftrightarrow>
     (\<exists>x \<in> set (backlog rec q). int64 after < row_position x \<and> decode x = Some d)"
  by (force simp: resume_backlog map_filter_def)

lemma resume_increasing:
  assumes "invar q"
  shows "sorted_wrt (\<lambda>a b. int64 (del_Position a) < int64 (del_Position b)) (resume rec after q)"
proof -
  have "sorted_wrt (\<lambda>a b. int64 (del_Position a) < int64 (del_Position b))
          (List.map_filter decode (filter P xs))"
    if "sorted_wrt (<) (map row_position xs)" "set xs \<subseteq> set (backlog rec q)" for xs P
    using that
  proof (induction xs)
    case (Cons x xs)
    have "row_position x < row_position y" if "y \<in> set xs" for y using Cons.prems that by auto
    then show ?case
      using Cons decoded_position [OF assms]
      by (auto simp: map_filter_def split: option.splits)
  qed (simp add: map_filter_def)
  then show ?thesis using assms backlog_order by (simp add: resume_backlog)
qed

lemma ack_filters_resume:
  assumes "invar q" "ack rec p q = (Inr u, q')"
  shows "resume rec after q' = filter (\<lambda>d. int64 p < int64 (del_Position d)) (resume rec after q)"
proof -
  have "List.map_filter decode (filter P (filter Q xs))
      = filter (\<lambda>d. int64 p < int64 (del_Position d)) (List.map_filter decode (filter P xs))"
    if "Q = (\<lambda>x. int64 p < row_position x)" "set xs \<subseteq> set (backlog rec q)" for xs P Q
    using that(2) decoded_position [OF assms(1)] unfolding that(1)
    by (induction xs) (auto simp: map_filter_def)
  then show ?thesis
    using assms ack_invar [OF assms] by (simp add: resume_backlog ack_ok)
qed

lemma enqueue_extends_resume:
  assumes "invar q" "enqueue rec env q = (Inr p, q')"
  shows "\<exists>ds. resume rec after q' = resume rec after q @ ds \<and>
           (\<forall>d \<in> set ds. del_Position d = p) \<and> length ds \<le> 1"
proof -
  obtain row where r: "row_position row = int64 p" "backlog rec q' = backlog rec q @ [row]"
    using enqueue_ok [OF assms] by blast
  then show ?thesis
    using assms enqueue_invar [OF assms] decode_position [of row]
    by (intro exI [of _ "List.map_filter decode (filter (\<lambda>x. int64 after < row_position x) [row])"])
      (auto simp: resume_backlog map_filter_def)
qed

end

section \<open>The queue provides it\<close>

definition row_delivery :: "queue_deps \<Rightarrow> inbox_row \<Rightarrow> delivery option" where
  "row_delivery deps r =
     map_option (\<lambda>env. \<lparr>del_Position = uint64 (row_position r), del_Envelope = env\<rparr>)
       (deliveryFromStorage deps (row_position r) (row_body r))"

definition resumed :: "queue_deps \<Rightarrow> string \<Rightarrow> u64 \<Rightarrow> queue \<Rightarrow> delivery list" where
  "resumed deps rec after q = List.map_filter (row_delivery deps) (resume_rows rec after q)"

lemma Resume_resumed:
  "queue_Resume deps fails rec after q =
     (if fails StQuery then Err (StatementFailed StQuery) else Ok (resumed deps rec after q))"
  by (simp add: queue_Resume_def resumed_def row_delivery_def [abs_def])

lemma resume_rows_backlog:
  assumes "queue_inv q"
  shows "resume_rows rec after q = filter (\<lambda>x. int64 after < row_position x) (retained rec q)"
proof -
  have "sorted (map row_position (retained rec q))"
    using queue_invD(3) [OF assms] strict_sorted_imp_sorted by blast
  then have "sorted (map row_position (filter P (retained rec q)))" for P
    by (rule sorted_filter)
  then show ?thesis by (simp add: resume_rows_def sort_key_id_if_sorted)
qed

interpretation oq: durable_backlog retained "queue_Enqueue deps fails now"
  "queue_Ack fails" "resumed deps" "row_delivery deps" queue_inv
  for deps fails now
proof (unfold_locales, goal_cases)
  case (1 q rec) then show ?case by (rule queue_invD(3))
next
  case (2 q x rec)
  then show ?case using queue_invD(5,6) [OF 2(1), of x rec] queue_invD(8) [OF 2(1), of rec] by auto
next
  case (3 q rec env p q')
  then show ?case using enqueue_retained [OF 3(2), of rec] by auto
next
  case (4 q rec env res q' rec' e)
  then show ?case
    by (cases rule: enqueue_cases [OF 4(2)]) (auto simp: retained_def same_tables_def)
next
  case (5 q rec p u q' rec')
  then show ?case
    by (cases rule: ack_cases [OF 5(2)]) (auto simp: retained_def intro: filter_cong)
next
  case (6 q rec p e q' rec')
  then show ?case by (cases rule: ack_cases [OF 6(2)]) auto
next
  case (7 q rec after)
  then show ?case by (simp add: resumed_def resume_rows_backlog)
next
  case (8 x d) then show ?case by (auto simp: row_delivery_def)
next
  case (9 q rec env res q')
  then show ?case using enqueue_inv [OF 9(1), of deps fails now rec env] by simp
next
  case (10 q rec p ares q')
  then show ?case using ack_inv [OF 10(1), of fails rec p] by simp
qed

section \<open>Runs\<close>

datatype queue_op =
    OpEnqueue faults time string envelope
  | OpAck faults string u64
  | OpSweep faults time
  | OpTurn faults time
  | OpClose
  | OpRestart time

text \<open>A restart opens the tables the previous process committed, with the same bounds.\<close>

definition queue_restart :: "time \<Rightarrow> queue \<Rightarrow> queue" where
  "queue_restart now q =
     (case newQueue no_faults now (q_ttl q) (q_maxSize q) (q_inbox q) (q_cursor q) of
        Inl _ \<Rightarrow> q | Inr q' \<Rightarrow> q')"

primrec queue_exec :: "queue_deps \<Rightarrow> queue_op \<Rightarrow> queue \<Rightarrow> queue" where
  "queue_exec deps (OpEnqueue fails now rec env) q = snd (queue_Enqueue deps fails now rec env q)"
| "queue_exec deps (OpAck fails rec pos) q = snd (queue_Ack fails rec pos q)"
| "queue_exec deps (OpSweep fails now) q = snd (sweep fails now q)"
| "queue_exec deps (OpTurn fails now) q = watch_turn fails now q"
| "queue_exec deps OpClose q = queue_Close q"
| "queue_exec deps (OpRestart now) q = queue_restart now q"

abbreviation queue_run :: "queue_deps \<Rightarrow> queue_op list \<Rightarrow> queue \<Rightarrow> queue" where
  "queue_run deps ops q \<equiv> fold (queue_exec deps) ops q"

text \<open>The only operations that may take the row at \<open>pos\<close> of \<open>rec\<close>, enqueued at \<open>at\<close>, away.\<close>

primrec may_remove :: "string \<Rightarrow> int \<Rightarrow> time \<Rightarrow> duration \<Rightarrow> queue_op \<Rightarrow> bool" where
  "may_remove rec pos at ttl (OpEnqueue fails now r env) = False"
| "may_remove rec pos at ttl (OpAck fails r p) = (r = rec \<and> pos \<le> int64 p)"
| "may_remove rec pos at ttl (OpSweep fails now) = (at + ttl \<le> now)"
| "may_remove rec pos at ttl (OpTurn fails now) = (at + ttl \<le> now)"
| "may_remove rec pos at ttl OpClose = False"
| "may_remove rec pos at ttl (OpRestart now) = (at + ttl \<le> now)"

text \<open>Sweeping is what turns and restarts do to the tables.\<close>

lemma turn_is_sweep_or_nothing:
  "same_tables q (watch_turn fails now q)
   \<or> same_tables (snd (sweep fails now (q\<lparr>q_timer := SpentTimer\<rparr>))) (watch_turn fails now q)"
  by (auto simp: watch_turn_def same_tables_def nudge_def split: sweep_timer.splits prod.splits sum.splits)

lemma sweep_no_faults_ok: "\<exists>q'. sweep no_faults now q = (Ok (), q')"
proof -
  obtain q1 where "evict no_faults (filter (expired now q) (q_inbox q)) q = (True, q1)"
    using evict_ok [of no_faults "filter (expired now q) (q_inbox q)" q] by auto
  then show ?thesis by (simp add: sweep_def Let_def)
qed

lemma restart_is_sweep:
  assumes "queue_inv q"
  shows "\<exists>q0. same_tables q q0 \<and> \<not> q_closed q0 \<and> queue_restart now q = snd (sweep no_faults now q0)"
proof -
  let ?q0 = "\<lparr>q_inbox = q_inbox q, q_cursor = q_cursor q, q_ttl = q_ttl q, q_maxSize = q_maxSize q,
     q_timer = NoTimer, q_closed = False, q_wake = False, q_swept = False, q_metrics = []\<rparr>"
  obtain q' where "sweep no_faults now ?q0 = (Ok (), q')" using sweep_no_faults_ok by blast
  then have "queue_restart now q = snd (sweep no_faults now ?q0)"
    using queue_invD(1,2) [OF assms] by (simp add: queue_restart_def newQueue_def Let_def)
  then show ?thesis by (intro exI [of _ ?q0]) (simp add: same_tables_def)
qed

text \<open>Every operation extends, keeps or filters the tables; the filter only drops what
  the operation may remove.\<close>

lemma exec_tables:
  assumes "queue_inv q"
  shows "queue_inv (queue_exec deps op q) \<and> q_ttl (queue_exec deps op q) = q_ttl q
    \<and> (\<forall>rec. cur_next (ensure_cursor rec q) \<le> cur_next (ensure_cursor rec (queue_exec deps op q)))
    \<and> (\<forall>r \<in> set (q_inbox q). \<not> may_remove (row_recipient r) (row_position r) (row_enqueued_at r)
          (q_ttl q) op \<longrightarrow> r \<in> set (q_inbox (queue_exec deps op q)))"
proof -
  have sw: "queue_inv q' \<and> q_ttl q' = q_ttl q
     \<and> (\<forall>rec. ensure_cursor rec q' = ensure_cursor rec q)
     \<and> (\<forall>r \<in> set (q_inbox q). \<not> row_enqueued_at r + q_ttl q \<le> now \<longrightarrow> r \<in> set (q_inbox q'))"
    if "same_tables q q0" "same_tables (snd (sweep fails now q0)) q'" for fails now q0 q'
  proof -
    obtain res q1 where s: "sweep fails now q0 = (res, q1)" by force
    have i0: "queue_inv q0" using that(1) assms same_tables_inv by blast
    then have "queue_inv q'" using sweep_inv [OF i0, of fails now] that(2) same_tables_inv by blast
    then show ?thesis
      using sweep_frame [OF i0 s] that s
      by (auto simp: same_tables_def ensure_cursor_def expired_def)
  qed
  show ?thesis
  proof (cases op)
    case (OpEnqueue fails now rec env)
    obtain res q' where e: "queue_Enqueue deps fails now rec env q = (res, q')" by force
    show ?thesis
      using enqueue_inv [OF assms, of deps fails now rec env] OpEnqueue
      by (cases rule: enqueue_cases [OF e]) (auto simp: e same_tables_def ensure_cursor_def)
  next
    case (OpAck fails rec pos)
    obtain res q' where e: "queue_Ack fails rec pos q = (res, q')" by force
    show ?thesis
      using ack_inv [OF assms, of fails rec pos] OpAck
      by (cases rule: ack_cases [OF e]) (auto simp: e)
  next
    case (OpSweep fails now)
    then show ?thesis using sw [of q fails now "snd (sweep fails now q)"] by simp
  next
    case (OpTurn fails now)
    have "same_tables q (q\<lparr>q_timer := SpentTimer\<rparr>)" by (simp add: same_tables_def)
    note st = this
    show ?thesis
    proof (cases "same_tables q (watch_turn fails now q)")
      case True
      then show ?thesis
        using OpTurn same_tables_inv [OF True assms] by (simp add: same_tables_def ensure_cursor_def)
    next
      case False
      then have "same_tables (snd (sweep fails now (q\<lparr>q_timer := SpentTimer\<rparr>))) (watch_turn fails now q)"
        using turn_is_sweep_or_nothing by blast
      from sw [OF st this] show ?thesis using OpTurn by simp
    qed
  next
    case OpClose
    then show ?thesis using assms same_tables_inv [of q "queue_Close q"] same_tables_simps(5) [of q]
      by (simp add: same_tables_def ensure_cursor_def)
  next
    case (OpRestart now)
    obtain q0 where "same_tables q q0" "queue_restart now q = snd (sweep no_faults now q0)"
      using restart_is_sweep [OF assms] by blast
    then show ?thesis using sw [of q0 no_faults now "queue_restart now q"] OpRestart by simp
  qed
qed

lemma run_tables:
  assumes "queue_inv q"
  shows "queue_inv (queue_run deps ops q) \<and> q_ttl (queue_run deps ops q) = q_ttl q
    \<and> cur_next (ensure_cursor rec q) \<le> cur_next (ensure_cursor rec (queue_run deps ops q))
    \<and> (r \<in> set (q_inbox q) \<longrightarrow> (\<forall>op \<in> set ops. \<not> may_remove (row_recipient r) (row_position r)
          (row_enqueued_at r) (q_ttl q) op) \<longrightarrow> r \<in> set (q_inbox (queue_run deps ops q)))"
  using assms
proof (induction ops arbitrary: q)
  case (Cons op ops)
  note e = exec_tables [OF Cons.prems, of deps op]
  show ?case
    using Cons.IH [of "queue_exec deps op q"] e by (auto intro: order_trans)
qed simp

section \<open>Properties\<close>

definition codec_ok :: "queue_deps \<Rightarrow> bool" where
  "codec_ok deps \<longleftrightarrow> (\<forall>env m. qd_marshal deps env = Some m \<longrightarrow> qd_unmarshal deps m = Some env)"

text \<open>The documented contract of the sealing seam: an unsealed body is the marshalled
  envelope verbatim.\<close>

definition seal_ok :: "queue_deps \<Rightarrow> bool" where
  "seal_ok deps \<longleftrightarrow> (\<forall>seal rec m stored. qd_atRest deps = Some seal \<longrightarrow>
     seal rec m = Some (stored, False) \<longrightarrow> stored = m)"

lemma keystoreSealer_seal_ok:
  "seal_ok \<lparr>qd_marshal = mar, qd_unmarshal = unm, qd_atRest = Some (keystoreSealer_Seal pins box)\<rparr>"
  by (auto simp: seal_ok_def keystoreSealer_Seal_def split: option.splits)

text \<open>What the recipient is handed for a message accepted at position \<open>p\<close>: the
  envelope itself, or the box the sealer made of its marshalled form.\<close>

definition handed_over :: "queue_deps \<Rightarrow> string \<Rightarrow> envelope \<Rightarrow> u64 \<Rightarrow> envelope" where
  "handed_over deps rec env p =
     (case (qd_atRest deps, qd_marshal deps env) of
        (Some seal, Some m) \<Rightarrow>
          (case seal rec m of
             Some (box, True) \<Rightarrow> (envelope_of (SealedDelivery box))\<lparr>env_position := p\<rparr>
           | _ \<Rightarrow> env\<lparr>env_position := p\<rparr>)
      | _ \<Rightarrow> env\<lparr>env_position := p\<rparr>)"

lemma stored_row_hands_over:
  assumes "codec_ok deps" "seal_ok deps" "qd_marshal deps env = Some m"
    "sealForStorage deps rec m = Some body"
  shows "deliveryFromStorage deps (int64 p) body = Some (handed_over deps rec env p)"
proof (cases "qd_atRest deps")
  case None
  then show ?thesis
    using assms by (auto simp: sealForStorage_def deliveryFromStorage_def handed_over_def codec_ok_def
        storedPlainMarker_def storedSealedMarker_def)
next
  case (Some seal)
  then obtain stored b where "seal rec m = Some (stored, b)"
    using assms(4) by (auto simp: sealForStorage_def split: option.splits prod.splits)
  moreover have "qd_unmarshal deps m = Some env" using assms(1,3) by (simp add: codec_ok_def)
  moreover have "\<not> b \<Longrightarrow> stored = m" using assms(2) Some calculation(1) by (auto simp: seal_ok_def)
  ultimately show ?thesis
    using assms(3,4) Some by (cases b) (auto simp: sealForStorage_def deliveryFromStorage_def
        handed_over_def storedPlainMarker_def storedSealedMarker_def)
qed

text \<open>
  C2. No message is lost: once the queue has accepted a message for a recipient it
  is handed to that recipient by every later resume below its position,
  through any run of enqueues, failing statements, shutdowns and restarts, as
  long as the run neither acknowledges the position for that recipient nor
  sweeps at or after the end of its time to live.
\<close>

theorem accepted_message_is_resumed:
  assumes "queue_inv q" "codec_ok deps" "seal_ok deps"
    and "queue_Enqueue deps fails at rec env q = (Ok p, q1)"
    and "\<forall>op \<in> set ops. \<not> may_remove rec (int64 p) at (q_ttl q) op"
    and "int64 after < int64 p"
  shows "\<exists>ds. queue_Resume deps no_faults rec after (queue_run deps ops q1) = Ok ds \<and>
           \<lparr>del_Position = p, del_Envelope = handed_over deps rec env p\<rparr> \<in> set ds"
proof -
  obtain m body where m: "qd_marshal deps env = Some m" "sealForStorage deps rec m = Some body"
    and ret: "retained rec q1 = retained rec q @ [\<lparr>row_recipient = rec, row_position = int64 p,
      row_message_id = env_message_id env, row_body = body, row_enqueued_at = at\<rparr>]"
    using enqueue_retained [OF assms(4), of rec] by auto
  let ?row = "\<lparr>row_recipient = rec, row_position = int64 p,
      row_message_id = env_message_id env, row_body = body, row_enqueued_at = at\<rparr>"
  have "?row \<in> set (retained rec q1)" using ret by simp
  then have r1: "?row \<in> set (q_inbox q1)" by (simp add: retained_def)
  have "q_ttl q1 = q_ttl q" by (cases rule: enqueue_cases [OF assms(4)]) auto
  moreover have iv1: "queue_inv q1" using enqueue_inv [OF assms(1), of deps fails at rec env] assms(4) by simp
  ultimately have iv: "queue_inv (queue_run deps ops q1)"
    and "?row \<in> set (q_inbox (queue_run deps ops q1))"
    using run_tables [OF iv1, where r = ?row and ops = ops and deps = deps] r1 assms(5) by auto
  then have "?row \<in> set (retained rec (queue_run deps ops q1))" by (simp add: retained_def)
  moreover have "row_delivery deps ?row
      = Some \<lparr>del_Position = p, del_Envelope = handed_over deps rec env p\<rparr>"
    using stored_row_hands_over [OF assms(2,3) m] by (simp add: row_delivery_def)
  ultimately have "\<lparr>del_Position = p, del_Envelope = handed_over deps rec env p\<rparr>
      \<in> set (resumed deps rec after (queue_run deps ops q1))"
    using assms(6) by (subst oq.resume_mem [OF iv]) (auto intro!: bexI [of _ ?row])
  then show ?thesis by (simp add: Resume_resumed)
qed

definition sample_env :: envelope where
  "sample_env = (envelope_of (DirectMessage ''bob'' ''hi'' ''ann''))\<lparr>env_message_id := ''01A''\<rparr>"

definition sample_deps :: queue_deps where
  "sample_deps = \<lparr>qd_marshal = (\<lambda>e. if e = sample_env then Some [7] else None),
     qd_unmarshal = (\<lambda>b. if b = [7] then Some sample_env else None), qd_atRest = None\<rparr>"

definition sample_queue :: queue where
  "sample_queue = \<lparr>q_inbox = [], q_cursor = (\<lambda>_. None), q_ttl = 100, q_maxSize = 2,
     q_timer = NoTimer, q_closed = False, q_wake = False, q_swept = False, q_metrics = []\<rparr>"

lemma sample_deps_ok: "codec_ok sample_deps" "seal_ok sample_deps"
  by (auto simp: codec_ok_def seal_ok_def sample_deps_def split: if_splits)

lemma sample_queue_inv: "queue_inv sample_queue"
  by (simp add: queue_inv_def sample_queue_def retained_def ensure_cursor_def)

lemma sample_enqueue:
  "queue_Enqueue sample_deps no_faults 5 ''bob'' sample_env sample_queue =
     (Ok 1, snd (queue_Enqueue sample_deps no_faults 5 ''bob'' sample_env sample_queue))"
  by (simp add: queue_Enqueue_def sample_deps_def sealForStorage_def sample_queue_def Let_def
      ensure_cursor_def retained_def uint64_def)

lemma int64_numerals [simp]: "int64 0 = 0" "int64 1 = 1"
  by (simp_all add: int64_small)

theorem accepted_message_is_resumed_witness:
  "\<exists>ds. queue_Resume sample_deps no_faults ''bob'' 0
      (queue_run sample_deps [OpAck no_faults ''ann'' 9, OpRestart 60, OpTurn no_faults 104]
        (snd (queue_Enqueue sample_deps no_faults 5 ''bob'' sample_env sample_queue))) = Ok ds \<and>
    \<lparr>del_Position = 1, del_Envelope = handed_over sample_deps ''bob'' sample_env 1\<rparr> \<in> set ds"
  by (rule accepted_message_is_resumed [OF sample_queue_inv sample_deps_ok sample_enqueue])
    (simp_all add: sample_queue_def)

text \<open>
  C6. Positions are never reused: of two messages accepted for one recipient the
  later one has the strictly larger position, whatever happened between them:
  a full drain, expiry of every row, a shutdown or a restart.
\<close>

theorem positions_never_reused:
  assumes "queue_inv q"
    and "queue_Enqueue deps f1 t1 rec e1 q = (Ok p1, q1)"
    and "queue_Enqueue deps f2 t2 rec e2 (queue_run deps ops q1) = (Ok p2, q2)"
  shows "0 < int64 p1 \<and> int64 p1 < int64 p2 \<and> p1 < p2"
proof -
  let ?n = "\<lambda>q. cur_next (ensure_cursor rec q)"
  have iv1: "queue_inv q1" using enqueue_inv [OF assms(1), of deps f1 t1 rec e1] assms(2) by simp
  have a: "int64 p1 = ?n q" "?n q1 = ?n q + 1" "?n q < 2 ^ 63"
    by (cases rule: enqueue_cases [OF assms(2)]; simp add: int64_uint64 ensure_cursor_def)+
  have b: "int64 p2 = ?n (queue_run deps ops q1)"
    by (cases rule: enqueue_cases [OF assms(3)]; simp add: int64_uint64)
  have "?n q1 \<le> ?n (queue_run deps ops q1)" using run_tables [OF iv1] by blast
  then have lt: "int64 p1 < int64 p2" "0 < int64 p1"
    using a b queue_invD(7) [OF assms(1), of rec] by auto
  have "uint64 (int64 p1) < uint64 (int64 p2)"
    using lt int64_bounds [of p1] int64_bounds [of p2]
    by (simp add: uint64_def word_less_alt uint_word_of_int)
  then show ?thesis using lt by simp
qed

lemma sample_enqueue_again:
  "queue_Enqueue sample_deps no_faults 9 ''bob'' sample_env
     (queue_run sample_deps [OpAck no_faults ''bob'' 1, OpRestart 60]
       (snd (queue_Enqueue sample_deps no_faults 5 ''bob'' sample_env sample_queue))) =
   (Ok 2, snd (queue_Enqueue sample_deps no_faults 9 ''bob'' sample_env
     (queue_run sample_deps [OpAck no_faults ''bob'' 1, OpRestart 60]
       (snd (queue_Enqueue sample_deps no_faults 5 ''bob'' sample_env sample_queue)))))"
  by (simp add: queue_Enqueue_def sample_deps_def sealForStorage_def sample_queue_def Let_def
      ensure_cursor_def retained_def uint64_def queue_Ack_def observeDepth_def queue_restart_def
      newQueue_def sweep_def rearmLocked_def earliest_def nudge_def expired_def)

theorem positions_never_reused_witness: "0 < int64 1 \<and> int64 1 < int64 2 \<and> (1 :: u64) < 2"
  by (rule positions_never_reused [OF sample_queue_inv sample_enqueue sample_enqueue_again])




text \<open>
  C31. Bounded retention with an all-or-nothing refusal: whatever was run before, no
  recipient holds more than the cap; a well-formed message is refused with the
  capacity error exactly when the recipient's inbox is at the cap; and an
  enqueue that returns any error leaves both tables untouched.
\<close>

theorem capacity_is_enforced:
  assumes "queue_inv q0" "q = queue_run deps ops q0"
    and "queue_Enqueue deps fails now rec env q = (res, q')"
  shows "int (length (retained rec' q)) \<le> q_maxSize q
       \<and> (\<not> q_closed q \<and> fails = no_faults \<and> qd_marshal deps env = Some m
            \<and> sealForStorage deps rec m = Some body
          \<longrightarrow> (res = Err (CapacityError rec (q_maxSize q))
               \<longleftrightarrow> int (length (retained rec q)) = q_maxSize q))
       \<and> (\<forall>e. res = Err e \<longrightarrow> q_inbox q' = q_inbox q \<and> q_cursor q' = q_cursor q)"
proof -
  have iv: "queue_inv q" using run_tables [OF assms(1)] assms(2) by blast
  have "q_inbox q' = q_inbox q \<and> q_cursor q' = q_cursor q" if "res = Err e" for e
    using that by (cases rule: enqueue_cases [OF assms(3)]) (auto simp: same_tables_def)
  moreover have "res = Err (CapacityError rec (q_maxSize q))
               \<longleftrightarrow> int (length (retained rec q)) = q_maxSize q"
    if "\<not> q_closed q" "fails = no_faults" "qd_marshal deps env = Some m"
      "sealForStorage deps rec m = Some body"
    using assms(3) that queue_invD(4) [OF iv, of rec]
    by (auto simp: queue_Enqueue_def Let_def split: if_splits)
  ultimately show ?thesis using queue_invD(4) [OF iv] by blast
qed

theorem capacity_is_enforced_witness:
  "fst (queue_Enqueue sample_deps no_faults 7 ''bob'' sample_env
     (queue_run sample_deps [OpEnqueue no_faults 5 ''bob'' sample_env,
       OpEnqueue no_faults 6 ''bob'' sample_env] sample_queue)) = Err (CapacityError ''bob'' 2)"
proof -
  define q where "q = queue_run sample_deps [OpEnqueue no_faults 5 ''bob'' sample_env,
       OpEnqueue no_faults 6 ''bob'' sample_env] sample_queue"
  have "\<not> q_closed q" "q_maxSize q = 2" "length (retained ''bob'' q) = 2"
    by (simp_all add: q_def queue_Enqueue_def sample_deps_def sealForStorage_def sample_queue_def
        Let_def ensure_cursor_def retained_def uint64_def rearmLocked_def nudge_def earliest_def
        int64_small)
  moreover have "qd_marshal sample_deps sample_env = Some [7]"
    "sealForStorage sample_deps ''bob'' [7] = Some [0, 7]"
    by (simp_all add: sample_deps_def sealForStorage_def storedPlainMarker_def)
  ultimately show ?thesis
    using capacity_is_enforced [OF sample_queue_inv q_def surjective_pairing,
        where fails = no_faults and now = 7 and rec = "''bob''" and env = sample_env
          and m = "[7]" and body = "[0, 7]"]
    by (simp add: q_def)
qed

section \<open>Expiry\<close>

lemma earliest_min:
  "earliest q = (if q_inbox q = [] then None else Some (Min (row_enqueued_at ` set (q_inbox q))))"
proof (cases "q_inbox q")
  case (Cons r rs)
  then show ?thesis
    using Min.set_eq_fold [of "row_enqueued_at r" "map row_enqueued_at rs"]
    by (simp add: earliest_def)
qed (simp add: earliest_def)

lemma sweep_ok:
  assumes "queue_inv q"
  shows "\<exists>q'. sweep no_faults now q = (Ok (), q')
     \<and> q_inbox q' = filter (\<lambda>r. \<not> expired now q r) (q_inbox q)
     \<and> q_timer q' = q_timer (rearmLocked no_faults now q')
     \<and> q_closed q' = q_closed q \<and> q_ttl q' = q_ttl q \<and> q_cursor q' = q_cursor q"
proof -
  let ?due = "filter (expired now q) (q_inbox q)"
  obtain q1 where e: "evict no_faults ?due q = (True, q1)"
    and i1: "q_inbox q1 = filter (\<lambda>r. \<not> (\<exists>e \<in> set ?due.
        row_recipient r = row_recipient e \<and> row_position r = row_position e)) (q_inbox q)"
    using evict_ok [of no_faults ?due q] by auto
  then have i1: "q_inbox q1 = filter (\<lambda>r. \<not> expired now q r) (q_inbox q)"
    using row_unique [OF assms] by (auto intro!: filter_cong)
  let ?q2 = "fold (observeDepth no_faults) (remdups (map row_recipient ?due)) q1"
  have q': "sweep no_faults now q = (Ok (), let q3 = rearmLocked no_faults now ?q2 in
      if ?due \<noteq> [] then q3\<lparr>q_swept := True\<rparr> else q3)"
    using e by (simp add: sweep_def Let_def)
  have o: "q_inbox ?q2 = q_inbox q1" using same_tables_fold_observe [of q1] by (simp add: same_tables_def)
  have t: "q_timer (rearmLocked no_faults now (rearmLocked no_faults now p)) = q_timer (rearmLocked no_faults now p)"
    "q_timer (rearmLocked no_faults now (rearmLocked no_faults now p\<lparr>q_swept := True\<rparr>))
       = q_timer (rearmLocked no_faults now p)"
    "q_inbox (rearmLocked no_faults now p) = q_inbox p" for p
    by (auto simp: rearmLocked_def nudge_def Let_def earliest_def split: list.splits)
  show ?thesis
    using q' o i1 t sweep_frame [OF assms q'] by (auto simp: Let_def)
qed

lemma rearm_timer:
  "q_timer (rearmLocked no_faults now q) =
     (if q_inbox q = [] then NoTimer
      else ArmedAt (max now (Min (row_enqueued_at ` set (q_inbox q)) + q_ttl q)))"
  by (auto simp: rearmLocked_def earliest_min nudge_def Let_def)

text \<open>The watcher is armed for every retained row: its timer is due no later than the row
  expires, or no later than now.\<close>

definition timer_inv :: "time \<Rightarrow> queue \<Rightarrow> bool" where
  "timer_inv now q \<longleftrightarrow> q_closed q \<or> q_inbox q = [] \<or>
     (\<exists>t. q_timer q = ArmedAt t \<and> (\<forall>r \<in> set (q_inbox q). t \<le> max now (row_enqueued_at r + q_ttl q)))"

lemma timer_inv_rearm:
  "q_timer q = q_timer (rearmLocked no_faults now q) \<Longrightarrow> timer_inv now q"
proof -
  assume t: "q_timer q = q_timer (rearmLocked no_faults now q)"
  have "max now (Min (row_enqueued_at ` set (q_inbox q)) + q_ttl q) \<le> max now (row_enqueued_at r + q_ttl q)"
    if "r \<in> set (q_inbox q)" for r
    using that by (intro max.mono) auto
  then show ?thesis using t by (auto simp: timer_inv_def rearm_timer)
qed

lemma timer_inv_later: "timer_inv now q \<Longrightarrow> now \<le> now' \<Longrightarrow> timer_inv now' q"
  by (fastforce simp: timer_inv_def)

lemma timer_inv_subset:
  "timer_inv now q \<Longrightarrow> set (q_inbox q') \<subseteq> set (q_inbox q) \<Longrightarrow> q_timer q' = q_timer q \<Longrightarrow>
     q_closed q' = q_closed q \<Longrightarrow> q_ttl q' = q_ttl q \<Longrightarrow> timer_inv now q'"
  by (fastforce simp: timer_inv_def)

text \<open>
  The queue and the clock as a transition system.  The enqueue and acknowledge
  transactions may fail at any statement; the statements of the sweep and of the
  re-arming succeed.
\<close>

inductive queue_reach :: "queue_deps \<Rightarrow> time \<Rightarrow> queue \<Rightarrow> bool" for deps where
  start: "newQueue no_faults now ttl maxSize inbox cursors = Ok q \<Longrightarrow>
     queue_inv \<lparr>q_inbox = inbox, q_cursor = cursors, q_ttl = ttl, q_maxSize = maxSize,
       q_timer = NoTimer, q_closed = False, q_wake = False, q_swept = False, q_metrics = []\<rparr> \<Longrightarrow>
     queue_reach deps now q"
| tick: "queue_reach deps now q \<Longrightarrow> now \<le> now' \<Longrightarrow> queue_reach deps now' q"
| enq: "queue_reach deps now q \<Longrightarrow> \<not> fails StMin \<Longrightarrow>
     queue_reach deps now (snd (queue_Enqueue deps fails now rec env q))"
| ack: "queue_reach deps now q \<Longrightarrow> queue_reach deps now (snd (queue_Ack fails rec pos q))"
| turn: "queue_reach deps now q \<Longrightarrow> queue_reach deps now (watch_turn no_faults now q)"
| close: "queue_reach deps now q \<Longrightarrow> queue_reach deps now (queue_Close q)"

lemma turn_timer_inv:
  assumes "queue_inv q" "timer_inv now q" shows "timer_inv now (watch_turn no_faults now q)"
proof (cases "\<not> q_closed q \<and> (\<exists>t \<le> now. q_timer q = ArmedAt t)")
  case True
  obtain q' where "sweep no_faults now (q\<lparr>q_timer := SpentTimer\<rparr>) = (Ok (), q')"
    "q_timer q' = q_timer (rearmLocked no_faults now q')"
    using sweep_ok [of "q\<lparr>q_timer := SpentTimer\<rparr>" now] assms(1) by auto
  then show ?thesis using True timer_inv_rearm by (auto simp: watch_turn_def)
next
  case False
  then have "watch_turn no_faults now q = q \<or> watch_turn no_faults now q = q\<lparr>q_wake := False\<rparr>"
    by (auto simp: watch_turn_def split: sweep_timer.splits)
  then show ?thesis using timer_inv_subset [OF assms(2)] by auto
qed

lemma enqueue_timer_inv:
  assumes "timer_inv now q" "\<not> fails StMin"
  shows "timer_inv now (snd (queue_Enqueue deps fails now rec env q))"
proof -
  obtain res q' where e: "queue_Enqueue deps fails now rec env q = (res, q')" by force
  then have "timer_inv now q'"
  proof (cases rule: enqueue_cases)
    case refused
    then show ?thesis using timer_inv_subset [OF assms(1)] by (simp add: same_tables_def)
  next
    case (accepted m body cur)
    have "q_timer (rearmLocked fails now (q\<lparr>q_inbox := q_inbox q'\<rparr>)) = q_timer (rearmLocked no_faults now q')"
      using accepted assms(2) by (simp add: rearmLocked_def earliest_def nudge_def Let_def split: list.split)
    then show ?thesis using accepted(14) assms(2) timer_inv_rearm by simp
  qed
  then show ?thesis using e by simp
qed

lemma ack_timer_inv: "timer_inv now q \<Longrightarrow> timer_inv now (snd (queue_Ack fails rec pos q))"
proof -
  assume t: "timer_inv now q"
  obtain res q' where a: "queue_Ack fails rec pos q = (res, q')" by force
  then have "timer_inv now q'"
    by (cases rule: ack_cases) (use t in \<open>auto intro: timer_inv_subset [OF t]\<close>)
  then show ?thesis using a by simp
qed

lemma queue_reach_inv: "queue_reach deps now q \<Longrightarrow> queue_inv q \<and> timer_inv now q"
proof (induction rule: queue_reach.induct)
  case (start now ttl maxSize inbox cursors q)
  then obtain q' where "newQueue no_faults now ttl maxSize inbox cursors = Ok q'"
    "queue_inv q'" "q_timer q' = q_timer (rearmLocked no_faults now q')"
    using sweep_ok [OF start(2), of now] sweep_inv [OF start(2), of no_faults now]
    by (auto simp: newQueue_def Let_def split: if_splits)
  then show ?case using start(1) timer_inv_rearm by auto
next
  case (tick now q now')
  then show ?case using timer_inv_later by blast
next
  case (enq now q fails rec env)
  then show ?case by (simp add: enqueue_inv enqueue_timer_inv)
next
  case (ack now q fails rec pos)
  then show ?case by (simp add: ack_inv ack_timer_inv)
next
  case (turn now q)
  then show ?case
    using exec_tables [of q deps "OpTurn no_faults now"] by (simp add: turn_timer_inv)
next
  case (close now q)
  then show ?case
    using exec_tables [of q deps OpClose] by (auto simp: timer_inv_def queue_Close_def)
qed


definition sample_reached :: queue where
  "sample_reached = snd (queue_Enqueue sample_deps no_faults 5 ''bob'' sample_env sample_queue)"

lemma sample_reach: "queue_reach sample_deps 106 sample_reached"
proof -
  have "newQueue no_faults 5 100 2 [] (\<lambda>_. None) = Ok (sample_queue\<lparr>q_wake := True\<rparr>)"
    by (simp add: newQueue_def sample_queue_def Let_def sweep_def rearmLocked_def earliest_def nudge_def)
  then have "queue_reach sample_deps 5 (sample_queue\<lparr>q_wake := True\<rparr>)"
    using sample_queue_inv unfolding sample_queue_def by (rule queue_reach.start)
  then have "queue_reach sample_deps 5 (snd (queue_Enqueue sample_deps no_faults 5 ''bob'' sample_env
      (sample_queue\<lparr>q_wake := True\<rparr>)))" by (rule queue_reach.enq) simp
  moreover have "snd (queue_Enqueue sample_deps no_faults 5 ''bob'' sample_env
      (sample_queue\<lparr>q_wake := True\<rparr>)) = sample_reached"
    by (simp add: sample_reached_def queue_Enqueue_def sample_deps_def sealForStorage_def
        sample_queue_def Let_def ensure_cursor_def retained_def uint64_def rearmLocked_def nudge_def
        earliest_def)
  ultimately show ?thesis using queue_reach.tick by force
qed


text \<open>
  A failed sweep is not retried: when the query of a due sweep fails, the
  watcher has consumed its timer, and no later turn, at any time and with every
  statement succeeding, removes an expired row until another operation re-arms
  the timer.
\<close>

theorem failed_sweep_is_not_retried:
  assumes "\<not> q_closed q" "q_timer q = ArmedAt t" "t \<le> now" "fails StQuery"
  shows "q_inbox (fold (watch_turn no_faults) later (watch_turn fails now q)) = q_inbox q
       \<and> q_timer (fold (watch_turn no_faults) later (watch_turn fails now q)) = SpentTimer"
proof -
  have "watch_turn fails now q = nudge (q\<lparr>q_timer := SpentTimer\<rparr>)"
    using assms by (simp add: watch_turn_def sweep_def)
  moreover have "q_inbox (fold (watch_turn no_faults) later p) = q_inbox p
      \<and> q_timer (fold (watch_turn no_faults) later p) = SpentTimer"
    if "q_timer p = SpentTimer" for p
    using that by (induction later arbitrary: p) (auto simp: watch_turn_def)
  ultimately show ?thesis by (simp add: nudge_def)
qed

theorem failed_sweep_is_not_retried_witness:
  "q_inbox (fold (watch_turn no_faults) [300, 400] (watch_turn (\<lambda>s. s = StQuery) 106
     (sample_queue\<lparr>q_timer := ArmedAt 105\<rparr>))) = q_inbox sample_queue"
  using failed_sweep_is_not_retried [of "sample_queue\<lparr>q_timer := ArmedAt 105\<rparr>" 105 106
      "\<lambda>s. s = StQuery" "[300, 400]"] by (simp add: sample_queue_def)

text \<open>
  The pending count bounds the resume from above, and they agree exactly when
  every counted row can be decoded: rows that cannot be read are counted but
  not handed over.
\<close>

theorem pending_count_bounds_resume:
  assumes "queue_inv q" "q_maxSize q < 2 ^ 63"
    and "queue_Resume deps no_faults rec after q = Ok ds"
    and "queue_PendingCount no_faults rec after q = Ok n"
  shows "length ds \<le> unat n \<and>
    (length ds = unat n \<longleftrightarrow> (\<forall>r \<in> set (retained rec q). int64 after < row_position r \<longrightarrow>
        deliveryFromStorage deps (row_position r) (row_body r) \<noteq> None))"
proof -
  let ?rows = "filter (\<lambda>x. int64 after < row_position x) (retained rec q)"
  have "int (length ?rows) \<le> int (length (retained rec q))" by simp
  also have "\<dots> \<le> q_maxSize q" by (rule queue_invD(4) [OF assms(1)])
  also have "\<dots> < 2 ^ 64" using assms(2) by simp
  finally have n: "unat n = length ?rows"
    using assms(4) unat_of_nat_u64 [of "length ?rows"] by (simp add: queue_PendingCount_def)
  have "length ds = length (filter (\<lambda>x. row_delivery deps x \<noteq> None) ?rows)"
    using assms(1,3) by (auto simp: Resume_resumed resumed_def resume_rows_backlog map_filter_def)
  moreover have "length (filter P xs) = length xs \<longleftrightarrow> (\<forall>x \<in> set xs. P x)" for P and xs :: "inbox_row list"
    using length_filter_less [of _ xs P] by (metis filter_True less_irrefl)
  from this [of "\<lambda>x. row_delivery deps x \<noteq> None" ?rows]
  have "length (filter (\<lambda>x. row_delivery deps x \<noteq> None) ?rows) = length ?rows \<longleftrightarrow>
      (\<forall>r \<in> set (retained rec q). int64 after < row_position r \<longrightarrow>
        deliveryFromStorage deps (row_position r) (row_body r) \<noteq> None)"
    by (auto simp: row_delivery_def)
  ultimately show ?thesis
    using length_filter_le [of "\<lambda>x. row_delivery deps x \<noteq> None" ?rows] by (simp only: n)
qed

text \<open>
  An acknowledgement at or above \<open>2 ^ 63\<close> is a negative position after the
  conversion to \<^verbatim>\<open>int64\<close>: it succeeds, removes no row and leaves every counter
  where it was.
\<close>

theorem huge_ack_covers_nothing:
  assumes "queue_inv q" "\<not> q_closed q" "2 ^ 63 \<le> uint p" "0 \<le> cur_acked (ensure_cursor rec q)"
  shows "\<exists>q'. queue_Ack no_faults rec p q = (Ok (), q') \<and> q_inbox q' = q_inbox q
       \<and> ensure_cursor rec q' = ensure_cursor rec q"
proof -
  have neg: "int64 p < 0" using int64_large [OF assms(3)] uint_lt2p [of p] by simp
  have "\<not> (row_recipient r = rec \<and> row_position r \<le> int64 p)" if "r \<in> set (q_inbox q)" for r
    using queue_invD(5) [OF assms(1), of r rec] that neg by (auto simp: retained_def)
  then have "filter (\<lambda>r. \<not> (row_recipient r = rec \<and> row_position r \<le> int64 p)) (q_inbox q) = q_inbox q"
    by (simp add: filter_id_conv)
  then show ?thesis
    using assms(2,4) neg by (simp add: queue_Ack_def Let_def observeDepth_def) (simp add: ensure_cursor_def)
qed

theorem huge_ack_covers_nothing_witness:
  "\<exists>q'. queue_Ack no_faults ''bob'' (2 ^ 63) sample_reached = (Ok (), q')
     \<and> q_inbox q' = q_inbox sample_reached \<and> ensure_cursor ''bob'' q' = ensure_cursor ''bob'' sample_reached"
  by (rule huge_ack_covers_nothing)
    (use queue_reach_inv [OF sample_reach] in \<open>simp_all add: sample_reached_def queue_Enqueue_def
       sample_deps_def sealForStorage_def sample_queue_def Let_def ensure_cursor_def retained_def
       uint64_def rearmLocked_def nudge_def earliest_def\<close>)

theorem pending_count_bounds_resume_witness:
  "length (resumed sample_deps ''bob'' 0 sample_reached) \<le> unat (1 :: u64)"
proof -
  have "q_maxSize sample_reached < 2 ^ 63"
    "queue_PendingCount no_faults ''bob'' 0 sample_reached = Ok 1"
    by (simp_all add: sample_reached_def queue_Enqueue_def sample_deps_def sealForStorage_def
        sample_queue_def Let_def ensure_cursor_def retained_def uint64_def rearmLocked_def nudge_def
        earliest_def queue_PendingCount_def int64_small)
  then show ?thesis
    using pending_count_bounds_resume [where rec = "''bob''" and after = 0 and deps = sample_deps
        and q = sample_reached and n = 1 and ds = "resumed sample_deps ''bob'' 0 sample_reached"]
      queue_reach_inv [OF sample_reach] by (simp add: Resume_resumed)
qed

end
