(* ===== verification/Keystore.thy ===== *)
theory Keystore
  imports Crypto
begin

text \<open>
  \<^verbatim>\<open>src/internal/crypto/keystore.go\<close>: the trust-on-first-use pin store.  The file is
  modelled by its decoded content; a JSON file without a \<^verbatim>\<open>peers\<close> object decodes
  to a nil Go map, on which an assignment panics.  The hash of the fingerprint
  and the operator's confirmation are arguments.
\<close>

section \<open>State\<close>

record pin_record =
  pin_Key :: bytes
  pin_PinnedAt :: time
  pin_ConfirmedAt :: "time option"

datatype keystore_disk =
    NoFile
  | CorruptFile
  | KeystoreFile int "((string \<times> pin_record option) list) option"

record keystore =
  ks_peers :: "((string \<times> pin_record) list) option"
  ks_disk :: keystore_disk

record key_change_request =
  kc_Peer :: string
  kc_OldFingerprint :: string
  kc_NewFingerprint :: string

datatype keystore_error = EmptyPeer | PersistFailed | KeyChangeRefused string string string
  | KeystoreCorrupt | KeystoreVersion int | CorruptEntry | KeystoreIO | NilMapPanic

definition keystoreVersion :: int where "keystoreVersion = 1"

section \<open>Operations\<close>

definition OpenKeystore :: "(syscall \<Rightarrow> bool) \<Rightarrow> keystore_disk \<Rightarrow> (keystore_error, keystore) result" where
  "OpenKeystore fails disk =
     (if fails SysMkdir \<or> fails SysChmodDir then Err KeystoreIO
      else case disk of
        NoFile \<Rightarrow> Ok \<lparr>ks_peers = Some [], ks_disk = disk\<rparr>
      | _ \<Rightarrow>
        (if fails SysRead then Err KeystoreIO
         else case disk of
           KeystoreFile version peers \<Rightarrow>
             (if version \<noteq> keystoreVersion then Err (KeystoreVersion version)
              else case peers of
                None \<Rightarrow> (if fails SysChmod then Err KeystoreIO else Ok \<lparr>ks_peers = None, ks_disk = disk\<rparr>)
              | Some ps \<Rightarrow>
                  (if list_ex (\<lambda>(peer, rec). peer = '''' \<or>
                        (case rec of None \<Rightarrow> True | Some r \<Rightarrow> length (pin_Key r) \<noteq> pubKeySize)) ps
                   then Err CorruptEntry
                   else if fails SysChmod then Err KeystoreIO
                   else Ok \<lparr>ks_peers = Some (map (\<lambda>(peer, rec). (peer, the rec)) ps), ks_disk = disk\<rparr>))
         | _ \<Rightarrow> Err KeystoreCorrupt))"

definition ks_saveLocked :: "(syscall \<Rightarrow> bool) \<Rightarrow> keystore \<Rightarrow> bool \<times> keystore" where
  "ks_saveLocked fails ks =
     (if fails SysCreateTemp \<or> fails SysChmodTemp \<or> fails SysWrite \<or> fails SysSync
         \<or> fails SysCloseFile \<or> fails SysRename
      then (False, ks)
      else (True, ks\<lparr>ks_disk := KeystoreFile keystoreVersion
              (map_option (map (\<lambda>(peer, rec). (peer, Some rec))) (ks_peers ks))\<rparr>))"

definition Authorize ::
  "(bytes \<Rightarrow> bytes) \<Rightarrow> (syscall \<Rightarrow> bool) \<Rightarrow> time \<Rightarrow> string \<Rightarrow> bytes
     \<Rightarrow> (key_change_request \<Rightarrow> bool) option \<Rightarrow> keystore \<Rightarrow> (keystore_error, unit) result \<times> keystore" where
  "Authorize sha fails now peer presented confirm ks =
     (if peer = '''' then (Err EmptyPeer, ks)
      else case (case ks_peers ks of None \<Rightarrow> None | Some ps \<Rightarrow> map_of ps peer) of
        None \<Rightarrow>
          (case ks_peers ks of
             None \<Rightarrow> (Err NilMapPanic, ks)
           | Some ps \<Rightarrow>
               (case ks_saveLocked fails (ks\<lparr>ks_peers := Some (AList.update peer
                        \<lparr>pin_Key = presented, pin_PinnedAt = now, pin_ConfirmedAt = None\<rparr> ps)\<rparr>) of
                  (False, ks1) \<Rightarrow>
                    (Err PersistFailed,
                     ks1\<lparr>ks_peers := map_option (AList.delete peer) (ks_peers ks1)\<rparr>)
                | (True, ks1) \<Rightarrow> (Ok (), ks1)))
      | Some existing \<Rightarrow>
          (if pin_Key existing = presented then (Ok (), ks)
           else let oldFP = Fingerprint sha (pin_Key existing);
                    newFP = Fingerprint sha presented;
                    req = \<lparr>kc_Peer = peer, kc_OldFingerprint = oldFP, kc_NewFingerprint = newFP\<rparr>
                in if (case confirm of None \<Rightarrow> True | Some ask \<Rightarrow> \<not> ask req)
                   then (Err (KeyChangeRefused peer oldFP newFP), ks)
                   else (case ks_saveLocked fails (ks\<lparr>ks_peers := map_option (AList.update peer
                                \<lparr>pin_Key = presented, pin_PinnedAt = pin_PinnedAt existing,
                                 pin_ConfirmedAt = Some now\<rparr>) (ks_peers ks)\<rparr>) of
                           (False, ks1) \<Rightarrow>
                             (Err PersistFailed,
                              ks1\<lparr>ks_peers := map_option (AList.update peer existing) (ks_peers ks1)\<rparr>)
                         | (True, ks1) \<Rightarrow> (Ok (), ks1))))"

definition PinnedKey :: "string \<Rightarrow> keystore \<Rightarrow> bytes option" where
  "PinnedKey peer ks = (case ks_peers ks of None \<Rightarrow> None | Some ps \<Rightarrow> map_option pin_Key (map_of ps peer))"

definition ks_Entries :: "keystore \<Rightarrow> (string \<times> bytes) list" where
  "ks_Entries ks = (case ks_peers ks of None \<Rightarrow> []
     | Some ps \<Rightarrow> sort_key fst (map (\<lambda>(peer, rec). (peer, pin_Key rec)) ps))"

section \<open>Memory and disk\<close>

definition keystore_inv :: "keystore \<Rightarrow> bool" where
  "keystore_inv ks \<longleftrightarrow> (case ks_peers ks of
      None \<Rightarrow> ks_disk ks = KeystoreFile keystoreVersion None
    | Some ps \<Rightarrow> wf_map ps
        \<and> (\<forall>(peer, r) \<in> set ps. peer \<noteq> '''' \<and> length (pin_Key r) = pubKeySize)
        \<and> (ks_disk ks = KeystoreFile keystoreVersion (Some (map (\<lambda>(peer, rec). (peer, Some rec)) ps))
           \<or> ks_disk ks = NoFile \<and> ps = []))"

lemma update_set: "(k', v') \<in> set (AList.update k v m) \<Longrightarrow> (k', v') = (k, v) \<or> (k', v') \<in> set m"
  by (induction m) (auto split: if_splits)

lemma update_undo: "map_of m k = None \<Longrightarrow> AList.delete k (AList.update k v m) = m"
proof (induction m)
  case (Cons a m)
  then show ?case by (cases a) (auto simp: AList.delete_eq split: if_splits)
qed (simp add: AList.delete_eq)

lemma update_back: "map_of m k = Some old \<Longrightarrow> wf_map m \<Longrightarrow> AList.update k old (AList.update k v m) = m"
  by (induction m) (auto simp: wf_map_def)

text \<open>The outcomes of one authorisation.\<close>

lemma Authorize_cases:
  assumes "keystore_inv ks" "Authorize sha fails now peer key confirm ks = (res, ks')"
  obtains (same) "ks' = ks"
  | (pinned) ps where "res = Ok ()" "ks_peers ks = Some ps" "peer \<noteq> ''''" "PinnedKey peer ks = None"
      "ks_peers ks' = Some (AList.update peer \<lparr>pin_Key = key, pin_PinnedAt = now, pin_ConfirmedAt = None\<rparr> ps)"
      "ks_disk ks' = KeystoreFile keystoreVersion (map_option (map (\<lambda>(peer, rec). (peer, Some rec))) (ks_peers ks'))"
  | (confirmed) ps old ask where "res = Ok ()" "ks_peers ks = Some ps" "map_of ps peer = Some old" "peer \<noteq> ''''"
      "confirm = Some ask" "pin_Key old \<noteq> key"
      "ask \<lparr>kc_Peer = peer, kc_OldFingerprint = Fingerprint sha (pin_Key old),
            kc_NewFingerprint = Fingerprint sha key\<rparr>"
      "ks_peers ks' = Some (AList.update peer \<lparr>pin_Key = key, pin_PinnedAt = pin_PinnedAt old,
          pin_ConfirmedAt = Some now\<rparr> ps)"
      "ks_disk ks' = KeystoreFile keystoreVersion (map_option (map (\<lambda>(peer, rec). (peer, Some rec))) (ks_peers ks'))"
proof (cases "peer = '''' \<or> ks_peers ks = None")
  case True
  then have "ks' = ks" using assms(2) by (auto simp: Authorize_def split: if_splits)
  then show thesis by (rule same)
next
  case False
  then obtain ps where ps: "ks_peers ks = Some ps" "peer \<noteq> ''''" by auto
  have wf: "wf_map ps" using assms(1) ps by (simp add: keystore_inv_def)
  show thesis
  proof (cases "map_of ps peer")
    case None
    then show thesis
      using assms(2) ps pinned [OF _ ps(1,2)] same update_undo [OF None]
      by (auto simp: Authorize_def ks_saveLocked_def PinnedKey_def split: if_splits)
  next
    case (Some old)
    then show thesis
      using assms(2) ps confirmed [OF _ ps(1) Some ps(2)] same update_back [OF Some wf]
      by (auto simp: Authorize_def ks_saveLocked_def Let_def split: if_splits option.splits)
  qed
qed
lemma Authorize_inv:
  assumes "keystore_inv ks" "length key = pubKeySize"
    "Authorize sha fails now peer key confirm ks = (res, ks')"
  shows "keystore_inv ks'"
  using assms(1,3)
proof (cases rule: Authorize_cases)
  case (pinned ps)
  then show ?thesis using assms(1,2)
    by (auto simp: keystore_inv_def dest!: update_set)
next
  case (confirmed ps old ask)
  then show ?thesis using assms(1,2)
    by (auto simp: keystore_inv_def dest!: update_set)
qed (use assms in simp)

section \<open>Properties\<close>

text \<open>
  C9. Trust on first use: a pinned key is replaced only by an authorisation whose
  confirmation was given and answered yes for exactly this peer and these two
  fingerprints.  In every other case, a refusal, a failed write or an
  authorisation for another peer, the pin stays.
\<close>

theorem pin_changes_only_when_confirmed:
  assumes "keystore_inv ks" "PinnedKey peer ks = Some old"
    and "Authorize sha fails now peer2 key confirm ks = (res, ks')"
  shows "PinnedKey peer ks' = Some old \<or>
    (peer2 = peer \<and> PinnedKey peer ks' = Some key \<and> res = Ok () \<and>
     (\<exists>ask. confirm = Some ask \<and> ask \<lparr>kc_Peer = peer, kc_OldFingerprint = Fingerprint sha old,
        kc_NewFingerprint = Fingerprint sha key\<rparr>))"
  using assms(1,3)
proof (cases rule: Authorize_cases)
  case (pinned ps)
  then show ?thesis using assms(2) by (auto simp: PinnedKey_def)
next
  case (confirmed ps o ask)
  then show ?thesis using assms(2) by (cases "peer = peer2") (auto simp: PinnedKey_def)
qed (use assms in simp)

definition sample_keystore :: keystore where
  "sample_keystore = \<lparr>ks_peers = Some [], ks_disk = NoFile\<rparr>"

definition sample_pinned :: keystore where
  "sample_pinned = snd (Authorize (\<lambda>b. b) (\<lambda>_. False) 10 ''bob'' (replicate 32 1) None sample_keystore)"

lemma sample_pinned_facts:
  "keystore_inv sample_pinned" "PinnedKey ''bob'' sample_pinned = Some (replicate 32 1)"
  by (simp_all add: sample_pinned_def sample_keystore_def Authorize_def ks_saveLocked_def keystore_inv_def
      PinnedKey_def pubKeySize_def wf_map_def)

theorem pin_changes_only_when_confirmed_witness:
  "PinnedKey ''bob'' (snd (Authorize (\<lambda>b. b) (\<lambda>_. False) 20 ''bob'' (replicate 32 2) None sample_pinned))
     = Some (replicate 32 1)"
  using pin_changes_only_when_confirmed [OF sample_pinned_facts surjective_pairing,
      where sha = "\<lambda>b. b" and fails = "\<lambda>_. False" and now = 20 and ?peer2.0 = "''bob''"
        and key = "replicate 32 2" and confirm = None]
  by simp

text \<open>
  First contact pins, and the pin outlives the process: an unknown peer's key is
  pinned unless the write fails, and after any authorisation, successful,
  refused or failed, a store reopened from the file holds exactly the pins in
  memory.
\<close>

theorem keystore_reopens_to_same_pins:
  assumes "keystore_inv ks" "length key = pubKeySize" "ks_peers ks \<noteq> None"
    and "Authorize sha fails now peer key confirm ks = (res, ks')"
  shows "(PinnedKey peer ks = None \<and> res = Ok () \<longrightarrow> PinnedKey peer ks' = Some key)
       \<and> (\<exists>ks2. OpenKeystore (\<lambda>_. False) (ks_disk ks') = Ok ks2 \<and> PinnedKey p2 ks2 = PinnedKey p2 ks')"
proof -
  have iv': "keystore_inv ks'" by (rule Authorize_inv [OF assms(1,2,4)])
  have "ks_peers ks' \<noteq> None" using assms(1,4)
    by (cases rule: Authorize_cases) (use assms(3) in auto)
  then obtain ps where ps: "ks_peers ks' = Some ps" by blast
  have ex: "list_ex (\<lambda>(peer, rec). peer = '''' \<or>
      (case rec of None \<Rightarrow> True | Some r \<Rightarrow> length (pin_Key r) \<noteq> pubKeySize))
      (map (\<lambda>(peer, rec). (peer, Some rec)) ps) = False"
    using iv' ps by (auto simp: keystore_inv_def list_ex_iff)
  have "map (\<lambda>(peer, rec). (peer, the rec)) (map (\<lambda>(peer, rec). (peer, Some rec)) ps) = ps"
    by (auto intro: map_idI)
  then have "\<exists>ks2. OpenKeystore (\<lambda>_. False) (ks_disk ks') = Ok ks2 \<and> PinnedKey p2 ks2 = PinnedKey p2 ks'"
    using iv' ps ex by (auto simp: keystore_inv_def OpenKeystore_def PinnedKey_def)
  moreover have "PinnedKey peer ks' = Some key" if "PinnedKey peer ks = None" "res = Ok ()"
    using assms(3,4) that by (auto simp: Authorize_def PinnedKey_def ks_saveLocked_def split: if_splits)
  ultimately show ?thesis by blast
qed

theorem keystore_reopens_to_same_pins_witness:
  "\<exists>ks2. OpenKeystore (\<lambda>_. False) (ks_disk sample_pinned) = Ok ks2
     \<and> PinnedKey ''bob'' ks2 = PinnedKey ''bob'' sample_pinned"
proof -
  have "Authorize (\<lambda>b. b) (\<lambda>_. False) 10 ''bob'' (replicate 32 1) None sample_keystore
      = (fst (Authorize (\<lambda>b. b) (\<lambda>_. False) 10 ''bob'' (replicate 32 1) None sample_keystore), sample_pinned)"
    by (simp add: sample_pinned_def)
  from keystore_reopens_to_same_pins [OF _ _ _ this, of "''bob''"] show ?thesis
    by (simp add: sample_keystore_def keystore_inv_def pubKeySize_def)
qed

text \<open>
  A pin store whose file has the right version but no peers object opens, and the
  first key presented to it panics on the nil map instead of being pinned or
  refused.
\<close>

theorem missing_peers_object_panics:
  assumes "peer \<noteq> ''''"
  shows "\<exists>ks. OpenKeystore (\<lambda>_. False) (KeystoreFile keystoreVersion None) = Ok ks \<and>
     Authorize sha fails now peer key confirm ks = (Err NilMapPanic, ks)"
  using assms by (simp add: OpenKeystore_def Authorize_def)

theorem missing_peers_object_panics_witness:
  "\<exists>ks. OpenKeystore (\<lambda>_. False) (KeystoreFile keystoreVersion None) = Ok ks \<and>
     Authorize (\<lambda>b. b) (\<lambda>_. False) 3 ''bob'' [] None ks = (Err NilMapPanic, ks)"
  by (rule missing_peers_object_panics) simp

end
