(* ===== verification/Server.thy ===== *)
theory Server
  imports QueueRuns Roster Keystore Message
begin

text \<open>
  \<^verbatim>\<open>src/internal/coordinator/\<close>: the connection server.  \<^verbatim>\<open>server.go\<close> (admission,
  connection life cycle, dispatch, handshake, acknowledgement), \<^verbatim>\<open>routing.go\<close>
  (routing table, direct and broadcast messages, the offline hand-off), \<^verbatim>\<open>keys.go\<close>
  (key announcements) and the identity mapping of \<^verbatim>\<open>tsauth\<close>.  Connections are
  numbers; a write appends to \<open>sv_out\<close>, a close to \<open>sv_closes\<close>.  The tracker, the
  queue and the pin store are the components' own states and \<^term>\<open>None\<close> is the nil
  the constructors accept.  Logging is not modelled.
\<close>

section \<open>Identities (tsauth)\<close>

record identity =
  id_LoginName :: string
  id_DisplayName :: string
  id_NodeName :: string

definition no_identity :: identity where
  "no_identity = \<lparr>id_LoginName = '''', id_DisplayName = '''', id_NodeName = ''''\<rparr>"

text \<open>The daemon's answer: nothing, or an optional user profile (login and display name)
  and an optional node name.\<close>

definition identityFromWhoIs ::
  "((string \<times> string) option \<times> string option) option \<Rightarrow> (string, identity) result" where
  "identityFromWhoIs resp =
     (case resp of
        None \<Rightarrow> Err ''identity unresolved: daemon returned no answer''
      | Some (user, node) \<Rightarrow>
          (let ident = no_identity;
               ident = (case user of None \<Rightarrow> ident
                     | Some (login, disp) \<Rightarrow> ident\<lparr>id_LoginName := login, id_DisplayName := disp\<rparr>);
               ident = (case node of None \<Rightarrow> ident | Some n \<Rightarrow> ident\<lparr>id_NodeName := n\<rparr>)
           in if ident = no_identity
              then Err ''identity unresolved: answer carries neither node nor user profile''
              else Ok ident))"

definition deviceOf :: "identity \<Rightarrow> string" where
  "deviceOf ident = (if id_NodeName ident \<noteq> '''' then id_NodeName ident else id_LoginName ident)"

section \<open>State\<close>

record server_env =
  se_deps :: queue_deps
  se_sha :: "bytes \<Rightarrow> bytes"
  se_qfails :: faults
  se_kfails :: "syscall \<Rightarrow> bool"
  se_pfails :: bool
  se_now :: time

record server =
  sv_presence :: "tracker option"
  sv_offline :: "queue option"
  sv_keys :: "keystore option"
  sv_confirm :: "(key_change_request \<Rightarrow> bool) option"
  sv_seen :: "string set"
  sv_routes :: "(string \<times> nat list) list"
  sv_conns :: "nat list"
  sv_subs :: "(nat \<times> nat) list"
  sv_draining :: bool
  sv_wg :: int
  sv_out :: "(nat \<times> envelope) list"
  sv_closes :: "(nat \<times> nat) list"
  sv_messages :: nat
  sv_connected :: nat
  sv_refusals :: nat
  sv_reconnects :: nat

definition NewServer :: "tracker option \<Rightarrow> queue option \<Rightarrow> server" where
  "NewServer tr offline = \<lparr>sv_presence = tr, sv_offline = offline, sv_keys = None, sv_confirm = None,
     sv_seen = {}, sv_routes = [], sv_conns = [], sv_subs = [], sv_draining = False, sv_wg = 0,
     sv_out = [], sv_closes = [], sv_messages = 0, sv_connected = 0, sv_refusals = 0, sv_reconnects = 0\<rparr>"

definition WireKeys :: "keystore \<Rightarrow> (key_change_request \<Rightarrow> bool) option \<Rightarrow> server \<Rightarrow> server" where
  "WireKeys ks confirm s = s\<lparr>sv_keys := Some ks, sv_confirm := confirm\<rparr>"

definition conn_write :: "nat \<Rightarrow> envelope \<Rightarrow> server \<Rightarrow> server" where
  "conn_write c env s = s\<lparr>sv_out := sv_out s @ [(c, env)]\<rparr>"

definition write_all :: "nat list \<Rightarrow> envelope \<Rightarrow> server \<Rightarrow> server" where
  "write_all cs env s = fold (\<lambda>c. conn_write c env) cs s"

definition write_frames :: "nat \<Rightarrow> envelope list \<Rightarrow> server \<Rightarrow> server" where
  "write_frames c envs s = fold (conn_write c) envs s"

definition conn_close :: "nat \<Rightarrow> nat \<Rightarrow> server \<Rightarrow> server" where
  "conn_close c code s = s\<lparr>sv_closes := sv_closes s @ [(c, code)]\<rparr>"

section \<open>The routing table (routing.go)\<close>

definition routes_of :: "string \<Rightarrow> server \<Rightarrow> nat list" where
  "routes_of device s = (case map_of (sv_routes s) device of None \<Rightarrow> [] | Some ws \<Rightarrow> ws)"

definition addRoute :: "string \<Rightarrow> nat \<Rightarrow> server \<Rightarrow> server" where
  "addRoute device w s =
     (let rs = AList.update device (List.insert w (routes_of device s)) (sv_routes s)
      in s\<lparr>sv_routes := rs, sv_connected := length rs\<rparr>)"

definition removeRoute :: "string \<Rightarrow> nat \<Rightarrow> server \<Rightarrow> server" where
  "removeRoute device w s =
     (case map_of (sv_routes s) device of
        None \<Rightarrow> s
      | Some ws \<Rightarrow>
          (let ws' = removeAll w ws;
               rs = (if ws' = [] then AList.delete device (sv_routes s)
                     else AList.update device ws' (sv_routes s))
           in s\<lparr>sv_routes := rs, sv_connected := length rs\<rparr>))"

definition routeTargets :: "string \<Rightarrow> server \<Rightarrow> nat list" where
  "routeTargets device s = routes_of device s"

definition routeTargetsExcept :: "string \<Rightarrow> server \<Rightarrow> nat list" where
  "routeTargetsExcept exclude s =
     concat (map snd (filter (\<lambda>(device, ws). device \<noteq> exclude) (sv_routes s)))"

definition routeTargetsAll :: "server \<Rightarrow> nat list" where
  "routeTargetsAll s = routeTargetsExcept '''' s"

section \<open>Error texts\<close>

definition body_error_text :: "body_error \<Rightarrow> string" where
  "body_error_text e = (case e of
      BodyTooLong n \<Rightarrow> ''body exceeds '' @ decimal MaxBodyBytes @ ''-byte bound ('' @ decimal n @ '' bytes)''
    | BodyNotUTF8 \<Rightarrow> ''body is not valid UTF-8'')"

definition presence_error_text :: "string \<Rightarrow> presence_error \<Rightarrow> string" where
  "presence_error_text device e = (case e of
      StatusTooLong n \<Rightarrow> ''presence: status exceeds 256-byte bound: '' @ decimal n @ '' > ''
        @ decimal MaxStatusBytes @ '' bytes''
    | StatusNotUTF8 \<Rightarrow> ''presence: status is not valid UTF-8''
    | TrackerClosed \<Rightarrow> ''presence: tracker closed''
    | StatusPersistFailed \<Rightarrow> ''presence: persist status for '' @ device
    | TTLNotPositive \<Rightarrow> ''presence: ttl must be positive'')"

definition malformed :: "string \<Rightarrow> envelope" where
  "malformed detail = envelope_of (ProtocolError CODE_MALFORMED detail 0)"

definition rejectMalformed :: "nat \<Rightarrow> string \<Rightarrow> server \<Rightarrow> server" where
  "rejectMalformed out detail s = conn_write out (malformed detail) s"

section \<open>Messages (routing.go)\<close>

definition stampedDelivery :: "time \<Rightarrow> envelope \<Rightarrow> envelope \<Rightarrow> envelope" where
  "stampedDelivery receivedAt original routed =
     routed\<lparr>env_message_id := env_message_id original, env_sent_at := env_sent_at original,
            env_received_at := Some receivedAt, env_position := 0\<rparr>"

definition deliverUnroutable :: "server_env \<Rightarrow> nat \<Rightarrow> string \<Rightarrow> envelope \<Rightarrow> server \<Rightarrow> server" where
  "deliverUnroutable se out recipient stamped s =
     (if (case sv_presence s of None \<Rightarrow> False | Some t \<Rightarrow> \<not> presence_Known recipient t)
      then conn_write out (envelope_of (ProtocolError CODE_DEVICE_UNKNOWN
             (''no device named '' @ quote_string recipient @ '' is known to this coordinator'') 0)) s
      else case sv_offline s of
        None \<Rightarrow> s
      | Some q \<Rightarrow>
          (case queue_Deliver (se_deps se) (se_qfails se) (se_now se) recipient stamped q of
             (Inl (CapacityError r cap), q') \<Rightarrow>
               conn_write out (envelope_of (QueueRefused REFUSAL_SIZE_CAP
                 (''message not retained: '' @ recipient @ [CHR 0x27] @ ''s offline queue is at its size cap (''
                  @ decimal (nat cap) @ '' messages); retry later''))) (s\<lparr>sv_offline := Some q'\<rparr>)
           | (Inl _, q') \<Rightarrow> s\<lparr>sv_offline := Some q'\<rparr>
           | (Inr _, q') \<Rightarrow> s\<lparr>sv_offline := Some q', sv_messages := sv_messages s + 1\<rparr>))"

definition handleDirect :: "server_env \<Rightarrow> nat \<Rightarrow> identity \<Rightarrow> envelope \<Rightarrow> payload \<Rightarrow> server \<Rightarrow> server" where
  "handleDirect se out ident env dm s =
     (let sender = deviceOf ident in
      if dm_recipient dm = '''' then rejectMalformed out ''direct_message.recipient must not be empty'' s
      else case ValidateBody (dm_body dm) of
        Inl e \<Rightarrow> rejectMalformed out (''direct_message.body rejected: '' @ body_error_text e) s
      | Inr _ \<Rightarrow>
          (let stamped = stampedDelivery (se_now se) env
                 (envelope_of (DirectMessage (dm_recipient dm) (dm_body dm) sender));
               targets = routeTargets (dm_recipient dm) s
           in if targets \<noteq> []
              then let s' = write_all targets stamped s in s'\<lparr>sv_messages := sv_messages s' + 1\<rparr>
              else deliverUnroutable se out (dm_recipient dm) stamped s))"

definition handleBroadcast :: "server_env \<Rightarrow> nat \<Rightarrow> identity \<Rightarrow> envelope \<Rightarrow> payload \<Rightarrow> server \<Rightarrow> server" where
  "handleBroadcast se out ident env bm s =
     (let sender = deviceOf ident in
      case ValidateBody (bm_body bm) of
        Inl e \<Rightarrow> rejectMalformed out (''broadcast_message.body rejected: '' @ body_error_text e) s
      | Inr _ \<Rightarrow>
          (let stamped = stampedDelivery (se_now se) env
                 (envelope_of (BroadcastMessage (bm_body bm) sender));
               s' = write_all (routeTargetsExcept sender s) stamped s
           in s'\<lparr>sv_messages := sv_messages s' + 1\<rparr>))"

section \<open>Keys (keys.go)\<close>

definition directoryEnvelope :: "server \<Rightarrow> envelope option" where
  "directoryEnvelope s =
     map_option (\<lambda>ks. envelope_of (PublicKeyDirectory (ks_Entries ks))) (sv_keys s)"

definition broadcastDirectory :: "server \<Rightarrow> server" where
  "broadcastDirectory s =
     (case directoryEnvelope s of None \<Rightarrow> s | Some env \<Rightarrow> write_all (routeTargetsAll s) env s)"

definition parse_key_error_text :: "bytes \<Rightarrow> string" where
  "parse_key_error_text b =
     ''crypto: public key must be '' @ decimal pubKeySize @ '' bytes, got '' @ decimal (length b)"

definition handleKeyAnnounce :: "server_env \<Rightarrow> nat \<Rightarrow> identity \<Rightarrow> bytes \<Rightarrow> server \<Rightarrow> server" where
  "handleKeyAnnounce se out ident public_key s =
     (case sv_keys s of
        None \<Rightarrow> s
      | Some ks \<Rightarrow>
          (case ParsePublicKey public_key of
             Inl _ \<Rightarrow> rejectMalformed out
               (''public_key_announce.public_key rejected: '' @ parse_key_error_text public_key) s
           | Inr pub \<Rightarrow>
               (case Authorize (se_sha se) (se_kfails se) (se_now se) (deviceOf ident) pub (sv_confirm s) ks of
                  (Inl (KeyChangeRefused peer oldFP newFP), ks') \<Rightarrow>
                    conn_write out (malformed
                      (''public_key_announce refused: key differs from the pinned key for this device (pinned ''
                       @ oldFP @ '', presented '' @ newFP @ ''); operator confirmation required''))
                      (s\<lparr>sv_keys := Some ks'\<rparr>)
                | (Inl _, ks') \<Rightarrow> s\<lparr>sv_keys := Some ks'\<rparr>
                | (Inr _, ks') \<Rightarrow> broadcastDirectory (s\<lparr>sv_keys := Some ks'\<rparr>))))"

section \<open>Handshake, status and acknowledgement (server.go)\<close>

definition StatusUnsupportedData :: nat where "StatusUnsupportedData = 1003"
definition StatusMessageTooBig :: nat where "StatusMessageTooBig = 1009"

definition handleHello :: "server_env \<Rightarrow> nat \<Rightarrow> identity \<Rightarrow> payload \<Rightarrow> server \<Rightarrow> bool \<times> server" where
  "handleHello se out ident hello s =
     (if \<not> ProtocolVersionSupported (hello_version hello)
      then (False, conn_close out StatusUnsupportedData
              (conn_write out (envelope_of (NewVersionUnsupportedError (hello_version hello))) s))
      else let device = (if id_NodeName ident = '''' then id_LoginName ident else id_NodeName ident);
               deliveries = (case sv_offline s of
                  None \<Rightarrow> []
                | Some q \<Rightarrow>
                    (case queue_Resume (se_deps se) (se_qfails se) device (hello_last_acked hello) q of
                       Inl _ \<Rightarrow> [] | Inr ds \<Rightarrow> ds));
               pending = of_nat (length deliveries);
               s1 = conn_write out (envelope_of (HelloAck device (Some (se_now se)) pending MaxProtocolVersion)) s;
               s2 = write_frames out (map del_Envelope deliveries) s1
           in (True, case directoryEnvelope s2 of None \<Rightarrow> s2 | Some env \<Rightarrow> conn_write out env s2))"

definition handleStatusChange :: "server_env \<Rightarrow> nat \<Rightarrow> identity \<Rightarrow> string \<Rightarrow> server \<Rightarrow> server" where
  "handleStatusChange se out ident status s =
     (case sv_presence s of
        None \<Rightarrow> s
      | Some t \<Rightarrow>
          (case SetStatus (se_pfails se) (se_now se) (deviceOf ident) status t of
             (Inl e, t') \<Rightarrow> conn_write out (malformed (''presence_status_change.status rejected: ''
                 @ presence_error_text (deviceOf ident) e)) (s\<lparr>sv_presence := Some t'\<rparr>)
           | (Inr _, t') \<Rightarrow> s\<lparr>sv_presence := Some t'\<rparr>))"

definition handleQueueAck :: "server_env \<Rightarrow> identity \<Rightarrow> u64 \<Rightarrow> server \<Rightarrow> server" where
  "handleQueueAck se ident position s =
     (case sv_offline s of
        None \<Rightarrow> s
      | Some q \<Rightarrow>
          s\<lparr>sv_offline := Some (snd (queue_Ack (se_qfails se) (deviceOf ident) position q))\<rparr>)"

definition handleHeartbeat :: "server_env \<Rightarrow> nat \<Rightarrow> identity \<Rightarrow> server \<Rightarrow> server" where
  "handleHeartbeat se out ident s =
     conn_write out (envelope_of Heartbeat)
       (s\<lparr>sv_presence := map_option (ObserveHeartbeat (se_pfails se) (se_now se) (deviceOf ident))
                          (sv_presence s)\<rparr>)"

definition dispatch :: "server_env \<Rightarrow> nat \<Rightarrow> identity \<Rightarrow> envelope \<Rightarrow> server \<Rightarrow> bool \<times> server" where
  "dispatch se out ident env s =
     (case env_payload env of
        Some (Hello v a p) \<Rightarrow> handleHello se out ident (Hello v a p) s
      | Some Heartbeat \<Rightarrow> (True, handleHeartbeat se out ident s)
      | Some (PresenceStatusChange status) \<Rightarrow> (True, handleStatusChange se out ident status s)
      | Some (DirectMessage r b x) \<Rightarrow> (True, handleDirect se out ident env (DirectMessage r b x) s)
      | Some (BroadcastMessage b x) \<Rightarrow> (True, handleBroadcast se out ident env (BroadcastMessage b x) s)
      | Some (QueueAck position) \<Rightarrow> (True, handleQueueAck se ident position s)
      | Some (PublicKeyAnnounce key) \<Rightarrow> (True, handleKeyAnnounce se out ident key s)
      | _ \<Rightarrow> (True, s))"

section \<open>Connections (server.go)\<close>

definition noteConnection :: "string \<Rightarrow> server \<Rightarrow> server" where
  "noteConnection device s =
     s\<lparr>sv_seen := insert device (sv_seen s),
       sv_reconnects := (if device \<in> sv_seen s then sv_reconnects s + 1 else sv_reconnects s)\<rparr>"

definition track :: "nat \<Rightarrow> server \<Rightarrow> bool \<times> server" where
  "track c s = (if sv_draining s then (False, s) else (True, s\<lparr>sv_conns := List.insert c (sv_conns s)\<rparr>))"

definition release :: "nat \<Rightarrow> server \<Rightarrow> server" where
  "release c s = s\<lparr>sv_conns := removeAll c (sv_conns s), sv_wg := sv_wg s - 1\<rparr>"

text \<open>Admission: the address must parse and the resolver must name somebody before the
  upgrade; the handler count goes up before it, and a connection accepted while
  the server drains is released at once.\<close>

definition ServeHTTP ::
  "bool \<Rightarrow> (string, identity) result \<Rightarrow> bool \<Rightarrow> nat \<Rightarrow> server \<Rightarrow> identity option \<times> server" where
  "ServeHTTP addr_ok resolved upgrade_ok c s =
     (if \<not> addr_ok then (None, s\<lparr>sv_refusals := sv_refusals s + 1\<rparr>)
      else case resolved of
        Inl _ \<Rightarrow> (None, s\<lparr>sv_refusals := sv_refusals s + 1\<rparr>)
      | Inr ident \<Rightarrow>
          (let s1 = noteConnection (deviceOf ident) s;
               s2 = s1\<lparr>sv_wg := sv_wg s1 + 1\<rparr>
           in if \<not> upgrade_ok then (None, s2\<lparr>sv_wg := sv_wg s2 - 1\<rparr>)
              else case track c s2 of
                (False, s3) \<Rightarrow> (None, release c s3)
              | (True, s3) \<Rightarrow> (Some ident, s3)))"

definition conn_open :: "server_env \<Rightarrow> nat \<Rightarrow> identity \<Rightarrow> server \<Rightarrow> server" where
  "conn_open se c ident s =
     (let device = deviceOf ident;
          s1 = (case sv_presence s of
                  None \<Rightarrow> s
                | Some t \<Rightarrow>
                    (let t1 = ConnectionEstablished (se_pfails se) (se_now se) device t;
                         (i, t2) = presence_Subscribe t1
                     in write_frames c (connect_frames (presence_Snapshot t2))
                          (s\<lparr>sv_presence := Some t2, sv_subs := AList.update c i (sv_subs s)\<rparr>)))
      in addRoute device c s1)"

text \<open>The deferred calls of the handler, last registered first.\<close>

definition conn_exit :: "server_env \<Rightarrow> nat \<Rightarrow> identity \<Rightarrow> server \<Rightarrow> (string, server) result" where
  "conn_exit se c ident s =
     (let device = deviceOf ident;
          s1 = removeRoute device c s
      in case sv_presence s1 of
           None \<Rightarrow> Ok (release c s1)
         | Some t \<Rightarrow>
             (let t1 = ConnectionLost (se_pfails se) (se_now se) device t in
              case map_of (sv_subs s1) c of
                None \<Rightarrow> Ok (release c (s1\<lparr>sv_presence := Some t1\<rparr>))
              | Some i \<Rightarrow>
                  (case presence_sub_Close i t1 of
                     Inl p \<Rightarrow> Err p
                   | Inr t2 \<Rightarrow> Ok (release c (s1\<lparr>sv_presence := Some t2\<rparr>)))))"

definition maxEnvelopeBytes :: int where "maxEnvelopeBytes = 4 * 2 ^ 20"

datatype ws_frame = ReadFailed | TextFrame | BinaryFrame bytes

definition serve_frame :: "server_env \<Rightarrow> nat \<Rightarrow> identity \<Rightarrow> ws_frame \<Rightarrow> server \<Rightarrow> bool \<times> server" where
  "serve_frame se c ident frame s =
     (case frame of
        ReadFailed \<Rightarrow> (False, s)
      | TextFrame \<Rightarrow> (False, conn_close c StatusUnsupportedData s)
      | BinaryFrame data \<Rightarrow>
          (if int (length data) > maxEnvelopeBytes then (False, conn_close c StatusMessageTooBig s)
           else case qd_unmarshal (se_deps se) data of
             None \<Rightarrow> (True, conn_write c (malformed ''envelope did not decode'') s)
           | Some env \<Rightarrow> dispatch se c ident env s))"

fun serve_loop :: "server_env \<Rightarrow> nat \<Rightarrow> identity \<Rightarrow> ws_frame list \<Rightarrow> server \<Rightarrow> server" where
  "serve_loop se c ident [] s = s"
| "serve_loop se c ident (f # fs) s =
     (case serve_frame se c ident f s of
        (False, s') \<Rightarrow> s'
      | (True, s') \<Rightarrow> serve_loop se c ident fs s')"

definition serveConn :: "server_env \<Rightarrow> nat \<Rightarrow> identity \<Rightarrow> ws_frame list \<Rightarrow> server \<Rightarrow> (string, server) result" where
  "serveConn se c ident frames s =
     conn_exit se c ident (serve_loop se c ident frames (conn_open se c ident s))"

text \<open>Shutdown: registrations stop, every live connection is asked to go away, and the
  drain is complete when no handler is running.\<close>

definition StatusGoingAway :: nat where "StatusGoingAway = 1001"

definition shutdown_begin :: "server \<Rightarrow> server" where
  "shutdown_begin s =
     fold (\<lambda>c. conn_close c StatusGoingAway) (sv_conns s) (s\<lparr>sv_draining := True\<rparr>)"

definition shutdown_result :: "server \<Rightarrow> (nat, unit) result" where
  "shutdown_result s = (if sv_wg s = 0 then Ok () else Err (length (sv_conns s)))"

end
