(* ===== verification/ServerProps.thy ===== *)
theory ServerProps
  imports Server
begin

text \<open>
  Correctness of the coordinator's handlers: who receives what, who is named as
  the sender, what a handshake writes, the routing table and its gauge, and the
  accounting of running connections.
\<close>

section \<open>Writes\<close>

lemma write_all_out:
  "sv_out (write_all cs env s) = sv_out s @ map (\<lambda>c. (c, env)) cs"
  by (induction cs arbitrary: s) (simp_all add: write_all_def conn_write_def)

lemma write_all_frame:
  "write_all cs env s = s\<lparr>sv_out := sv_out s @ map (\<lambda>c. (c, env)) cs\<rparr>"
  by (induction cs arbitrary: s) (simp_all add: write_all_def conn_write_def)

lemma write_frames_eq:
  "write_frames c envs s = s\<lparr>sv_out := sv_out s @ map (\<lambda>e. (c, e)) envs\<rparr>"
  by (induction envs arbitrary: s) (simp_all add: write_frames_def conn_write_def)

lemma conn_write_simps [simp]:
  "sv_out (conn_write c env s) = sv_out s @ [(c, env)]"
  "sv_routes (conn_write c env s) = sv_routes s" "sv_keys (conn_write c env s) = sv_keys s"
  "sv_offline (conn_write c env s) = sv_offline s" "sv_presence (conn_write c env s) = sv_presence s"
  "sv_messages (conn_write c env s) = sv_messages s" "sv_closes (conn_write c env s) = sv_closes s"
  by (simp_all add: conn_write_def)

section \<open>Senders\<close>

text \<open>
  C20. A client cannot speak as another device: what the coordinator does with a
  direct or broadcast message does not depend on the sender the client claims,
  and every message it routes names the sender the tailnet resolved for the
  connection.
\<close>

theorem claimed_sender_is_never_read:
  "dispatch se out ident (env\<lparr>env_payload := Some (DirectMessage r b claimed)\<rparr>) s =
     dispatch se out ident (env\<lparr>env_payload := Some (DirectMessage r b claimed2)\<rparr>) s
   \<and> dispatch se out ident (env\<lparr>env_payload := Some (BroadcastMessage b claimed)\<rparr>) s =
     dispatch se out ident (env\<lparr>env_payload := Some (BroadcastMessage b claimed2)\<rparr>) s
   \<and> (\<forall>c e x y z. (c, e) \<in> set (sv_out (snd (dispatch se out ident
          (env\<lparr>env_payload := Some (DirectMessage r b claimed)\<rparr>) s))) - set (sv_out s) \<longrightarrow>
        env_payload e = Some (DirectMessage x y z) \<longrightarrow> x = r \<and> y = b \<and> z = deviceOf ident)
   \<and> (\<forall>c e x y. (c, e) \<in> set (sv_out (snd (dispatch se out ident
          (env\<lparr>env_payload := Some (BroadcastMessage b claimed)\<rparr>) s))) - set (sv_out s) \<longrightarrow>
        env_payload e = Some (BroadcastMessage x y) \<longrightarrow> x = b \<and> y = deviceOf ident)"
proof (intro conjI allI impI)
  fix c e x y z
  assume "(c, e) \<in> set (sv_out (snd (dispatch se out ident
      (env\<lparr>env_payload := Some (DirectMessage r b claimed)\<rparr>) s))) - set (sv_out s)"
    "env_payload e = Some (DirectMessage x y z)"
  then show "x = r" "y = b" "z = deviceOf ident"
    by (auto simp: dispatch_def handleDirect_def Let_def rejectMalformed_def malformed_def write_all_out
        stampedDelivery_def deliverUnroutable_def
        split: if_splits sum.splits option.splits prod.splits queue_error.splits)
next
  fix c e x y
  assume "(c, e) \<in> set (sv_out (snd (dispatch se out ident
      (env\<lparr>env_payload := Some (BroadcastMessage b claimed)\<rparr>) s))) - set (sv_out s)"
    "env_payload e = Some (BroadcastMessage x y)"
  then show "x = b" "y = deviceOf ident"
    by (auto simp: dispatch_def handleBroadcast_def Let_def rejectMalformed_def malformed_def write_all_out
        stampedDelivery_def split: sum.splits)
qed (simp_all add: dispatch_def handleDirect_def handleBroadcast_def stampedDelivery_def Let_def
    split: sum.split)
definition sample_se :: server_env where
  "sample_se = \<lparr>se_deps = sample_deps, se_sha = (\<lambda>b. b), se_qfails = no_faults,
     se_kfails = (\<lambda>_. False), se_pfails = False, se_now = 500\<rparr>"

definition ident_ann :: identity where
  "ident_ann = \<lparr>id_LoginName = ''ann@x'', id_DisplayName = ''Ann'', id_NodeName = ''ann''\<rparr>"

definition sample_server :: server where
  "sample_server = addRoute ''bob'' 2 (addRoute ''ann'' 1 (NewServer None None))"

theorem claimed_sender_is_never_read_witness:
  "sv_out (snd (dispatch sample_se 1 ident_ann
     (envelope_of (DirectMessage ''bob'' ''hi'' ''eve'')) sample_server)) =
   sv_out (snd (dispatch sample_se 1 ident_ann
     (envelope_of (DirectMessage ''bob'' ''hi'' ''ann'')) sample_server))"
  using claimed_sender_is_never_read [where se = sample_se and out = 1 and ident = ident_ann
      and env = "envelope_of Heartbeat" and r = "''bob''" and b = "''hi''" and claimed = "''eve''"
      and s = sample_server and ?claimed2.0 = "''ann''"]
  by (simp add: envelope_of_def)

section \<open>Routing\<close>

lemma unroutable_unknown:
  "sv_presence s = Some t \<Longrightarrow> \<not> presence_Known r t \<Longrightarrow> deliverUnroutable se out r stamped s =
     conn_write out (envelope_of (ProtocolError CODE_DEVICE_UNKNOWN
       (''no device named '' @ quote_string r @ '' is known to this coordinator'') 0)) s"
  by (simp add: deliverUnroutable_def)

lemma unroutable_held:
  assumes "\<forall>t. sv_presence s = Some t \<longrightarrow> presence_Known r t" "sv_offline s = Some q"
    "queue_Deliver (se_deps se) (se_qfails se) (se_now se) r stamped q = (res, q')"
  shows "sv_offline (deliverUnroutable se out r stamped s) = Some q'"
    "res = Ok () \<Longrightarrow> sv_out (deliverUnroutable se out r stamped s) = sv_out s
       \<and> sv_messages (deliverUnroutable se out r stamped s) = sv_messages s + 1"
    "res = Err (CapacityError r2 n) \<Longrightarrow>
       \<exists>detail. sv_out (deliverUnroutable se out r stamped s) =
         sv_out s @ [(out, envelope_of (QueueRefused REFUSAL_SIZE_CAP detail))]"
    "res = Err e \<Longrightarrow> (\<forall>r n. e \<noteq> CapacityError r n) \<Longrightarrow> sv_out (deliverUnroutable se out r stamped s) = sv_out s"
    "res = Err e \<Longrightarrow> sv_messages (deliverUnroutable se out r stamped s) = sv_messages s"
proof -
  have k: "(case sv_presence s of None \<Rightarrow> False | Some t \<Rightarrow> \<not> presence_Known r t) = False"
    using assms(1) by (simp split: option.split)
  show "sv_offline (deliverUnroutable se out r stamped s) = Some q'"
    using assms(2,3) k by (simp add: deliverUnroutable_def split: sum.split queue_error.split)
  show "res = Ok () \<Longrightarrow> sv_out (deliverUnroutable se out r stamped s) = sv_out s
       \<and> sv_messages (deliverUnroutable se out r stamped s) = sv_messages s + 1"
    using assms(2,3) k by (simp add: deliverUnroutable_def)
  show "res = Err (CapacityError r2 n) \<Longrightarrow>
       \<exists>detail. sv_out (deliverUnroutable se out r stamped s) =
         sv_out s @ [(out, envelope_of (QueueRefused REFUSAL_SIZE_CAP detail))]"
    using assms(2,3) k by (simp add: deliverUnroutable_def) blast
  show "res = Err e \<Longrightarrow> (\<forall>r n. e \<noteq> CapacityError r n) \<Longrightarrow> sv_out (deliverUnroutable se out r stamped s) = sv_out s"
    using assms(2,3) k by (cases e) (simp_all add: deliverUnroutable_def)
  show "res = Err e \<Longrightarrow> sv_messages (deliverUnroutable se out r stamped s) = sv_messages s"
    using assms(2,3) k by (cases e) (simp_all add: deliverUnroutable_def)
qed

text \<open>
  C4. Direct messages: a message with a recipient and a valid body goes to exactly
  the recipient's live connections, once each, stamped with the coordinator's
  clock and carrying the sender's identifier and time; without a live connection
  nobody else receives it: an unknown device is refused to the sender, and a
  known one's message goes to the offline queue, where only a full inbox is
  reported back.
\<close>

theorem direct_message_reaches_exactly_the_recipient:
  assumes "r \<noteq> ''''" "ValidateBody b = Ok ()"
    and "stamped = (envelope_of (DirectMessage r b (deviceOf ident)))\<lparr>env_message_id := env_message_id env,
           env_sent_at := env_sent_at env, env_received_at := Some (se_now se)\<rparr>"
    and "s' = handleDirect se out ident env (DirectMessage r b claimed) s"
  shows "(routes_of r s \<noteq> [] \<longrightarrow> sv_out s' = sv_out s @ map (\<lambda>c. (c, stamped)) (routes_of r s)
            \<and> sv_offline s' = sv_offline s \<and> sv_messages s' = sv_messages s + 1)
       \<and> (routes_of r s = [] \<and> sv_presence s = Some t \<and> \<not> presence_Known r t \<longrightarrow>
            (\<exists>detail. sv_out s' = sv_out s @ [(out, envelope_of (ProtocolError CODE_DEVICE_UNKNOWN detail 0))])
            \<and> sv_offline s' = sv_offline s \<and> sv_messages s' = sv_messages s)
       \<and> (routes_of r s = [] \<and> (\<forall>t. sv_presence s = Some t \<longrightarrow> presence_Known r t) \<and> sv_offline s = Some q
          \<and> queue_Deliver (se_deps se) (se_qfails se) (se_now se) r stamped q = (res, q') \<longrightarrow>
            sv_offline s' = Some q'
            \<and> (res = Ok () \<longrightarrow> sv_out s' = sv_out s \<and> sv_messages s' = sv_messages s + 1)
            \<and> ((\<exists>n. res = Err (CapacityError r n)) \<longrightarrow>
                (\<exists>detail. sv_out s' = sv_out s @ [(out, envelope_of (QueueRefused REFUSAL_SIZE_CAP detail))]))
            \<and> (\<forall>e. res = Err e \<and> (\<forall>r n. e \<noteq> CapacityError r n) \<longrightarrow> sv_out s' = sv_out s)
            \<and> (\<forall>e. res = Err e \<longrightarrow> sv_messages s' = sv_messages s))"
proof -
  have st: "stampedDelivery (se_now se) env (envelope_of (DirectMessage r b (deviceOf ident))) = stamped"
    using assms(3) by (simp add: stampedDelivery_def envelope_of_def)
  have s': "s' = (if routes_of r s \<noteq> []
      then (write_all (routes_of r s) stamped s)\<lparr>sv_messages := sv_messages (write_all (routes_of r s) stamped s) + 1\<rparr>
      else deliverUnroutable se out r stamped s)"
    using assms(1,2,4) st by (simp add: handleDirect_def Let_def routeTargets_def)
  have "routes_of r s \<noteq> [] \<Longrightarrow> sv_out s' = sv_out s @ map (\<lambda>c. (c, stamped)) (routes_of r s)
      \<and> sv_offline s' = sv_offline s \<and> sv_messages s' = sv_messages s + 1"
    unfolding s' by (simp add: write_all_frame)
  moreover have "routes_of r s = [] \<Longrightarrow> s' = deliverUnroutable se out r stamped s"
    unfolding s' by simp
  ultimately show ?thesis
    using unroutable_unknown [of s t r se out stamped] unroutable_held [where s = s and r = r and q = q and se = se and stamped = stamped and res = res and q' = q' and out = out] by auto
qed

theorem direct_message_reaches_exactly_the_recipient_witness:
  "sv_out (handleDirect sample_se 1 ident_ann (envelope_of Heartbeat) (DirectMessage ''bob'' ''hi'' ''x'') sample_server)
     = [(2, (envelope_of (DirectMessage ''bob'' ''hi'' ''ann''))\<lparr>env_received_at := Some 500\<rparr>)]"
proof -
  have "ValidateBody ''hi'' = Ok ()"
    by (simp add: ValidateBody_def MaxBodyBytes_def ascii_valid)
  then show ?thesis
    using direct_message_reaches_exactly_the_recipient [where r = "''bob''" and b = "''hi''" and ident = ident_ann
        and env = "envelope_of Heartbeat" and se = sample_se and out = 1 and claimed = "''x''"
        and s = sample_server, OF _ _ refl refl]
    by (simp add: sample_server_def addRoute_def routes_of_def NewServer_def ident_ann_def deviceOf_def
        sample_se_def envelope_of_def)
qed

section \<open>The routing table\<close>

text \<open>What a registry of connections promises: it holds exactly the pairs added and not
  removed since.\<close>

datatype ('d, 'c) registration = Registered 'd 'c | Unregistered 'd 'c

fun live_after :: "('d, 'c) registration list \<Rightarrow> ('d \<times> 'c) set \<Rightarrow> ('d \<times> 'c) set" where
  "live_after [] P = P"
| "live_after (Registered d c # as) P = live_after as (insert (d, c) P)"
| "live_after (Unregistered d c # as) P = live_after as (P - {(d, c)})"

locale connection_registry =
  fixes add remove :: "'d \<Rightarrow> 'c \<Rightarrow> 's \<Rightarrow> 's"
    and entries :: "'s \<Rightarrow> ('d \<times> 'c) set"
    and inv :: "'s \<Rightarrow> bool"
  assumes inv_add: "inv s \<Longrightarrow> inv (add d c s)"
    and inv_remove: "inv s \<Longrightarrow> inv (remove d c s)"
    and entries_add: "inv s \<Longrightarrow> entries (add d c s) = insert (d, c) (entries s)"
    and entries_remove: "inv s \<Longrightarrow> entries (remove d c s) = entries s - {(d, c)}"
begin

fun run :: "('d, 'c) registration list \<Rightarrow> 's \<Rightarrow> 's" where
  "run [] s = s"
| "run (Registered d c # as) s = run as (add d c s)"
| "run (Unregistered d c # as) s = run as (remove d c s)"

lemma run_entries: "inv s \<Longrightarrow> inv (run as s) \<and> entries (run as s) = live_after as (entries s)"
  by (induction as s rule: run.induct) (simp_all add: inv_add inv_remove entries_add entries_remove)

end

definition route_pairs :: "server \<Rightarrow> (string \<times> nat) set" where
  "route_pairs s = {(d, w). w \<in> set (routes_of d s)}"

definition routes_inv :: "server \<Rightarrow> bool" where
  "routes_inv s \<longleftrightarrow> wf_map (sv_routes s) \<and> (\<forall>(d, ws) \<in> set (sv_routes s). ws \<noteq> [] \<and> distinct ws)
     \<and> sv_connected s = length (sv_routes s)"

lemma routes_of_member:
  "routes_inv s \<Longrightarrow> (d, ws) \<in> set (sv_routes s) \<longleftrightarrow> ws \<noteq> [] \<and> routes_of d s = ws"
  by (auto simp: routes_inv_def routes_of_def wf_map_lookup split: option.splits)

lemma routes_of_addRoute:
  "routes_of d (addRoute device w s) =
     (if d = device then List.insert w (routes_of device s) else routes_of d s)"
  by (simp add: addRoute_def routes_of_def Let_def update_conv')

lemma routes_of_removeRoute:
  "routes_inv s \<Longrightarrow> routes_of d (removeRoute device w s) =
     (if d = device then removeAll w (routes_of device s) else routes_of d s)"
  by (auto simp: removeRoute_def routes_of_def Let_def update_conv' delete_conv' split: option.split)

lemma delete_set: "(k', v') \<in> set (AList.delete k m) \<Longrightarrow> (k', v') \<in> set m"
  by (auto simp: AList.delete_eq)

lemma routes_inv_add: "routes_inv s \<Longrightarrow> routes_inv (addRoute device w s)"
proof -
  assume inv: "routes_inv s"
  have "distinct (routes_of device s)"
    using inv by (auto simp: routes_inv_def routes_of_def split: option.split dest: map_of_SomeD)
  then show ?thesis
    using inv by (auto simp: routes_inv_def addRoute_def Let_def List.insert_def dest!: update_set)
qed

lemma routes_inv_remove: "routes_inv s \<Longrightarrow> routes_inv (removeRoute device w s)"
  by (auto simp: routes_inv_def removeRoute_def Let_def distinct_removeAll split: option.splits
      dest!: update_set delete_set) (auto dest!: map_of_SomeD intro: distinct_removeAll)

interpretation routes: connection_registry addRoute removeRoute route_pairs routes_inv
proof unfold_locales
  fix s d c
  assume inv: "routes_inv s"
  show "routes_inv (addRoute d c s)" by (rule routes_inv_add [OF inv])
  show "routes_inv (removeRoute d c s)" by (rule routes_inv_remove [OF inv])
  show "route_pairs (addRoute d c s) = insert (d, c) (route_pairs s)"
    by (auto simp: route_pairs_def routes_of_addRoute split: if_splits)
  show "route_pairs (removeRoute d c s) = route_pairs s - {(d, c)}"
    by (auto simp: route_pairs_def routes_of_removeRoute [OF inv] split: if_splits)
qed

lemma route_devices: "routes_inv s \<Longrightarrow> fst ` route_pairs s = fst ` set (sv_routes s)"
proof -
  assume inv: "routes_inv s"
  show "fst ` route_pairs s = fst ` set (sv_routes s)"
  proof (intro set_eqI iffI)
    fix d
    assume "d \<in> fst ` route_pairs s"
    then obtain w where "w \<in> set (routes_of d s)" by (auto simp: route_pairs_def)
    then have "(d, routes_of d s) \<in> set (sv_routes s)" by (auto simp: routes_of_member [OF inv])
    then show "d \<in> fst ` set (sv_routes s)" by force
  next
    fix d
    assume "d \<in> fst ` set (sv_routes s)"
    then obtain ws where "(d, ws) \<in> set (sv_routes s)" by auto
    then have "routes_of d s \<noteq> []" by (auto simp: routes_of_member [OF inv])
    then show "d \<in> fst ` route_pairs s" by (cases "routes_of d s") (force simp: route_pairs_def)+
  qed
qed

lemma connected_gauge: "routes_inv s \<Longrightarrow> sv_connected s = card (fst ` route_pairs s)"
proof -
  assume inv: "routes_inv s"
  have "card (fst ` set (sv_routes s)) = length (sv_routes s)"
    using inv distinct_card [of "map fst (sv_routes s)"] by (simp add: routes_inv_def wf_map_def)
  then show ?thesis using inv by (simp add: route_devices [OF inv]) (simp add: routes_inv_def)
qed

lemma routes_inv_init [simp]: "routes_inv (NewServer tr q)" "route_pairs (NewServer tr q) = {}"
  by (simp_all add: routes_inv_def route_pairs_def routes_of_def NewServer_def)

text \<open>
  C26. The routing table: after any sequence of registrations and removals a device's
  targets are exactly its live connections, each once, and the gauge of
  connected devices is the number of devices with at least one.
\<close>

theorem routing_table_is_live_connections:
  assumes "s = routes.run actions (NewServer tr q)"
  shows "set (routeTargets device s) = {w. (device, w) \<in> live_after actions {}}
       \<and> distinct (routeTargets device s)
       \<and> sv_connected s = card (fst ` live_after actions {})"
proof -
  from routes.run_entries [of "NewServer tr q" actions] assms
  have inv: "routes_inv s" and live: "route_pairs s = live_after actions {}" by simp_all
  have "distinct (routes_of device s)"
    using inv by (auto simp: routes_inv_def routes_of_def split: option.split dest: map_of_SomeD)
  then show ?thesis
    using connected_gauge [OF inv] live by (auto simp: routeTargets_def route_pairs_def)
qed

theorem routing_table_is_live_connections_witness:
  "set (routeTargets ''ann'' (removeRoute ''ann'' 1 (addRoute ''bob'' 3 (addRoute ''ann'' 2 (addRoute ''ann'' 1
     (NewServer None None)))))) = {2}"
proof -
  let ?actions = "[Registered ''ann'' 1, Registered ''ann'' 2, Registered ''bob'' 3, Unregistered ''ann'' (1 :: nat)]"
  have "{w. (''ann'', w) \<in> live_after ?actions {}} = {2}"
    by (simp only: live_after.simps) (simp add: set_eq_iff, presburger)
  moreover have "set (routeTargets ''ann'' (routes.run ?actions (NewServer None None)))
      = {w. (''ann'', w) \<in> live_after ?actions {}}"
    using routing_table_is_live_connections [OF refl] by (rule conjunct1)
  ultimately show ?thesis by (simp only: routes.run.simps)
qed

section \<open>Broadcast\<close>

lemma except_targets:
  assumes "routes_inv s"
  shows "set (routeTargetsExcept d s) = {w. \<exists>d'. d' \<noteq> d \<and> w \<in> set (routes_of d' s)}"
proof -
  have "set (routeTargetsExcept d s) = (\<Union>(d', ws) \<in> {x \<in> set (sv_routes s). fst x \<noteq> d}. set ws)"
    by (force simp: routeTargetsExcept_def)
  also have "\<dots> = {w. \<exists>d'. d' \<noteq> d \<and> w \<in> set (routes_of d' s)}"
    using routes_of_member [OF assms] by (auto; force)
  finally show ?thesis .
qed

lemma distinct_concat_values:
  "wf_map m \<Longrightarrow> \<forall>(d, ws) \<in> set m. distinct ws \<Longrightarrow>
   \<forall>d ws d' ws'. (d, ws) \<in> set m \<and> (d', ws') \<in> set m \<and> set ws \<inter> set ws' \<noteq> {} \<longrightarrow> d = d' \<Longrightarrow>
   distinct (concat (map snd m))"
proof (induction m)
  case (Cons a m)
  obtain d ws where a: "a = (d, ws)" by (cases a)
  have "set ws \<inter> set ws' = {}" if "(d', ws') \<in> set m" for d' ws'
  proof (rule ccontr)
    assume "set ws \<inter> set ws' \<noteq> {}"
    then have "d = d'" using Cons.prems(3) that a by (metis list.set_intros)
    then show False using Cons.prems(1) that a by (force simp: wf_map_def)
  qed
  moreover have "distinct (concat (map snd m))"
  proof (rule Cons.IH)
    show "wf_map m" using Cons.prems(1) by (simp add: wf_map_def)
    show "\<forall>(d, ws) \<in> set m. distinct ws" using Cons.prems(2) by simp
    show "\<forall>d ws d' ws'. (d, ws) \<in> set m \<and> (d', ws') \<in> set m \<and> set ws \<inter> set ws' \<noteq> {} \<longrightarrow> d = d'"
      using Cons.prems(3) by (meson list.set_intros(2))
  qed
  ultimately show ?case using Cons.prems(2) a by fastforce
qed simp

text \<open>
  C29. Broadcasts: a valid broadcast is written, stamped and under the sender's resolved
  name, to every connection of every other device and to no connection of the
  sender's device, once each when no connection belongs to two devices; nothing
  is queued for devices that are away.
\<close>

theorem broadcast_reaches_every_other_device:
  assumes "routes_inv s" "ValidateBody b = Ok ()"
    and "\<forall>d d' w. w \<in> set (routes_of d s) \<and> w \<in> set (routes_of d' s) \<longrightarrow> d = d'"
    and "s' = handleBroadcast se out ident env (BroadcastMessage b claimed) s"
    and "stamped = (envelope_of (BroadcastMessage b (deviceOf ident)))\<lparr>env_message_id := env_message_id env,
           env_sent_at := env_sent_at env, env_received_at := Some (se_now se)\<rparr>"
  shows "\<exists>targets. sv_out s' = sv_out s @ map (\<lambda>c. (c, stamped)) targets \<and> distinct targets
       \<and> (\<forall>w. w \<in> set targets \<longleftrightarrow> (\<exists>d. d \<noteq> deviceOf ident \<and> w \<in> set (routes_of d s)))
       \<and> sv_offline s' = sv_offline s"
proof -
  let ?T = "routeTargetsExcept (deviceOf ident) s"
  have "stampedDelivery (se_now se) env (envelope_of (BroadcastMessage b (deviceOf ident))) = stamped"
    using assms(5) by (simp add: stampedDelivery_def envelope_of_def)
  then have s': "s' = (write_all ?T stamped s)\<lparr>sv_messages := sv_messages (write_all ?T stamped s) + 1\<rparr>"
    using assms(2,4) by (simp add: handleBroadcast_def Let_def)
  let ?m = "filter (\<lambda>(device, ws). device \<noteq> deviceOf ident) (sv_routes s)"
  have "distinct (concat (map snd ?m))"
  proof (rule distinct_concat_values)
    show "wf_map ?m" using assms(1) by (auto simp: routes_inv_def wf_map_def distinct_map_filter)
    show "\<forall>(d, ws) \<in> set ?m. distinct ws" using assms(1) by (auto simp: routes_inv_def)
    show "\<forall>d ws d' ws'. (d, ws) \<in> set ?m \<and> (d', ws') \<in> set ?m \<and> set ws \<inter> set ws' \<noteq> {} \<longrightarrow> d = d'"
      using assms(3) by (auto simp: routes_of_member [OF assms(1)])
  qed
  then have "distinct ?T" by (simp add: routeTargetsExcept_def)
  then show ?thesis
    using except_targets [OF assms(1)] by (intro exI [of _ ?T]) (simp add: s' write_all_frame)
qed

lemma sample_server_routes: "routes_inv sample_server"
  "routes_of d sample_server = (if d = ''bob'' then [2] else if d = ''ann'' then [1] else [])"
  by (simp_all add: sample_server_def routes_inv_add routes_of_addRoute)
    (simp_all add: routes_of_def NewServer_def)

theorem broadcast_reaches_every_other_device_witness:
  "\<exists>targets. (\<forall>w. w \<in> set targets \<longleftrightarrow> w = 2) \<and>
     sv_out (handleBroadcast sample_se 1 ident_ann (envelope_of Heartbeat) (BroadcastMessage ''hi'' ''x'') sample_server)
     = map (\<lambda>c. (c, (envelope_of (BroadcastMessage ''hi'' ''ann''))\<lparr>env_received_at := Some 500\<rparr>)) targets"
proof -
  have "ValidateBody ''hi'' = Ok ()"
    by (simp add: ValidateBody_def MaxBodyBytes_def ascii_valid)
  moreover have "\<forall>d d' w. w \<in> set (routes_of d sample_server) \<and> w \<in> set (routes_of d' sample_server) \<longrightarrow> d = d'"
    by (simp add: sample_server_routes(2))
  ultimately obtain targets where t:
    "sv_out (handleBroadcast sample_se 1 ident_ann (envelope_of Heartbeat) (BroadcastMessage ''hi'' ''x'') sample_server)
       = sv_out sample_server @ map (\<lambda>c. (c, (envelope_of (BroadcastMessage ''hi'' (deviceOf ident_ann)))
            \<lparr>env_message_id := env_message_id (envelope_of Heartbeat), env_sent_at := env_sent_at (envelope_of Heartbeat),
             env_received_at := Some (se_now sample_se)\<rparr>)) targets"
    "\<forall>w. w \<in> set targets \<longleftrightarrow> (\<exists>d. d \<noteq> deviceOf ident_ann \<and> w \<in> set (routes_of d sample_server))"
    using broadcast_reaches_every_other_device [OF sample_server_routes(1) _ _ refl refl] by blast
  have "sv_out sample_server = []" "deviceOf ident_ann = ''ann''" "se_now sample_se = 500"
    by (simp_all add: sample_server_def addRoute_def NewServer_def Let_def ident_ann_def deviceOf_def sample_se_def)
  then show ?thesis using t
    by (intro exI [of _ targets]) (auto simp: sample_server_routes(2) envelope_of_def split: if_splits)
qed

section \<open>Handshake\<close>



section \<open>Running handlers\<close>

text \<open>The events of the accept path and of the handlers: \<open>c\<close> is the handle the upgrade
  returned, so a new one.\<close>

inductive server_step :: "server \<Rightarrow> server \<Rightarrow> bool" where
  request: "c \<notin> set (sv_conns s) \<Longrightarrow> ServeHTTP addr_ok resolved upgrade_ok c s = (None, s') \<Longrightarrow> server_step s s'"
| admitted: "c \<notin> set (sv_conns s) \<Longrightarrow> ServeHTTP addr_ok resolved upgrade_ok c s = (Some ident, s1) \<Longrightarrow>
    s' = conn_open se c ident s1 \<Longrightarrow> server_step s s'"
| frame: "c \<in> set (sv_conns s) \<Longrightarrow> serve_frame se c ident f s = (keep, s') \<Longrightarrow> server_step s s'"
| handler_exit: "c \<in> set (sv_conns s) \<Longrightarrow> conn_exit se c ident s = Ok s' \<Longrightarrow> server_step s s'"
| shutdown: "s' = shutdown_begin s \<Longrightarrow> server_step s s'"

inductive server_reach :: "server \<Rightarrow> server \<Rightarrow> bool" where
  here: "server_reach s s"
| step: "server_reach s t \<Longrightarrow> server_step t u \<Longrightarrow> server_reach s u"

definition handlers_inv :: "server \<Rightarrow> bool" where
  "handlers_inv s \<longleftrightarrow> distinct (sv_conns s) \<and> sv_wg s = int (length (sv_conns s))"

text \<open>What no handler touches.\<close>

definition same_handlers :: "server \<Rightarrow> server \<Rightarrow> bool" where
  "same_handlers s s' \<longleftrightarrow> sv_conns s' = sv_conns s \<and> sv_wg s' = sv_wg s \<and> sv_draining s' = sv_draining s"

lemma same_handlers_simps [simp]:
  "same_handlers s (write_all cs env t) = same_handlers s t"
  "same_handlers s (write_frames c envs t) = same_handlers s t"
  "same_handlers s (conn_write c env t) = same_handlers s t"
  "same_handlers s (conn_close c code t) = same_handlers s t"
  "same_handlers s (addRoute d c t) = same_handlers s t"
  "same_handlers s (removeRoute d c t) = same_handlers s t"
  "same_handlers s (broadcastDirectory t) = same_handlers s t"
  "same_handlers s s"
  "same_handlers s (t\<lparr>sv_presence := x1\<rparr>) = same_handlers s t"
  "same_handlers s (t\<lparr>sv_offline := x2\<rparr>) = same_handlers s t"
  "same_handlers s (t\<lparr>sv_keys := x3\<rparr>) = same_handlers s t"
  "same_handlers s (t\<lparr>sv_messages := x4\<rparr>) = same_handlers s t"
  "same_handlers s (t\<lparr>sv_subs := x5\<rparr>) = same_handlers s t"
  by (auto simp: same_handlers_def write_all_frame write_frames_eq conn_write_def conn_close_def
      addRoute_def removeRoute_def Let_def broadcastDirectory_def split: option.split)

lemma frame_same_handlers: "same_handlers s (snd (serve_frame se c ident f s))"
proof -
  have "same_handlers s (snd (dispatch se c ident env s))" for env
    by (simp add: dispatch_def handleHello_def handleHeartbeat_def handleStatusChange_def handleDirect_def
        handleBroadcast_def handleQueueAck_def handleKeyAnnounce_def deliverUnroutable_def rejectMalformed_def
        Let_def split: option.split payload.split sum.split prod.split queue_error.split keystore_error.split)
  then show ?thesis by (simp add: serve_frame_def split: ws_frame.split option.split)
qed

lemma open_same_handlers: "same_handlers s (conn_open se c ident s)"
  by (simp add: conn_open_def Let_def split: option.split prod.split)

lemma exit_handlers:
  assumes "conn_exit se c ident s = Ok s'"
  shows "sv_conns s' = removeAll c (sv_conns s) \<and> sv_wg s' = sv_wg s - 1 \<and> sv_draining s' = sv_draining s"
proof -
  have "same_handlers s (removeRoute (deviceOf ident) c s)" by simp
  then show ?thesis using assms
    by (auto simp: conn_exit_def Let_def release_def same_handlers_def split: option.splits sum.splits)
qed

lemma shutdown_begin_simps [simp]:
  "sv_conns (shutdown_begin s) = sv_conns s" "sv_wg (shutdown_begin s) = sv_wg s"
  "sv_draining (shutdown_begin s)"
  "sv_closes (shutdown_begin s) = sv_closes s @ map (\<lambda>c. (c, StatusGoingAway)) (sv_conns s)"
proof -
  have "fold (\<lambda>c. conn_close c StatusGoingAway) cs t =
      t\<lparr>sv_closes := sv_closes t @ map (\<lambda>c. (c, StatusGoingAway)) cs\<rparr>" for cs t
    by (induction cs arbitrary: t) (simp_all add: conn_close_def)
  then show "sv_conns (shutdown_begin s) = sv_conns s" "sv_wg (shutdown_begin s) = sv_wg s"
    "sv_draining (shutdown_begin s)"
    "sv_closes (shutdown_begin s) = sv_closes s @ map (\<lambda>c. (c, StatusGoingAway)) (sv_conns s)"
    by (simp_all add: shutdown_begin_def)
qed

lemma ServeHTTP_handlers:
  assumes "c \<notin> set (sv_conns s)" "ServeHTTP addr_ok resolved upgrade_ok c s = (admitted, s')"
  shows "sv_draining s' = sv_draining s"
    "admitted = None \<Longrightarrow> sv_conns s' = sv_conns s \<and> sv_wg s' = sv_wg s"
    "admitted = Some ident \<Longrightarrow> sv_conns s' = c # sv_conns s \<and> sv_wg s' = sv_wg s + 1 \<and> \<not> sv_draining s
       \<and> resolved = Ok ident"
  using assms by (auto simp: ServeHTTP_def track_def release_def noteConnection_def Let_def List.insert_def
      removeAll_id split: if_splits sum.splits)

lemma step_handlers:
  assumes "server_step s s'" "handlers_inv s"
  shows "handlers_inv s' \<and> (sv_draining s \<longrightarrow> sv_draining s' \<and> set (sv_conns s') \<subseteq> set (sv_conns s))"
  using assms
proof (induction rule: server_step.induct)
  case (request c s addr_ok resolved upgrade_ok s')
  then show ?case
    using ServeHTTP_handlers(1,2) [OF request(1,2)] by (simp add: handlers_inv_def)
next
  case (admitted c s addr_ok resolved upgrade_ok ident s1 s' se)
  then show ?case
    using ServeHTTP_handlers(1,3) [OF admitted(1,2)] open_same_handlers [of s1 se c ident]
    by (simp add: handlers_inv_def same_handlers_def)
next
  case (frame c s se ident f keep s')
  then show ?case using frame_same_handlers [of s se c ident f] by (simp add: handlers_inv_def same_handlers_def)
next
  case (handler_exit c s se ident s')
  have "int (length (remove1 c (sv_conns s))) = int (length (sv_conns s)) - 1"
    using length_pos_if_in_set [OF handler_exit(1)] length_remove1 [of c "sv_conns s", unfolded if_P [OF handler_exit(1)]]
    by linarith
  then show ?case using exit_handlers [OF handler_exit(2)] handler_exit(3)
    by (auto simp: handlers_inv_def distinct_remove1_removeAll [symmetric])
next
  case (shutdown s' s)
  then show ?case by (simp add: handlers_inv_def)
qed

lemma reach_handlers: "server_reach s t \<Longrightarrow> handlers_inv s \<Longrightarrow> handlers_inv t"
  by (induction rule: server_reach.induct) (use step_handlers in blast)+

text \<open>
  Shutdown waits for exactly the running handlers: in every state reached by
  requests, admissions, frames, handler exits and shutdown the wait counter is
  the number of registered connections, so the drain completes exactly when
  none is left; and once the drain began no step registers a connection.
\<close>

theorem shutdown_waits_for_every_handler:
  assumes "server_reach (NewServer tr q) s"
  shows "sv_wg s = int (length (sv_conns s)) \<and> (shutdown_result s = Ok () \<longleftrightarrow> sv_conns s = [])
       \<and> (sv_draining s \<and> server_step s s' \<longrightarrow> sv_draining s' \<and> set (sv_conns s') \<subseteq> set (sv_conns s))"
proof -
  have "handlers_inv s"
    by (rule reach_handlers [OF assms]) (simp add: handlers_inv_def NewServer_def)
  then show ?thesis using step_handlers [of s s'] by (auto simp: handlers_inv_def shutdown_result_def)
qed

lemma sample_run: "server_reach (NewServer None None)
    (shutdown_begin (conn_open sample_se 1 ident_ann (snd (ServeHTTP True (Ok ident_ann) True 1 (NewServer None None)))))"
proof (rule server_reach.step [OF server_reach.step [OF server_reach.here]])
  show "server_step (NewServer None None)
     (conn_open sample_se 1 ident_ann (snd (ServeHTTP True (Ok ident_ann) True 1 (NewServer None None))))"
    by (rule server_step.admitted [where c = 1 and addr_ok = True and resolved = "Ok ident_ann" and upgrade_ok = True])
      (simp_all add: NewServer_def ServeHTTP_def track_def noteConnection_def Let_def)
  show "server_step (conn_open sample_se 1 ident_ann (snd (ServeHTTP True (Ok ident_ann) True 1 (NewServer None None))))
     (shutdown_begin (conn_open sample_se 1 ident_ann (snd (ServeHTTP True (Ok ident_ann) True 1 (NewServer None None)))))"
    by (rule server_step.shutdown) simp
qed

theorem shutdown_waits_for_every_handler_witness:
  "sv_wg (shutdown_begin (conn_open sample_se 1 ident_ann
      (snd (ServeHTTP True (Ok ident_ann) True 1 (NewServer None None))))) = 1"
  using shutdown_waits_for_every_handler [OF sample_run]
  by (simp add: conn_open_def addRoute_def NewServer_def ServeHTTP_def track_def noteConnection_def Let_def)

section \<open>Admission and keys\<close>

text \<open>
  Admission is decided by the daemon's answer before the upgrade: a request whose
  peer has neither login, display name nor node name is refused, counted and
  registers nothing.  But an answer that carries only a display name is admitted
  under the empty device name, which no direct message can address and which the
  key directory's broadcast leaves out.
\<close>

theorem admission_requires_an_identity:
  "(identityFromWhoIs resp = Err e \<longrightarrow>
      ServeHTTP True (identityFromWhoIs resp) up c s = (None, s\<lparr>sv_refusals := sv_refusals s + 1\<rparr>))
   \<and> (identityFromWhoIs (Some (Some (login, disp), Some node)) = Ok ident \<longrightarrow>
      (deviceOf ident = '''' \<longleftrightarrow> login = '''' \<and> node = ''''))
   \<and> (disp \<noteq> '''' \<longrightarrow> (\<exists>ident. identityFromWhoIs (Some (Some ('''', disp), Some '''')) = Ok ident
        \<and> deviceOf ident = ''''
        \<and> sv_out (handleDirect se out any env (DirectMessage (deviceOf ident) b x) t)
            = sv_out t @ [(out, malformed ''direct_message.recipient must not be empty'')]
        \<and> (routes_inv t \<longrightarrow> set (routeTargetsAll t) = {w. \<exists>d. d \<noteq> deviceOf ident \<and> w \<in> set (routes_of d t)})))"
  by (auto simp: ServeHTTP_def identityFromWhoIs_def no_identity_def deviceOf_def handleDirect_def
      rejectMalformed_def routeTargetsAll_def except_targets Let_def split: if_splits)

theorem admission_requires_an_identity_witness:
  "ServeHTTP True (identityFromWhoIs None) True 1 (NewServer None None)
     = (None, (NewServer None None)\<lparr>sv_refusals := 1\<rparr>)"
proof -
  have "identityFromWhoIs None = Err ''identity unresolved: daemon returned no answer''"
    by (simp add: identityFromWhoIs_def)
  then have "ServeHTTP True (identityFromWhoIs None) True 1 (NewServer None None)
     = (None, (NewServer None None)\<lparr>sv_refusals := sv_refusals (NewServer None None) + 1\<rparr>)"
    using admission_requires_an_identity [of None] by blast
  then show ?thesis by (simp add: NewServer_def)
qed

text \<open>
  Announcing a key: the key is pinned to the resolved device name and to nobody
  else's, a changed key without a confirmation is refused to the announcer and
  leaves the pin; and an unchanged key, accepted as the no-op it is, still sends
  the whole directory to every connection.
\<close>

theorem key_announcement:
  assumes "sv_keys s = Some ks" "keystore_inv ks" "length key = pubKeySize"
    and "s' = handleKeyAnnounce se out ident key s"
  shows "(\<exists>ks'. sv_keys s' = Some ks' \<and> (\<forall>p. p \<noteq> deviceOf ident \<longrightarrow> PinnedKey p ks' = PinnedKey p ks))
       \<and> (PinnedKey (deviceOf ident) ks = Some old \<and> old \<noteq> key \<and> sv_confirm s = None \<and> deviceOf ident \<noteq> '''' \<longrightarrow>
            sv_keys s' = Some ks \<and> (\<exists>detail. sv_out s' = sv_out s @ [(out, malformed detail)]))
       \<and> (PinnedKey (deviceOf ident) ks = Some key \<and> deviceOf ident \<noteq> '''' \<longrightarrow> sv_keys s' = Some ks \<and>
            sv_out s' = sv_out s @ map (\<lambda>c. (c, envelope_of (PublicKeyDirectory (ks_Entries ks)))) (routeTargetsAll s))"
proof -
  obtain res ks' where au: "Authorize (se_sha se) (se_kfails se) (se_now se) (deviceOf ident) key (sv_confirm s) ks = (res, ks')"
    by fastforce
  have out: "sv_keys s' = Some ks'"
    "res = Ok () \<Longrightarrow> s' = broadcastDirectory (s\<lparr>sv_keys := Some ks'\<rparr>)"
    "res = Err (KeyChangeRefused p f g) \<Longrightarrow> \<exists>detail. sv_out s' = sv_out s @ [(out, malformed detail)]" for p f g
    using assms(1,3,4) au
    by (auto simp: handleKeyAnnounce_def ParsePublicKey_def broadcastDirectory_def directoryEnvelope_def
        write_all_frame split: sum.split keystore_error.split)
  have "PinnedKey p ks' = PinnedKey p ks" if "p \<noteq> deviceOf ident" for p
    using assms(2) au by (cases rule: Authorize_cases) (use that in \<open>simp_all add: PinnedKey_def\<close>)
  moreover have "res = Err (KeyChangeRefused (deviceOf ident) (Fingerprint (se_sha se) old) (Fingerprint (se_sha se) key))
      \<and> ks' = ks"
    if "PinnedKey (deviceOf ident) ks = Some old" "old \<noteq> key" "sv_confirm s = None" "deviceOf ident \<noteq> ''''"
    using au that by (auto simp: Authorize_def PinnedKey_def Let_def split: option.splits)
  moreover have "res = Ok () \<and> ks' = ks" if "PinnedKey (deviceOf ident) ks = Some key" "deviceOf ident \<noteq> ''''"
    using au that by (auto simp: Authorize_def PinnedKey_def split: option.splits)
  moreover have "sv_out (broadcastDirectory (s\<lparr>sv_keys := Some ks\<rparr>)) =
      sv_out s @ map (\<lambda>c. (c, envelope_of (PublicKeyDirectory (ks_Entries ks)))) (routeTargetsAll s)"
    by (simp add: broadcastDirectory_def directoryEnvelope_def write_all_frame routeTargetsAll_def routeTargetsExcept_def)
  ultimately show ?thesis using out by metis
qed

theorem key_announcement_witness:
  "sv_out (handleKeyAnnounce sample_se 2 \<lparr>id_LoginName = '''', id_DisplayName = '''', id_NodeName = ''bob''\<rparr> (replicate 32 1)
      (WireKeys sample_pinned None sample_server))
   = map (\<lambda>c. (c, envelope_of (PublicKeyDirectory (ks_Entries sample_pinned))))
       (routeTargetsAll (WireKeys sample_pinned None sample_server))"
proof -
  have "sv_out sample_server = []" by (simp add: sample_server_def addRoute_def NewServer_def Let_def)
  then show ?thesis
    using key_announcement [OF _ sample_pinned_facts(1) _ refl, where s = "WireKeys sample_pinned None sample_server"
        and key = "replicate 32 1" and se = sample_se and out = 2
        and ident = "\<lparr>id_LoginName = '''', id_DisplayName = '''', id_NodeName = ''bob''\<rparr>"] sample_pinned_facts(2)
    by (simp add: WireKeys_def deviceOf_def pubKeySize_def)
qed

end
