(* ===== verification/Journey.thy ===== *)
theory Journey
  imports AppProps ServerProps QueueRuns
begin

text \<open>
  The way of one direct message through the whole system: composed by one assembled
  client (\<^verbatim>\<open>src/cmd/walkie/app.go\<close>), served by the coordinator
  (\<^verbatim>\<open>src/internal/coordinator/\<close>), which routes it or holds it sealed in its queue, and
  filed by the recipient's client.  One lemma for each leg; the theorem that joins them is
  in the root theory.
\<close>

section \<open>The legs\<close>

lemma SendFromUI_sent:
  assumes "SendFromUI pf hf dbf ok now mid (ConversationKey r) body a = (Ok (), a')"
  obtains k where "r \<noteq> ''''" "ValidateBody body = Ok ()"
    "cl_sent (ap_client a') = cl_sent (ap_client a) @ [(k, composed mid now r body)]"
proof -
  obtain res a1 where f: "ui_file hf now mid (ConversationKey r) body a = (res, a1)" by fastforce
  obtain env where e: "res = Ok env" "ui_transmit ok env a1 = (Ok (), a')"
    using assms unfolding SendFromUI_def f by (auto simp: ui_hold_def split: sum.splits prod.splits)
  have "ConversationKey r \<noteq> BroadcastConversation"
    by (simp add: ConversationKey_def BroadcastConversation_def dmKeyPrefix_def)
  then have "r \<noteq> ''''" "ValidateBody body = Ok ()" "env = composed mid now r body"
    using f e(1) by (auto simp: ui_file_def TrimPrefix_dm SendDirect_def composed_def Let_def split: sum.splits prod.splits option.splits if_splits)
  moreover have "ap_client a1 = ap_client a" using ui_file_frame [OF f] by simp
  ultimately show ?thesis
    using e(2) that by (auto simp: ui_transmit_def client_Send_def split: option.splits if_splits)
qed

definition travelling :: "string \<Rightarrow> time \<Rightarrow> string \<Rightarrow> string \<Rightarrow> string \<Rightarrow> time \<Rightarrow> message" where
  "travelling mid now sender r body received = \<lparr>msg_ID = mid, msg_Sender = sender, msg_Recipient = r, msg_Body = body,
     msg_SentAt = now, msg_ReceivedAt = received\<rparr>"

definition on_the_wire :: "message \<Rightarrow> envelope" where
  "on_the_wire m = \<lparr>env_message_id = msg_ID m, env_sent_at = Some (msg_SentAt m), env_position = 0,
     env_received_at = Some (msg_ReceivedAt m),
     env_payload = Some (DirectMessage (msg_Recipient m) (msg_Body m) (msg_Sender m))\<rparr>"

lemma text_message_on_the_wire: "text_message ((on_the_wire m)\<lparr>env_position := p\<rparr>) = Some m"
  by (simp add: text_message_def on_the_wire_def stampOrZero_def)

lemma serve_composed:
  assumes "qd_unmarshal (se_deps se) data = Some (composed mid now r body)" "int (length data) \<le> maxEnvelopeBytes"
    and "r \<noteq> ''''" "ValidateBody body = Ok ()"
    and d: "d = on_the_wire (travelling mid now (deviceOf ident) r body (se_now se))"
  shows "serve_frame se c ident (BinaryFrame data) s = (True,
           if routes_of r s \<noteq> [] then s\<lparr>sv_out := sv_out s @ map (\<lambda>k. (k, d)) (routes_of r s), sv_messages := sv_messages s + 1\<rparr>
           else deliverUnroutable se c r d s)"
proof -
  have "stampedDelivery (se_now se) (composed mid now r body) (envelope_of (DirectMessage r body (deviceOf ident))) = d"
    by (simp add: d stampedDelivery_def composed_def envelope_of_def on_the_wire_def travelling_def)
  then show ?thesis
    using assms(1-4) by (simp add: serve_frame_def dispatch_def composed_def handleDirect_def Let_def routeTargets_def write_all_frame)
qed

lemma held_message:
  assumes "deliverUnroutable se c r d s = s1" "sv_messages s1 = sv_messages s + 1"
    and "env_payload d = Some (DirectMessage x y z)" "sv_offline s = Some q" "queue_inv q"
  obtains q' p m body where "sv_offline s1 = Some q'" "qd_marshal (se_deps se) d = Some m"
    "sealForStorage (se_deps se) r m = Some body" "0 < int64 p"
    "\<lparr>row_recipient = r, row_position = int64 p, row_message_id = env_message_id d, row_body = body,
       row_enqueued_at = se_now se\<rparr> \<in> set (retained r q')"
proof -
  obtain res q' where e: "queue_Enqueue (se_deps se) (se_qfails se) (se_now se) r d q = (res, q')" by fastforce
  obtain p where res: "res = Ok p" and s1: "sv_offline s1 = Some q'"
    using assms e by (cases res)
      (auto simp: deliverUnroutable_def queue_Deliver_def split: if_splits option.splits queue_error.splits)
  obtain m body where mb: "qd_marshal (se_deps se) d = Some m" "sealForStorage (se_deps se) r m = Some body"
    "retained r q' = retained r q @ [\<lparr>row_recipient = r, row_position = int64 p, row_message_id = env_message_id d,
       row_body = body, row_enqueued_at = se_now se\<rparr>]"
    using enqueue_retained [OF e [unfolded res], of r] by auto
  moreover have "queue_inv q'" using enqueue_inv [OF assms(5)] e by (metis snd_conv)
  ultimately have "1 \<le> int64 p" using queue_invD(5) [of q' _ r] by fastforce
  then show ?thesis using that [OF s1 mb(1,2), of p] mb(3) by simp
qed

lemma hello_writes_row:
  assumes "sv_offline s = Some q" "row \<in> set (retained r q)" "int64 acked < row_position row"
    and "deliveryFromStorage (se_deps se) (row_position row) (row_body row) = Some d"
    and "deviceOf ident = r" "ProtocolVersionSupported pv" "\<not> se_qfails se StQuery"
  shows "\<exists>before after. sv_out (snd (handleHello se k ident (Hello v acked pv) s)) = sv_out s @ before @ (k, d) # after"
proof -
  have dev: "(if id_NodeName ident = '''' then id_LoginName ident else id_NodeName ident) = r"
    using assms(5) by (auto simp: deviceOf_def)
  obtain ds where ds: "queue_Resume (se_deps se) (se_qfails se) r acked q = Ok ds"
    using assms(7) by (simp add: queue_Resume_def)
  have "d \<in> set (map del_Envelope ds)"
    using ds assms(2-4,7) by (force simp: queue_Resume_def resume_rows_def List.map_filter_def)
  then obtain xs ys where ds_split: "map del_Envelope ds = xs @ d # ys" by (meson split_list)
  obtain ack rest where "sv_out (snd (handleHello se k ident (Hello v acked pv) s))
      = sv_out s @ (k, ack) # map (\<lambda>e. (k, e)) (map del_Envelope ds) @ rest"
    using assms(1,6) ds unfolding handleHello_def dev
    by (cases "directoryEnvelope (write_frames k (map del_Envelope ds)
          (conn_write k (envelope_of (HelloAck r (Some (se_now se)) (of_nat (length ds)) MaxProtocolVersion)) s))")
      (simp_all add: Let_def write_frames_eq)
  then have "sv_out (snd (handleHello se k ident (Hello v acked pv) s))
      = sv_out s @ ((k, ack) # map (\<lambda>e. (k, e)) xs) @ (k, d) # map (\<lambda>e. (k, e)) ys @ rest"
    unfolding ds_split by simp
  then show ?thesis by blast
qed

section \<open>The reader\<close>

text \<open>The frame makes the client show the message as the newest line of the conversation
  with its sender, whatever fails on the way to the disk or the wire.\<close>

definition reads :: "platform \<Rightarrow> envelope \<Rightarrow> message \<Rightarrow> app \<Rightarrow> bool" where
  "reads pf d m b \<longleftrightarrow> (\<forall>fails now ok. \<exists>b' h' older. OnEnvelope pf fails now ok d b = Ok b' \<and> ap_hub b' = Some h'
     \<and> hub_Conversation (ConversationKey (msg_Sender m)) h' = older @ [m])"

definition fresh_reader :: "string \<Rightarrow> string \<Rightarrow> identity_key option \<Rightarrow> app \<Rightarrow> bool" where
  "fresh_reader r mid key b \<longleftrightarrow> (case ap_hub b of None \<Rightarrow> False
     | Some h \<Rightarrow> hub_inv h \<and> hb_local h = r \<and> hb_identity h = key \<and> mid \<notin> dd_seen (lg_dedup (hb_log h)))"

lemma applyText_files:
  assumes "hub_inv h" "text_message env = Some m" "msg_ID m \<notin> dd_seen (lg_dedup (hb_log h))"
    and "msg_Recipient m = hb_local h" "hb_local h \<noteq> ''''"
  obtains h' older where "applyText env h = ((m, True), h')"
    "hub_Conversation (ConversationKey (msg_Sender m)) h' = older @ [m]"
proof -
  have key: "log_key (hb_log h) m = ConversationKey (msg_Sender m)"
    using assms(1,4,5) by (auto simp: log_key_def hub_inv_def ConversationKeyFor_def IsBroadcast_def)
  have new: "fst (log_Append m (hb_log h))" using assms(3) by (simp add: dedup_First_seen)
  have "0 < lg_scrollback (hb_log h)" using assms(1) by (simp add: hub_inv_def log_inv_def)
  then have "lastn (lg_scrollback (hb_log h)) (c @ [m]) = drop (length c + 1 - lg_scrollback (hb_log h)) c @ [m]" for c
    by (simp add: lastn_def)
  then have older: "log_Conversation (ConversationKey (msg_Sender m)) (snd (log_Append m (hb_log h)))
      = drop (length (log_Conversation (ConversationKey (msg_Sender m)) (hb_log h)) + 1 - lg_scrollback (hb_log h))
          (log_Conversation (ConversationKey (msg_Sender m)) (hb_log h)) @ [m]"
    using new key by (simp only: log_Append_Conversation simp_thms if_True)
  have "applyText env h = ((m, True), h\<lparr>hb_log := snd (log_Append m (hb_log h))\<rparr>)"
    using assms(2) new by (cases "log_Append m (hb_log h)") (simp add: applyText_def del: log_Append_answer)
  then show ?thesis using that older by (simp add: hub_Conversation_def)
qed

lemma reads_frame:
  assumes "ap_hub b = Some h" "hub_Apply (pf_prims pf) (pf_unmarshal pf) (Some d) h = ((m, True), h')"
    and "hub_Conversation (ConversationKey (msg_Sender m)) h' = older @ [m]"
    and "\<nexists>x s l t. env_payload d = Some (PresenceUpdate x s l t)"
  shows "reads pf d m b"
proof -
  have "hubRef b = (Ok (Some h), b)" using assms(1) by (simp add: hubRef_def)
  then show ?thesis using assms(2-4)
    by (auto simp: reads_def OnEnvelope_def Let_def app_notify_def file_history_def split: option.split payload.split)
qed

lemma reads_plain:
  assumes "fresh_reader r (msg_ID m) key b" "msg_Recipient m = r" "r \<noteq> ''''"
  shows "reads pf ((on_the_wire m)\<lparr>env_position := p\<rparr>) m b"
proof -
  let ?d = "(on_the_wire m)\<lparr>env_position := p\<rparr>"
  obtain h where h: "ap_hub b = Some h" "hub_inv h" "hb_local h = r" "msg_ID m \<notin> dd_seen (lg_dedup (hb_log h))"
    using assms(1) by (auto simp: fresh_reader_def split: option.splits)
  obtain h' older where "applyText ?d h = ((m, True), h')" and c: "hub_Conversation (ConversationKey (msg_Sender m)) h' = older @ [m]"
    using applyText_files [OF h(2) text_message_on_the_wire [where m = m and p = p] h(4)] h(3) assms(2,3) by blast
  then have "hub_Apply (pf_prims pf) (pf_unmarshal pf) (Some ?d) h = ((m, True), h')"
    by (simp add: hub_Apply_def on_the_wire_def)
  from reads_frame [OF h(1) this c] show ?thesis by (simp add: on_the_wire_def)
qed

lemma reads_sealed:
  assumes "fresh_reader r (msg_ID m) (Some key) b" "msg_Recipient m = r" "r \<noteq> ''''"
    and "prims_ok (pf_prims pf)" "newIdentity (pf_prims pf) priv = Ok key"
    and "sealWithRand (pf_prims pf) rnd (ik_pub key) plaintext = Ok box" "pf_unmarshal pf plaintext = Some (on_the_wire m)"
    and "env_payload d = Some (SealedDelivery box)"
  shows "reads pf d m b"
proof -
  obtain h where h: "ap_hub b = Some h" "hub_inv h" "hb_local h = r" "msg_ID m \<notin> dd_seen (lg_dedup (hb_log h))"
    "hb_identity h = Some key"
    using assms(1) by (auto simp: fresh_reader_def split: option.splits)
  have "text_message (on_the_wire m) = Some m" by (simp add: text_message_def on_the_wire_def stampOrZero_def)
  then obtain h' older where "applyText (on_the_wire m) h = ((m, True), h')"
    and c: "hub_Conversation (ConversationKey (msg_Sender m)) h' = older @ [m]"
    using applyText_files [OF h(2) _ h(4)] h(3) assms(2,3) by blast
  then have "hub_Apply (pf_prims pf) (pf_unmarshal pf) (Some d) h = ((m, True), h')"
    using sealed_box_opens [OF assms(4,5,6)] assms(7,8) h(5) by (simp add: hub_Apply_def applySealed_def)
  from reads_frame [OF h(1) this c] show ?thesis using assms(8) by simp
qed

text \<open>The coordinator seals with the keys it has pinned (\<^verbatim>\<open>NewKeystoreSealer\<close>); for this recipient that is
  the reader's key or none.\<close>

definition seals_to :: "prims \<Rightarrow> queue_deps \<Rightarrow> string \<Rightarrow> bytes \<Rightarrow> bool" where
  "seals_to p deps r pub \<longleftrightarrow> (case qd_atRest deps of None \<Rightarrow> True
     | Some at_rest \<Rightarrow> (\<exists>pinned rnd. at_rest = keystoreSealer_Seal pinned
          (\<lambda>key m. case sealWithRand p rnd key m of Inl e \<Rightarrow> None | Inr box \<Rightarrow> Some box)
        \<and> pinned r \<in> {None, Some pub}))"

lemma stored_reads:
  assumes "fresh_reader r (msg_ID m) (Some key) b" "msg_Recipient m = r" "r \<noteq> ''''"
    and "prims_ok (pf_prims pf)" "newIdentity (pf_prims pf) priv = Ok key"
    and "pf_unmarshal pf = qd_unmarshal deps" "qd_unmarshal deps bytes = Some (on_the_wire m)"
    and "seals_to (pf_prims pf) deps r (ik_pub key)" "sealForStorage deps r bytes = Some body"
  shows "\<exists>d. deliveryFromStorage deps pos body = Some d \<and> reads pf d m b"
proof -
  consider (plain) "body = storedPlainMarker # bytes"
    | (box) box rnd where "body = storedSealedMarker # box" "sealWithRand (pf_prims pf) rnd (ik_pub key) bytes = Ok box"
    using assms(8,9) by (auto simp: seals_to_def sealForStorage_def keystoreSealer_Seal_def split: option.splits sum.splits if_splits)
  then show ?thesis
  proof cases
    case plain
    then show ?thesis using assms(7) reads_plain [OF assms(1-3)]
      by (simp add: deliveryFromStorage_def storedPlainMarker_def storedSealedMarker_def)
  next
    case box
    have "deliveryFromStorage deps pos body = Some ((envelope_of (SealedDelivery box))\<lparr>env_position := uint64 pos\<rparr>)"
      using box(1) by (simp add: deliveryFromStorage_def)
    moreover have "reads pf ((envelope_of (SealedDelivery box))\<lparr>env_position := uint64 pos\<rparr>) m b"
      using reads_sealed [OF assms(1-5) box(2)] assms(6,7) by (simp add: envelope_of_def)
    ultimately show ?thesis by blast
  qed
qed

section \<open>A concrete journey\<close>

definition demo_message :: message where "demo_message = travelling ''2'' 9 ''ann'' ''bob'' ''hi'' 500"

definition demo_deps :: queue_deps where
  "demo_deps = \<lparr>qd_marshal = (\<lambda>e. if e = draft ''2'' then Some [2] else if e = on_the_wire demo_message then Some [3] else None),
     qd_unmarshal = (\<lambda>b. if b = [2] then Some (draft ''2'') else if b = [3] then Some (on_the_wire demo_message) else None),
     qd_atRest = Some (keystoreSealer_Seal (\<lambda>_. Some (ik_pub toy_identity))
       (\<lambda>key m. case sealWithRand toy_prims (replicate 56 1) key m of Inl e \<Rightarrow> None | Inr box \<Rightarrow> Some box))\<rparr>"

definition demo_coordinator :: server_env where "demo_coordinator = sample_se\<lparr>se_deps := demo_deps\<rparr>"

definition demo_reader :: app where
  "demo_reader = sample_app\<lparr>ap_hub := Some (sample_hub\<lparr>hb_local := ''bob'', hb_log := sample_log\<lparr>lg_local := ''bob''\<rparr>\<rparr>)\<rparr>"

definition demo_reader_platform :: platform where
  "demo_reader_platform = \<lparr>pf_prims = toy_prims, pf_marshal = qd_marshal demo_deps, pf_unmarshal = qd_unmarshal demo_deps\<rparr>"

lemma demo_codec: "qd_marshal demo_deps e = Some b \<Longrightarrow> qd_unmarshal demo_deps b = Some e"
  by (auto simp: demo_deps_def split: if_splits)

lemma demo_fresh: "fresh_reader ''bob'' ''2'' (Some toy_identity) demo_reader"
  by (simp add: fresh_reader_def demo_reader_def sample_hub_def hub_inv_def log_inv_def sample_log_def dedup_inv_def
      log_Conversation_def)

lemma demo_seals: "seals_to toy_prims demo_deps ''bob'' (ik_pub toy_identity)"
  unfolding seals_to_def demo_deps_def by (simp, blast)

lemma demo_sent:
  obtains a' where "SendFromUI sample_platform no_history_faults False True 9 ''2'' (ConversationKey ''bob'') ''hi'' sample_app = (Ok (), a')"
    "snd (last (cl_sent (ap_client a'))) = draft ''2''"
proof -
  have hub: "ap_hub sample_app \<noteq> None \<or> ConnectedAs (ap_client sample_app) \<noteq> '''' \<and> ap_key sample_app \<noteq> None"
    by (simp add: sample_app_def newApp_def ConnectedAs_def sample_client_def)
  obtain a1 where f: "ui_file no_history_faults 9 ''2'' (ConversationKey ''bob'') ''hi'' sample_app = (Ok (draft ''2''), a1)"
    using ui_file_direct [OF hub hi_valid, of "''bob''" no_history_faults 9 "''2''"] draft_composed
    by (metis fst_conv prod.collapse list.distinct(1))
  have "ap_client a1 = sample_client" using ui_file_frame [OF f] by (simp add: sample_app_def newApp_def)
  then show ?thesis
    using that f by (simp add: SendFromUI_def ui_transmit_def client_Send_def sample_client_def)
qed

lemma demo_held:
  "sv_messages (deliverUnroutable demo_coordinator 1 ''bob'' (on_the_wire demo_message) (NewServer None (Some sample_queue))) = 1"
proof -
  obtain box where "sealWithRand toy_prims (replicate 56 1) (ik_pub toy_identity) [3] = Ok box" using toy_seal by blast
  moreover have "on_the_wire demo_message \<noteq> draft ''2''"
    by (simp add: on_the_wire_def demo_message_def travelling_def draft_def envelope_of_def)
  ultimately have "\<exists>q'. queue_Enqueue demo_deps no_faults 500 ''bob'' (on_the_wire demo_message) sample_queue = (Ok 1, q')"
    by (simp add: queue_Enqueue_def demo_deps_def sealForStorage_def keystoreSealer_Seal_def sample_queue_def Let_def
        ensure_cursor_def retained_def uint64_def)
  moreover have "env_payload (on_the_wire demo_message) = Some (DirectMessage ''bob'' ''hi'' ''ann'')"
    by (simp add: on_the_wire_def demo_message_def travelling_def)
  ultimately show ?thesis
    by (auto simp: deliverUnroutable_def queue_Deliver_def NewServer_def demo_coordinator_def sample_se_def)
qed

end
