(* ===== verification/Ops.thy ===== *)
theory Ops
  imports Presence Queue History
begin

text \<open>
  The processes around the components: the coordinator's configuration
  (\<^verbatim>\<open>src/cmd/walkie-coordinator/main.go\<close>), its readiness endpoints
  (\<^verbatim>\<open>src/internal/obs/health.go\<close>) and the history command
  (\<^verbatim>\<open>src/cmd/walkie/history.go\<close>).  The environment and the parsers of durations and
  instants are arguments.
\<close>

section \<open>Coordinator configuration (main.go)\<close>

record coord_config =
  cf_authKey :: string
  cf_hostname :: string
  cf_stateDir :: string
  cf_storePath :: string
  cf_controlPort :: string
  cf_obsPort :: string
  cf_presenceTTL :: duration
  cf_queueTTL :: duration
  cf_queueMaxSize :: int

datatype coord_error = StateDirRequired | BadPresenceTTL string | BadQueueTTL string | BadQueueMaxSize string

definition defaultPresenceTTL :: duration where "defaultPresenceTTL = 45 * second"
definition defaultQueueTTL :: duration where "defaultQueueTTL = 72 * 3600 * second"
definition defaultQueueMaxSize :: int where "defaultQueueMaxSize = 256"

definition envOr :: "(string \<Rightarrow> string) \<Rightarrow> string \<Rightarrow> string \<Rightarrow> string" where
  "envOr env key fallback = (if env key \<noteq> '''' then env key else fallback)"

text \<open>\<^verbatim>\<open>strconv.Atoi\<close>: an optional sign and decimal digits within 64 bits.\<close>

definition digit_value :: "char \<Rightarrow> int option" where
  "digit_value c = (let n = of_char c :: int in if 48 \<le> n \<and> n \<le> 57 then Some (n - 48) else None)"

fun digits_value :: "int \<Rightarrow> string \<Rightarrow> int option" where
  "digits_value acc [] = Some acc"
| "digits_value acc (c # cs) = (case digit_value c of None \<Rightarrow> None | Some d \<Rightarrow> digits_value (10 * acc + d) cs)"

definition Atoi :: "string \<Rightarrow> int option" where
  "Atoi s =
     (let (neg, ds) = (case s of CHR ''-'' # t \<Rightarrow> (True, t) | CHR ''+'' # t \<Rightarrow> (False, t) | _ \<Rightarrow> (False, s))
      in if ds = [] then None
         else case digits_value 0 ds of
           None \<Rightarrow> None
         | Some n \<Rightarrow> (let v = (if neg then - n else n) in if - (2 ^ 63) \<le> v \<and> v < 2 ^ 63 then Some v else None))"

text \<open>
  \<^verbatim>\<open>filepath.Join\<close> of a non-empty directory and a file name: the lexically cleaned
  concatenation, with slashes as separators.
\<close>

fun split_slash :: "string \<Rightarrow> string \<Rightarrow> string list" where
  "split_slash acc [] = [rev acc]"
| "split_slash acc (c # cs) = (if c = CHR ''/'' then rev acc # split_slash [] cs else split_slash (c # acc) cs)"

definition clean_part :: "bool \<Rightarrow> string \<Rightarrow> string list \<Rightarrow> string list" where
  "clean_part rooted p st =
     (if p = '''' \<or> p = ''.'' then st
      else if p \<noteq> ''..'' then p # st
      else case st of [] \<Rightarrow> if rooted then [] else [''..'']
                    | q # r \<Rightarrow> if q = ''..'' then p # st else r)"

fun join_slash :: "string list \<Rightarrow> string" where
  "join_slash [] = ''''"
| "join_slash [p] = p"
| "join_slash (p # ps) = p @ ''/'' @ join_slash ps"

definition path_Join :: "string \<Rightarrow> string \<Rightarrow> string" where
  "path_Join dir name =
     (let s = dir @ ''/'' @ name; rooted = (hd s = CHR ''/'');
          out = (if rooted then ''/'' else '''') @ join_slash (rev (fold (clean_part rooted) (split_slash [] s) []))
      in if out = '''' then ''.'' else out)"

definition loadConfig ::
  "(string \<Rightarrow> duration option) \<Rightarrow> (string \<Rightarrow> string) \<Rightarrow> (coord_error, coord_config) result" where
  "loadConfig ParseDuration env =
     (if env ''WALKIE_STATE_DIR'' = '''' then Err StateDirRequired
      else let stateDir = env ''WALKIE_STATE_DIR'';
               storePath = envOr env ''WALKIE_STORE_PATH'' (path_Join stateDir ''coordinator.db'');
               port = envOr env ''WALKIE_CONTROL_PORT'' ''443'';
               obsPort = envOr env ''WALKIE_OBS_PORT'' ''9464'';
               pv = env ''WALKIE_PRESENCE_TTL''; qv = env ''WALKIE_QUEUE_TTL''; mv = env ''WALKIE_QUEUE_MAX_SIZE''
           in case (if pv = '''' then Some defaultPresenceTTL else ParseDuration pv) of
                None \<Rightarrow> Err (BadPresenceTTL pv)
              | Some ttl \<Rightarrow>
                  (case (if qv = '''' then Some defaultQueueTTL else ParseDuration qv) of
                     None \<Rightarrow> Err (BadQueueTTL qv)
                   | Some queueTTL \<Rightarrow>
                       (case (if mv = '''' then Some defaultQueueMaxSize
                              else case Atoi mv of None \<Rightarrow> None | Some n \<Rightarrow> if n \<le> 0 then None else Some n) of
                          None \<Rightarrow> Err (BadQueueMaxSize mv)
                        | Some queueMaxSize \<Rightarrow>
                            Ok \<lparr>cf_authKey = env ''WALKIE_TAILNET_AUTHKEY'',
                                cf_hostname = envOr env ''WALKIE_HOSTNAME'' ''walkie-coordinator'',
                                cf_stateDir = stateDir, cf_storePath = storePath, cf_controlPort = port, cf_obsPort = obsPort,
                                cf_presenceTTL = ttl, cf_queueTTL = queueTTL, cf_queueMaxSize = queueMaxSize\<rparr>)))"

section \<open>Readiness (health.go)\<close>

record health =
  he_CoordinatorReady :: "bool option"
  he_StoreReady :: "bool option"

record health_answer =
  ha_code :: nat
  ha_status :: string
  ha_coordinator :: string
  ha_store :: string

text \<open>\<^term>\<open>None\<close> is an absent probe.\<close>

definition serveReady :: "health \<Rightarrow> health_answer" where
  "serveReady h =
     (let coordState = (if he_CoordinatorReady h \<noteq> Some True then ''not_ready'' else ''ready'');
          storeState = (if he_StoreReady h = Some False then ''unavailable'' else ''ready'');
          bad = (coordState \<noteq> ''ready'' \<or> storeState \<noteq> ''ready'')
      in \<lparr>ha_code = (if bad then 503 else 200), ha_status = (if bad then ''degraded'' else ''ok''),
          ha_coordinator = coordState, ha_store = storeState\<rparr>)"

definition serveLive :: "health \<Rightarrow> nat" where "serveLive h = 200"

section \<open>The history command (history.go)\<close>

record history_flags =
  hf_conversation :: string
  hf_from :: string
  hf_to :: string
  hf_extra :: bool
  hf_db_exists :: bool

record history_line =
  hl_ID :: string
  hl_Conversation :: string
  hl_Sender :: string
  hl_Recipient :: string
  hl_SentAt :: time
  hl_ReceivedAt :: time
  hl_Body :: string

definition history_line_of :: "history_row \<Rightarrow> history_line" where
  "history_line_of r = \<lparr>hl_ID = msg_ID (hr_message r), hl_Conversation = hr_conversation r, hl_Sender = msg_Sender (hr_message r),
     hl_Recipient = msg_Recipient (hr_message r), hl_SentAt = msg_SentAt (hr_message r),
     hl_ReceivedAt = msg_ReceivedAt (hr_message r), hl_Body = msg_Body (hr_message r)\<rparr>"

definition parse_bound :: "(string \<Rightarrow> time option) \<Rightarrow> string \<Rightarrow> time option option" where
  "parse_bound Parse s = (if s = '''' then Some None else map_option Some (Parse s))"

text \<open>
  After flag parsing: the exit code and the lines written to standard output, which
  accepts \<open>room\<close> lines before a write fails.
\<close>

definition runHistory ::
  "(string \<Rightarrow> time option) \<Rightarrow> (history_stmt \<Rightarrow> bool) \<Rightarrow> nat \<Rightarrow> time \<Rightarrow> history_flags \<Rightarrow> history_row list \<Rightarrow> int \<Rightarrow> nat \<times> history_line list" where
  "runHistory Parse fails room now fl rows next =
     (if hf_extra fl then (2, [])
      else case parse_bound Parse (hf_from fl) of
        None \<Rightarrow> (2, [])
      | Some f \<Rightarrow>
          (case parse_bound Parse (hf_to fl) of
             None \<Rightarrow> (2, [])
           | Some t \<Rightarrow>
               (if \<not> hf_db_exists fl then (1, [])
                else case history_Open fails now DefaultTTL DefaultMaxMessages rows next of
                  Inl e \<Rightarrow> (1, [])
                | Inr h \<Rightarrow>
                    (let conv = (if hf_conversation fl = '''' then ''''
                                 else if hf_conversation fl = BroadcastConversation then BroadcastConversation
                                 else ConversationKey (hf_conversation fl))
                     in case history_Query fails \<lparr>qo_Conversation = conv, qo_From = f, qo_To = t\<rparr> h of
                          Inl e \<Rightarrow> (1, [])
                        | Inr rs \<Rightarrow>
                            (if length rs \<le> room then (0, map history_line_of rs)
                             else (1, map history_line_of (take room rs)))))))"

section \<open>Properties\<close>

lemma put_device_ttl [simp]: "tr_ttl (put_device d t) = tr_ttl t"
  by (simp add: put_device_def)

lemma fold_keeps_ttl: "(\<And>x t. tr_ttl (f x t) = tr_ttl t) \<Longrightarrow> tr_ttl (fold f xs t) = tr_ttl t"
  by (induction xs arbitrary: t) simp_all

lemma loadPersisted_ttl: "tr_ttl (loadPersisted liv sts t) = tr_ttl t"
  by (simp add: loadPersisted_def fold_keeps_ttl Let_def split: prod.splits)

text \<open>
  Retention is bounded by construction: whatever the environment says, a
  coordinator that gets past its configuration, tracker and queue constructors has a
  positive liveness bound, a positive retention time and a positive inbox cap; a
  value that is not positive stops the start.
\<close>

theorem coordinator_retention_is_bounded:
  assumes "loadConfig P env = Ok cfg"
    and "NewTracker (cf_presenceTTL cfg) liv sts = Ok tr"
    and "newQueue fails now (cf_queueTTL cfg) (cf_queueMaxSize cfg) inbox cursors = Ok q"
  shows "0 < tr_ttl tr \<and> 0 < cf_queueTTL cfg \<and> 0 < cf_queueMaxSize cfg \<and> cf_stateDir cfg \<noteq> ''''
       \<and> (env ''WALKIE_PRESENCE_TTL'' = '''' \<longrightarrow> cf_presenceTTL cfg = defaultPresenceTTL)
       \<and> (env ''WALKIE_QUEUE_TTL'' = '''' \<longrightarrow> cf_queueTTL cfg = defaultQueueTTL)
       \<and> (env ''WALKIE_QUEUE_MAX_SIZE'' = '''' \<longrightarrow> cf_queueMaxSize cfg = defaultQueueMaxSize)"
proof -
  have "0 < cf_presenceTTL cfg" using assms(2) by (auto simp: NewTracker_def split: if_splits)
  moreover have "tr_ttl tr = cf_presenceTTL cfg" using assms(2) by (auto simp: NewTracker_def loadPersisted_ttl split: if_splits)
  moreover have "0 < cf_queueTTL cfg" "0 < cf_queueMaxSize cfg" using assms(3) by (auto simp: newQueue_def split: if_splits)
  ultimately show ?thesis using assms(1) by (auto simp: loadConfig_def Let_def split: if_splits option.splits)
qed

theorem coordinator_retention_is_bounded_witness:
  "\<exists>cfg tr q. loadConfig (\<lambda>_. None)
        (\<lambda>k. if k = ''WALKIE_STATE_DIR'' then ''/var/lib/walkie'' else if k = ''WALKIE_QUEUE_MAX_SIZE'' then ''16'' else '''') = Ok cfg
     \<and> NewTracker (cf_presenceTTL cfg) [(''mira'', 5)] [] = Ok tr
     \<and> newQueue (\<lambda>_. False) 10 (cf_queueTTL cfg) (cf_queueMaxSize cfg) [] (\<lambda>_. None) = Ok q
     \<and> cf_queueMaxSize cfg = 16 \<and> cf_storePath cfg = ''/var/lib/walkie/coordinator.db''
     \<and> 0 < tr_ttl tr"
proof -
  let ?env = "\<lambda>k. if k = ''WALKIE_STATE_DIR'' then ''/var/lib/walkie'' else if k = ''WALKIE_QUEUE_MAX_SIZE'' then ''16'' else ''''"
  let ?cfg = "\<lparr>cf_authKey = '''', cf_hostname = ''walkie-coordinator'', cf_stateDir = ''/var/lib/walkie'',
      cf_storePath = ''/var/lib/walkie/coordinator.db'', cf_controlPort = ''443'', cf_obsPort = ''9464'',
      cf_presenceTTL = defaultPresenceTTL, cf_queueTTL = defaultQueueTTL, cf_queueMaxSize = 16\<rparr>"
  have cfg: "loadConfig (\<lambda>_. None) ?env = Ok ?cfg" by code_simp
  obtain tr where tr: "NewTracker (cf_presenceTTL ?cfg) [(''mira'', 5)] [] = Ok tr"
    by (simp add: NewTracker_def defaultPresenceTTL_def second_def)
  obtain q where q: "newQueue (\<lambda>_. False) 10 (cf_queueTTL ?cfg) (cf_queueMaxSize ?cfg) [] (\<lambda>_. None) = Ok q"
    by (simp add: newQueue_def defaultQueueTTL_def second_def sweep_def)
  from coordinator_retention_is_bounded [OF cfg tr q] have "0 < tr_ttl tr" by blast
  then show ?thesis using cfg tr q by (intro exI [of _ ?cfg] exI [of _ tr] exI [of _ q]) simp
qed

text \<open>
  A time range hides what this device sent: a message composed here has no
  coordinator stamp, so its stored receive time is the zero instant, and the history
  command with a lower bound after it never prints the message, whatever the
  conversation and the other flags, although without the bound it does.
\<close>

theorem lower_bound_hides_sent_messages:
  assumes bound: "parse_bound Parse (hf_from fl) = Some (Some f)" "zero_time < f"
    and opened: "history_Open fails now DefaultTTL DefaultMaxMessages rows next = Ok h"
    and row: "r \<in> set (hs_rows h)" "msg_ReceivedAt (hr_message r) = zero_time"
    and ok: "\<not> fails HsQuery" "hf_db_exists fl" "length (hs_rows h) \<le> room"
  shows "history_line_of r \<notin> set (snd (runHistory Parse fails room now fl rows next))
       \<and> history_line_of r \<in> set (snd (runHistory Parse fails room now
            (fl\<lparr>hf_conversation := '''', hf_from := '''', hf_to := '''', hf_extra := False\<rparr>) rows next))"
proof
  have late: "f \<le> msg_ReceivedAt (hr_message r')" if "history_Query fails \<lparr>qo_Conversation = c, qo_From = Some f, qo_To = t\<rparr> h = Ok rs" "r' \<in> set rs" for c t rs r'
    using that by (auto simp: history_Query_def split: if_splits)
  have not_late: "history_line_of r' \<noteq> history_line_of r" if "f \<le> msg_ReceivedAt (hr_message r')" for r'
    using that bound(2) row(2) by (auto simp: history_line_of_def)
  show "history_line_of r \<notin> set (snd (runHistory Parse fails room now fl rows next))"
    using bound(1) opened
    by (auto simp: runHistory_def Let_def split: option.split sum.split dest!: in_set_takeD not_late [OF late, symmetric, THEN notE, rotated])
  show "history_line_of r \<in> set (snd (runHistory Parse fails room now
            (fl\<lparr>hf_conversation := '''', hf_from := '''', hf_to := '''', hf_extra := False\<rparr>) rows next))"
    using opened row(1) ok by (simp add: runHistory_def parse_bound_def Let_def history_Query_def)
qed

theorem lower_bound_hides_sent_messages_witness:
  "let m = \<lparr>msg_ID = ''m1'', msg_Sender = ''me'', msg_Recipient = ''mira'', msg_Body = ''hi'', msg_SentAt = 90, msg_ReceivedAt = zero_time\<rparr>;
       r = \<lparr>hr_seq = 1, hr_conversation = ''dm:mira'', hr_message = m, hr_stored_at = 90\<rparr>;
       fl = \<lparr>hf_conversation = ''mira'', hf_from = ''f'', hf_to = '''', hf_extra = False, hf_db_exists = True\<rparr>
   in history_line_of r \<notin> set (snd (runHistory (\<lambda>_. Some 50) (\<lambda>_. False) 10 100 fl [r] 2))
    \<and> history_line_of r \<in> set (snd (runHistory (\<lambda>_. Some 50) (\<lambda>_. False) 10 100
         (fl\<lparr>hf_conversation := '''', hf_from := '''', hf_to := '''', hf_extra := False\<rparr>) [r] 2))"
  unfolding Let_def
  by (rule lower_bound_hides_sent_messages [where f = 50 and h = "\<lparr>hs_rows = [\<lparr>hr_seq = 1, hr_conversation = ''dm:mira'',
       hr_message = \<lparr>msg_ID = ''m1'', msg_Sender = ''me'', msg_Recipient = ''mira'', msg_Body = ''hi'', msg_SentAt = 90, msg_ReceivedAt = zero_time\<rparr>,
       hr_stored_at = 90\<rparr>], hs_next = 2, hs_ttl = DefaultTTL, hs_maxRows = DefaultMaxMessages\<rparr>"])
    (simp_all add: parse_bound_def zero_time_def history_Open_def enforceRetention_def DefaultTTL_def DefaultMaxMessages_def second_def)

end
