(* ===== verification/Codec.thy ===== *)
theory Codec
  imports Prelude
begin

text \<open>
  The interface of a textual or binary form: what was encoded decodes to itself, for the values the form
  can carry.  Tables store encoded columns, so the client lemmas are about lists of
  them: injectivity, reading a whole column back, and, where the form preserves the order,
  selecting by a bound.
\<close>

fun decode_all :: "('b \<Rightarrow> ('e, 'a) result) \<Rightarrow> 'b list \<Rightarrow> ('e, 'a list) result" where
  "decode_all dec [] = Ok []"
| "decode_all dec (b # bs) =
     (case dec b of
        Inl e \<Rightarrow> Err e
      | Inr a \<Rightarrow> (case decode_all dec bs of Inl e \<Rightarrow> Err e | Inr as \<Rightarrow> Ok (a # as)))"

lemma decode_all_unreadable: "b \<in> set bs \<Longrightarrow> \<not> is_ok (dec b) \<Longrightarrow> \<not> is_ok (decode_all dec bs)"
  by (induction bs) (auto simp: is_ok_def split: sum.splits)

locale codec =
  fixes encode :: "'a \<Rightarrow> 'b" and decode :: "'b \<Rightarrow> ('e, 'a) result" and valid :: "'a \<Rightarrow> bool"
  assumes decode_encode: "valid x \<Longrightarrow> decode (encode x) = Ok x"
begin

lemma encode_inj: "valid x \<Longrightarrow> valid y \<Longrightarrow> encode x = encode y \<longleftrightarrow> x = y"
  by (metis decode_encode sum.inject(2))

lemma decode_column: "\<forall>x \<in> set xs. valid x \<Longrightarrow> decode_all decode (map encode xs) = Ok xs"
  by (induction xs) (simp_all add: decode_encode)

end

locale ordered_codec = codec encode decode valid
  for encode :: "'a :: linorder \<Rightarrow> 'b :: linorder" and decode :: "'b \<Rightarrow> ('e, 'a) result" and valid :: "'a \<Rightarrow> bool" +
  assumes encode_less: "valid x \<Longrightarrow> valid y \<Longrightarrow> encode x < encode y \<longleftrightarrow> x < y"
begin

lemma encode_le: "valid x \<Longrightarrow> valid y \<Longrightarrow> encode x \<le> encode y \<longleftrightarrow> x \<le> y"
  using encode_less [of y x] by (simp add: not_less [symmetric])

lemma select_after:
  "\<forall>r \<in> set rs. valid (f r) \<Longrightarrow> valid c \<Longrightarrow> filter (\<lambda>r. \<not> encode (f r) \<le> encode c) rs = filter (\<lambda>r. \<not> f r \<le> c) rs"
  by (auto intro!: filter_cong simp: encode_le)

end

end
