(* ===== verification/Netaddr.thy ===== *)
theory Netaddr
  imports Ops Codec
begin

text \<open>
  Network addresses as text: what the coordinator calls of the \<^verbatim>\<open>net\<close> and \<^verbatim>\<open>net/netip\<close>
  packages when it reads a peer's address (\<^verbatim>\<open>remoteAddrOf\<close> of
  \<^verbatim>\<open>src/internal/coordinator/server.go\<close>) and when a resolver renders it again.  Splitting and
  joining host and port, the parser of IPv4 and IPv6 literals and the printer of an address
  are modelled; the lemmas show that a printed address parses to itself.
\<close>

section \<open>Host and port (net)\<close>

fun IndexByte :: "char \<Rightarrow> string \<Rightarrow> nat option" where
  "IndexByte c [] = None"
| "IndexByte c (x # xs) = (if x = c then Some 0 else map_option Suc (IndexByte c xs))"

definition LastIndexByte :: "char \<Rightarrow> string \<Rightarrow> nat option" where
  "LastIndexByte c s = map_option (\<lambda>k. length s - 1 - k) (IndexByte c (rev s))"

definition missingPort :: string where "missingPort = ''missing port in address''"
definition tooManyColons :: string where "tooManyColons = ''too many colons in address''"

definition split_brackets :: "string \<Rightarrow> string \<Rightarrow> nat \<Rightarrow> nat \<Rightarrow> nat \<Rightarrow> (string, string \<times> string) result" where
  "split_brackets hostport host i j k =
     (if IndexByte (CHR ''['') (drop j hostport) \<noteq> None then Err ''unexpected '[' in address''
      else if IndexByte (CHR '']'') (drop k hostport) \<noteq> None then Err ''unexpected ']' in address''
      else Ok (host, drop (i + 1) hostport))"

definition SplitHostPort :: "string \<Rightarrow> (string, string \<times> string) result" where
  "SplitHostPort hostport =
     (case LastIndexByte (CHR '':'') hostport of
        None \<Rightarrow> Err missingPort
      | Some i \<Rightarrow>
          if hd hostport = CHR ''['' then
            (case IndexByte (CHR '']'') hostport of
               None \<Rightarrow> Err ''missing ']' in address''
             | Some e \<Rightarrow>
                 if e + 1 = length hostport then Err missingPort
                 else if e + 1 = i then split_brackets hostport (drop 1 (take e hostport)) i 1 (e + 1)
                 else if hostport ! (e + 1) = CHR '':'' then Err tooManyColons
                 else Err missingPort)
          else if IndexByte (CHR '':'') (take i hostport) \<noteq> None then Err tooManyColons
          else split_brackets hostport (take i hostport) i 0 0)"

definition JoinHostPort :: "string \<Rightarrow> string \<Rightarrow> string" where
  "JoinHostPort host port =
     (if IndexByte (CHR '':'') host \<noteq> None then ''['' @ host @ '']:'' @ port else host @ '':'' @ port)"

section \<open>Address literals (net/netip)\<close>

text \<open>
  An address is its eight groups of sixteen bits; an IPv4 address is the one mapped under
  \<^verbatim>\<open>::ffff:0:0\<close>, which is what \<^verbatim>\<open>net.ParseIP\<close> returns for it.  A dot is refused before any
  digit of its field, which is what the code's test of the previous character says.
\<close>

fun parseIPv4Fields :: "nat \<Rightarrow> nat \<Rightarrow> nat list \<Rightarrow> string \<Rightarrow> nat list option" where
  "parseIPv4Fields v digLen fs [] = (if length fs < 3 then None else Some (fs @ [v]))"
| "parseIPv4Fields v digLen fs (c # cs) =
     (case digit_value c of
        Some d \<Rightarrow>
          if digLen = 1 \<and> v = 0 then None
          else if 10 * v + nat d > 255 then None
          else parseIPv4Fields (10 * v + nat d) (digLen + 1) fs cs
      | None \<Rightarrow>
          if c \<noteq> CHR ''.'' then None
          else if digLen = 0 \<or> cs = [] then None
          else if length fs = 3 then None
          else parseIPv4Fields 0 0 (fs @ [v]) cs)"

fun pair_groups :: "nat list \<Rightarrow> nat list" where
  "pair_groups (a # b # fs) = (256 * a + b) # pair_groups fs"
| "pair_groups _ = []"

definition v4_prefix :: "nat list" where "v4_prefix = [0, 0, 0, 0, 0, 65535]"

definition parseIPv4 :: "string \<Rightarrow> nat list option" where
  "parseIPv4 s = map_option (\<lambda>fs. v4_prefix @ pair_groups fs) (parseIPv4Fields 0 0 [] s)"

definition hex_digit :: "char \<Rightarrow> nat option" where
  "hex_digit c = (let n = of_char c :: nat in
     if 48 \<le> n \<and> n \<le> 57 then Some (n - 48)
     else if 97 \<le> n \<and> n \<le> 102 then Some (n - 87)
     else if 65 \<le> n \<and> n \<le> 70 then Some (n - 55)
     else None)"

definition is_hex :: "char \<Rightarrow> bool" where "is_hex c \<longleftrightarrow> hex_digit c \<noteq> None"

definition hex_number :: "string \<Rightarrow> nat" where
  "hex_number ds = foldl (\<lambda>acc c. 16 * acc + the (hex_digit c)) 0 ds"

text \<open>
  The loop of \<^verbatim>\<open>parseIPv6\<close>: the unread text, the groups so far and where an ellipsis stood.
  It stops when sixteen bytes are filled or the text ends.  A group of at most four digits
  cannot exceed sixteen bits, so the code's test for that never fires.
\<close>

lemma dropWhile_tail: "dropWhile P s = c # r \<Longrightarrow> length r < length s"
  by (metis Suc_le_eq length_Cons length_dropWhile_le)

function parse6_loop :: "string \<Rightarrow> nat list \<Rightarrow> nat option \<Rightarrow> (string \<times> nat list \<times> nat option) option" where
  "parse6_loop s acc ell =
     (if 8 \<le> length acc then Some (s, acc, ell)
      else (let d = takeWhile is_hex s; r = dropWhile is_hex s; acc' = acc @ [hex_number d] in
        if 4 < length d then None
        else if d = [] then None
        else case r of
          [] \<Rightarrow> Some ([], acc', ell)
        | c # r1 \<Rightarrow>
            if c = CHR ''.'' then
              (if ell = None \<and> length acc \<noteq> 6 then None
               else if 8 < length acc + 2 then None
               else map_option (\<lambda>fs. ([], acc @ pair_groups fs, ell)) (parseIPv4Fields 0 0 [] s))
            else if c \<noteq> CHR '':'' then None
            else case r1 of
              [] \<Rightarrow> None
            | c1 # r2 \<Rightarrow>
                if c1 \<noteq> CHR '':'' then parse6_loop r1 acc' ell
                else if ell \<noteq> None then None
                else if r2 = [] then Some ([], acc', Some (length acc'))
                else parse6_loop r2 acc' (Some (length acc'))))"
  by pat_completeness auto
termination
proof (relation "measure (\<lambda>(s, _, _). length s)", goal_cases)
  case (2 s acc ell d r acc' c r1 c1 r2)
  then show ?case using dropWhile_tail [of is_hex s c r1] by simp
next
  case (3 s acc ell d r acc' c r1 c1 r2)
  then show ?case using dropWhile_tail [of is_hex s c r1] by simp
qed simp

declare parse6_loop.simps [simp del]

definition parse6_groups :: "string \<Rightarrow> nat list option" where
  "parse6_groups s0 =
     (let (ell0, s) = (if take 2 s0 = ''::'' then (Some 0, drop 2 s0) else (None, s0)) in
      if ell0 \<noteq> None \<and> s = [] then Some (replicate 8 0)
      else case parse6_loop s [] ell0 of
        None \<Rightarrow> None
      | Some (rest, acc, ell) \<Rightarrow>
          if rest \<noteq> [] then None
          else if length acc < 8
               then map_option (\<lambda>e. take e acc @ replicate (8 - length acc) 0 @ drop e acc) ell
          else if ell \<noteq> None then None
          else Some acc)"

definition parseIPv6 :: "string \<Rightarrow> (nat list \<times> string) option" where
  "parseIPv6 s =
     (case IndexByte (CHR ''%'') s of
        None \<Rightarrow> map_option (\<lambda>g. (g, '''')) (parse6_groups s)
      | Some i \<Rightarrow>
          (let zone = drop (i + 1) s in
           if zone = '''' then None else map_option (\<lambda>g. (g, zone)) (parse6_groups (take i s))))"

fun parseAddr_from :: "string \<Rightarrow> string \<Rightarrow> (nat list \<times> string) option" where
  "parseAddr_from s [] = None"
| "parseAddr_from s (c # cs) =
     (if c = CHR ''.'' then map_option (\<lambda>g. (g, '''')) (parseIPv4 s)
      else if c = CHR '':'' then parseIPv6 s
      else if c = CHR ''%'' then None
      else parseAddr_from s cs)"

definition ParseAddr :: "string \<Rightarrow> (nat list \<times> string) option" where
  "ParseAddr s = parseAddr_from s s"

text \<open>\<^verbatim>\<open>net.ParseIP\<close>: an address with a zone is not an IP.\<close>

definition ParseIP :: "string \<Rightarrow> nat list option" where
  "ParseIP s = (case ParseAddr s of None \<Rightarrow> None | Some (g, zone) \<Rightarrow> if zone = '''' then Some g else None)"

section \<open>Printing an address (net)\<close>

definition hex_char :: "nat \<Rightarrow> char" where "hex_char n = (if n < 10 then char_of (48 + n) else char_of (87 + n))"

fun appendHex :: "nat \<Rightarrow> string" where
  "appendHex n = (if n < 16 then [hex_char n] else appendHex (n div 16) @ [hex_char (n mod 16)])"

declare appendHex.simps [simp del]

definition zero_len :: "nat list \<Rightarrow> nat \<Rightarrow> nat" where
  "zero_len gs i = length (takeWhile (\<lambda>g. g = 0) (drop i gs))"

text \<open>The longest run of at least two zero groups, the first one among equals; 255 when there
  is none.\<close>

definition zero_pick :: "nat list \<Rightarrow> nat \<Rightarrow> nat \<times> nat \<Rightarrow> nat \<times> nat" where
  "zero_pick gs i best =
     (let l = zero_len gs i in if 2 \<le> l \<and> snd best - fst best < l then (i, i + l) else best)"

definition zero_run :: "nat list \<Rightarrow> nat \<times> nat" where
  "zero_run gs = fold (zero_pick gs) [0..<8] (255, 255)"

fun colons :: "nat list \<Rightarrow> string" where
  "colons [] = ''''"
| "colons [g] = appendHex g"
| "colons (g # gs) = appendHex g @ '':'' @ colons gs"

definition string6 :: "nat list \<Rightarrow> string" where
  "string6 gs =
     (let (zeroStart, zeroEnd) = zero_run gs in
      if zeroStart < 8 then colons (take zeroStart gs) @ ''::'' @ colons (drop zeroEnd gs) else colons gs)"

definition string4 :: "nat \<Rightarrow> nat \<Rightarrow> string" where
  "string4 g h = decimal (g div 256) @ ''.'' @ decimal (g mod 256) @ ''.'' @ decimal (h div 256) @ ''.'' @ decimal (h mod 256)"

definition IP_String :: "nat list \<Rightarrow> string" where
  "IP_String gs = (if take 6 gs = v4_prefix then string4 (gs ! 6) (gs ! 7) else string6 gs)"

record tcp_addr =
  ta_IP :: "nat list"
  ta_Port :: int
  ta_Zone :: string

definition Itoa :: "int \<Rightarrow> string" where
  "Itoa n = (if n < 0 then ''-'' else '''') @ decimal (nat \<bar>n\<bar>)"

definition TCPAddr_String :: "tcp_addr \<Rightarrow> string" where
  "TCPAddr_String a =
     JoinHostPort (IP_String (ta_IP a) @ (if ta_Zone a = '''' then '''' else ''%'' @ ta_Zone a)) (Itoa (ta_Port a))"

section \<open>Splitting what was joined\<close>

lemma IndexByte_None [simp]: "IndexByte c s = None \<longleftrightarrow> c \<notin> set s"
  by (induction s) auto

lemma IndexByte_first: "c \<notin> set a \<Longrightarrow> IndexByte c (a @ c # b) = Some (length a)"
  by (induction a) auto

lemma IndexByte_append: "c \<notin> set b \<Longrightarrow> IndexByte c t = Some k \<Longrightarrow> IndexByte c (b @ t) = Some (length b + k)"
  by (induction b) auto

lemma LastIndexByte_last: "c \<notin> set b \<Longrightarrow> LastIndexByte c (a @ c # b) = Some (length a)"
  using IndexByte_first [of c "rev b" "rev a"] by (simp add: LastIndexByte_def)

definition plain :: "string \<Rightarrow> bool" where
  "plain s \<longleftrightarrow> CHR ''['' \<notin> set s \<and> CHR '']'' \<notin> set s"

lemma plain_simps [simp]:
  "plain []" "plain (c # s) \<longleftrightarrow> c \<noteq> CHR ''['' \<and> c \<noteq> CHR '']'' \<and> plain s" "plain (s @ t) \<longleftrightarrow> plain s \<and> plain t"
  by (auto simp: plain_def)

lemma SplitHostPort_JoinHostPort:
  assumes "plain host" "plain port" "CHR '':'' \<notin> set port"
  shows "SplitHostPort (JoinHostPort host port) = Ok (host, port)"
proof (cases "CHR '':'' \<in> set host")
  case True
  let ?s = "CHR ''['' # host @ CHR '']'' # CHR '':'' # port"
  have l: "LastIndexByte (CHR '':'') ?s = Some (length host + 2)"
    using LastIndexByte_last [of "CHR '':''" port "CHR ''['' # host @ [CHR '']'']"] assms(3) by simp
  have e: "IndexByte (CHR '']'') (host @ CHR '']'' # CHR '':'' # port) = Some (length host)"
    using IndexByte_first [of "CHR '']''" host "CHR '':'' # port"] assms(1) by (simp add: plain_def)
  show ?thesis using True assms
    by (simp add: JoinHostPort_def SplitHostPort_def l e split_brackets_def plain_def)
next
  case False
  have l: "LastIndexByte (CHR '':'') (host @ CHR '':'' # port) = Some (length host)"
    using LastIndexByte_last [of "CHR '':''" port host] assms(3) by simp
  have "hd (host @ CHR '':'' # port) \<noteq> CHR ''[''" using assms(1) by (cases host) auto
  then show ?thesis using False assms
    by (simp add: JoinHostPort_def SplitHostPort_def l split_brackets_def plain_def)
qed

section \<open>Digits\<close>

lemma digit_value_digit: "k < 10 \<Longrightarrow> digit_value (digit_char k) = Some (int k)"
proof -
  assume k: "k < 10"
  have "(of_char (digit_char k) :: int) = int (of_char (digit_char k))" by (rule of_nat_of_char [symmetric])
  also have "\<dots> = 48 + int k" using k by (simp add: digit_char_def)
  finally show ?thesis using k by (simp add: digit_value_def)
qed

lemma digits_value_snoc:
  "digits_value acc (ds @ [c]) = (case digits_value acc ds of None \<Rightarrow> None | Some n \<Rightarrow> map_option (\<lambda>d. 10 * n + d) (digit_value c))"
  by (induction ds arbitrary: acc) (auto split: option.splits)

lemma digits_value_decimal: "digits_value 0 (decimal n) = Some (int n)"
proof (induction n rule: decimal.induct)
  case (1 n)
  have "10 * int (n div 10) + int (n mod 10) = int n" by presburger
  then show ?case using 1
    by (cases "n < 10") (simp_all add: decimal.simps [of n] digits_value_snoc digit_value_digit)
qed

lemma decimal_chars: "c \<in> set (decimal n) \<Longrightarrow> \<exists>k < 10. c = digit_char k"
proof (induction n rule: decimal.induct)
  case (1 n)
  show ?case
  proof (cases "n < 10")
    case True
    then show ?thesis using 1 by (auto simp: decimal.simps [of n])
  next
    case False
    then have "c \<in> set (decimal (n div 10)) \<or> c = digit_char (n mod 10)" using 1(2) by (auto simp: decimal.simps [of n])
    moreover have "n mod 10 < 10" by simp
    ultimately show ?thesis using 1(1) False by blast
  qed
qed

lemma decimal_nonempty [simp]: "decimal n \<noteq> []"
  by (simp add: decimal.simps [of n])

lemma digit_char_not:
  assumes "k < 10" "of_char c < (48 :: nat) \<or> 57 < (of_char c :: nat)" shows "digit_char k \<noteq> c"
proof
  assume "digit_char k = c"
  then have "of_char (digit_char k) = (of_char c :: nat)" by simp
  then show False using assms by (simp add: digit_char_def)
qed

lemma decimal_lacks: "of_char c < (48 :: nat) \<or> 57 < (of_char c :: nat) \<Longrightarrow> c \<notin> set (decimal n)"
  using decimal_chars digit_char_not by blast

lemma decimal_safe [simp]:
  "CHR '':'' \<notin> set (decimal n)" "CHR ''%'' \<notin> set (decimal n)" "CHR ''.'' \<notin> set (decimal n)"
  "CHR ''-'' \<notin> set (decimal n)" "CHR ''+'' \<notin> set (decimal n)" "plain (decimal n)"
  by (auto intro!: decimal_lacks simp: plain_def)

lemma Atoi_decimal: "int n < 2 ^ 63 \<Longrightarrow> Atoi (decimal n) = Some (int n)"
proof -
  assume n: "int n < 2 ^ 63"
  obtain c t where d: "decimal n = c # t" by (meson decimal_nonempty neq_Nil_conv)
  have "c \<noteq> CHR ''-''" "c \<noteq> CHR ''+''" using decimal_safe(4,5) [of n] d by auto
  then have "(case decimal n of CHR ''-'' # t \<Rightarrow> (True, t) | CHR ''+'' # t \<Rightarrow> (False, t) | _ \<Rightarrow> (False, decimal n)) = (False, decimal n)"
    unfolding d by (auto split: list.splits char.splits bool.splits)
  then show ?thesis using n by (simp add: Atoi_def digits_value_decimal)
qed

section \<open>IPv4\<close>

lemma decimal_byte:
  assumes "n < 256"
  shows "n < 10 \<and> decimal n = [digit_char n]
    \<or> 10 \<le> n \<and> n < 100 \<and> decimal n = [digit_char (n div 10), digit_char (n mod 10)]
    \<or> 10 \<le> n div 10 \<and> decimal n = [digit_char (n div 10 div 10), digit_char (n div 10 mod 10), digit_char (n mod 10)]"
proof -
  have one: "k < 10 \<Longrightarrow> decimal k = [digit_char k]" for k by (simp add: decimal.simps [of k])
  have step: "10 \<le> k \<Longrightarrow> decimal k = decimal (k div 10) @ [digit_char (k mod 10)]" for k by (simp add: decimal.simps [of k])
  consider "n < 10" | "10 \<le> n" "n < 100" | "10 \<le> n" "10 \<le> n div 10" by linarith
  then show ?thesis
  proof cases
    case 2
    then have "n div 10 < 10" by simp
    then show ?thesis using 2 by (simp add: step one)
  next
    case 3
    have "n div 10 div 10 < 10" using assms by simp
    then show ?thesis using 3 by (simp add: step one del: div_div_eq_right)
  qed (simp add: one)
qed

lemma parseIPv4Fields_digit:
  "k < 10 \<Longrightarrow> parseIPv4Fields v l fs (digit_char k # cs) =
     (if l = 1 \<and> v = 0 then None else if 10 * v + k > 255 then None else parseIPv4Fields (10 * v + k) (l + 1) fs cs)"
  by (simp add: digit_value_digit)

lemma parseIPv4Fields_decimal:
  assumes "n < 256"
  shows "parseIPv4Fields 0 0 fs (decimal n @ cs) = parseIPv4Fields n (length (decimal n)) fs cs"
proof -
  let ?q = "n div 10" and ?h = "n div 10 div 10"
  have m: "10 * ?q + n mod 10 = n" "10 * ?h + ?q mod 10 = ?q" "n mod 10 < 10" "?q mod 10 < 10" by simp_all
  consider "n < 10" "decimal n = [digit_char n]"
    | "10 \<le> n" "n < 100" "decimal n = [digit_char ?q, digit_char (n mod 10)]"
    | "10 \<le> ?q" "decimal n = [digit_char ?h, digit_char (?q mod 10), digit_char (n mod 10)]"
    using decimal_byte [OF assms] by blast
  then show ?thesis
  proof cases
    case 1
    then show ?thesis by (simp add: parseIPv4Fields_digit del: parseIPv4Fields.simps)
  next
    case 2
    have "?q < 10" "0 < ?q" using 2 by simp_all
    then show ?thesis unfolding 2(3) using m assms
      by (simp add: parseIPv4Fields_digit del: parseIPv4Fields.simps)
  next
    case 3
    have h: "?h < 10" "0 < ?h" "\<not> 255 < ?q" "\<not> 255 < ?h" using 3 assms by linarith+
    then have q: "(255 < ?q) = False" "(255 < ?h) = False" by blast+
    show ?thesis unfolding 3(2) using m assms h
      by (simp add: parseIPv4Fields_digit q del: parseIPv4Fields.simps)
  qed
qed

lemma digit_value_dot [simp]: "digit_value (CHR ''.'') = None"
  by (simp add: digit_value_def)

lemma parseIPv4_string4:
  assumes "g < 65536" "h < 65536" shows "parseIPv4 (string4 g h) = Some (v4_prefix @ [g, h])"
proof -
  have b: "g div 256 < 256" "h div 256 < 256" "g mod 256 < 256" "h mod 256 < 256" using assms by auto
  have "parseIPv4Fields 0 0 [] (string4 g h) = Some [g div 256, g mod 256, h div 256, h mod 256]"
    using b parseIPv4Fields_decimal [of "h mod 256" _ "[]"]
    by (simp add: string4_def parseIPv4Fields_decimal)
  then show ?thesis by (simp add: parseIPv4_def)
qed

lemma parseAddr_from_skip:
  "\<forall>c \<in> set a. c \<notin> {CHR ''.'', CHR '':'', CHR ''%''} \<Longrightarrow> parseAddr_from s (a @ b) = parseAddr_from s b"
  by (induction a) auto

lemma ParseIP_string4:
  assumes "g < 65536" "h < 65536" shows "ParseIP (string4 g h) = Some (v4_prefix @ [g, h])"
proof -
  have "\<forall>c \<in> set (decimal n). c \<notin> {CHR ''.'', CHR '':'', CHR ''%''}" for n using decimal_safe [of n] by auto
  then have "ParseAddr (string4 g h) = map_option (\<lambda>g. (g, '''')) (parseIPv4 (string4 g h))"
    by (simp add: ParseAddr_def string4_def parseAddr_from_skip)
  then show ?thesis using parseIPv4_string4 [OF assms] by (simp add: ParseIP_def)
qed

section \<open>IPv6\<close>

lemma hex_digit_hex_char: "n < 16 \<Longrightarrow> hex_digit (hex_char n) = Some n"
  by (auto simp: hex_digit_def hex_char_def Let_def)

lemma hex_number_snoc: "hex_number (ds @ [c]) = 16 * hex_number ds + the (hex_digit c)"
  by (simp add: hex_number_def)

lemma appendHex_facts: "list_all is_hex (appendHex n) \<and> appendHex n \<noteq> [] \<and> hex_number (appendHex n) = n"
proof (induction n rule: appendHex.induct)
  case (1 n)
  then show ?case
    by (cases "n < 16") (simp_all add: appendHex.simps [of n] hex_number_snoc hex_digit_hex_char is_hex_def hex_number_def)
qed

lemma appendHex_length: "n < 16 ^ Suc k \<Longrightarrow> length (appendHex n) \<le> Suc k"
proof (induction k arbitrary: n)
  case (Suc k)
  then have "n div 16 < 16 ^ Suc k" by auto
  then show ?case using Suc.IH [of "n div 16"] by (simp add: appendHex.simps [of n])
next
  case 0
  then show ?case by (simp add: appendHex.simps [of n])
qed

lemma is_hex_not [simp]:
  "\<not> is_hex (CHR '':'')" "\<not> is_hex (CHR ''.'')" "\<not> is_hex (CHR ''%'')" "\<not> is_hex (CHR ''['')" "\<not> is_hex (CHR '']'')"
  by (simp_all add: is_hex_def hex_digit_def Let_def)

lemma takeWhile_hex:
  assumes "r = [] \<or> \<not> is_hex (hd r)"
  shows "takeWhile is_hex (appendHex n @ r) = appendHex n" "dropWhile is_hex (appendHex n @ r) = r"
proof -
  have "list_all is_hex (appendHex n)" using appendHex_facts by blast
  moreover have "list_all is_hex a \<Longrightarrow> takeWhile is_hex (a @ r) = a \<and> dropWhile is_hex (a @ r) = r" for a
    using assms by (induction a) (cases r; auto)+
  ultimately show "takeWhile is_hex (appendHex n @ r) = appendHex n" "dropWhile is_hex (appendHex n @ r) = r" by auto
qed

lemma parse6_loop_group:
  assumes "length acc < 8" "g < 65536" "r = [] \<or> hd r = CHR '':''"
  shows "parse6_loop (appendHex g @ r) acc ell =
    (case r of
       [] \<Rightarrow> Some ([], acc @ [g], ell)
     | c # [] \<Rightarrow> None
     | c # c1 # r2 \<Rightarrow>
         if c1 \<noteq> CHR '':'' then parse6_loop (c1 # r2) (acc @ [g]) ell
         else if ell \<noteq> None then None
         else if r2 = [] then Some ([], acc @ [g], Some (Suc (length acc)))
         else parse6_loop r2 (acc @ [g]) (Some (Suc (length acc))))"
proof -
  have r: "r = [] \<or> \<not> is_hex (hd r)" using assms(3) by auto
  have l: "length (appendHex g) \<le> 4" using appendHex_length [of g 3] assms(2) by simp
  have h: "appendHex g \<noteq> []" "hex_number (appendHex g) = g" using appendHex_facts by auto
  show ?thesis
    by (subst parse6_loop.simps) (use assms l h in \<open>auto simp: takeWhile_hex [OF r] Let_def split: list.splits\<close>)
qed

lemma colons_head: "gs \<noteq> [] \<Longrightarrow> \<exists>c t. colons gs = c # t \<and> c \<noteq> CHR '':''"
proof -
  assume "gs \<noteq> []"
  then obtain g r where "colons gs = appendHex g @ r" by (cases gs rule: colons.cases) auto
  moreover obtain c t where "appendHex g = c # t" "is_hex c"
    using appendHex_facts [of g] by (cases "appendHex g") auto
  ultimately show ?thesis using is_hex_not(1) by auto
qed

lemma parse6_loop_colons:
  assumes "gs \<noteq> []" "\<forall>g \<in> set gs. g < 65536" "length acc + length gs \<le> 8"
  shows "parse6_loop (colons gs) acc ell = Some ([], acc @ gs, ell)"
  using assms
proof (induction gs arbitrary: acc rule: colons.induct)
  case (2 g)
  then show ?case using parse6_loop_group [of acc g "[]"] by simp
next
  case (3 g g' gs)
  obtain c t where c: "colons (g' # gs) = c # t" "c \<noteq> CHR '':''" using colons_head [of "g' # gs"] by auto
  have "parse6_loop (c # t) (acc @ [g]) ell = Some ([], acc @ g # g' # gs, ell)"
    using 3 unfolding c(1) [symmetric] by simp
  then show ?case using 3 c parse6_loop_group [of acc g "CHR '':'' # c # t"] by simp
qed simp

lemma parse6_loop_ellipsis:
  assumes "gs \<noteq> []" "\<forall>g \<in> set gs. g < 65536" "length acc + length gs \<le> 8"
  shows "parse6_loop (colons gs @ CHR '':'' # CHR '':'' # t) acc None =
    (if t = [] then Some ([], acc @ gs, Some (length acc + length gs))
     else parse6_loop t (acc @ gs) (Some (length acc + length gs)))"
  using assms
proof (induction gs arbitrary: acc rule: colons.induct)
  case (2 g)
  then show ?case using parse6_loop_group [of acc g "CHR '':'' # CHR '':'' # t"] by simp
next
  case (3 g g' gs)
  obtain c u where c: "colons (g' # gs) = c # u" "c \<noteq> CHR '':''" using colons_head [of "g' # gs"] by auto
  let ?u = "c # u @ CHR '':'' # CHR '':'' # t"
  have "parse6_loop ?u (acc @ [g]) None =
    (if t = [] then Some ([], acc @ g # g' # gs, Some (length acc + length (g # g' # gs)))
     else parse6_loop t (acc @ g # g' # gs) (Some (length acc + length (g # g' # gs))))"
    using 3 unfolding c(1) by simp
  then show ?case using 3 c parse6_loop_group [of acc g "CHR '':'' # ?u"] by simp
qed simp

section \<open>The printed address parses to itself\<close>

definition valid_ip :: "nat list \<Rightarrow> bool" where
  "valid_ip gs \<longleftrightarrow> length gs = 8 \<and> (\<forall>g \<in> set gs. g < 65536)"

lemma zero_run_cases:
  "zero_run gs = (255, 255) \<or> (\<exists>i < 8. \<exists>l \<ge> 2. zero_run gs = (i, i + l) \<and> l = zero_len gs i)"
proof -
  have "set is \<subseteq> {..<8} \<Longrightarrow> P best \<Longrightarrow> (\<And>i b. i < 8 \<Longrightarrow> P b \<Longrightarrow> P (zero_pick gs i b)) \<Longrightarrow> P (fold (zero_pick gs) is best)"
    for "is" best and P :: "nat \<times> nat \<Rightarrow> bool" by (induction "is" arbitrary: best) auto
  from this [of "[0..<8]" "\<lambda>b. b = (255, 255) \<or> (\<exists>i < 8. \<exists>l \<ge> 2. b = (i, i + l) \<and> l = zero_len gs i)"]
  show ?thesis unfolding zero_run_def by (simp add: zero_pick_def Let_def lessThan_atLeast0)
qed

lemma zero_len_split:
  assumes "l = zero_len gs i" shows "gs = take i gs @ replicate l 0 @ drop (i + l) gs"
proof -
  let ?t = "takeWhile (\<lambda>g. g = 0) (drop i gs)"
  have "?t = replicate l 0"
    using assms unfolding zero_len_def by (metis (full_types) replicate_length_same set_takeWhileD)
  moreover have "drop i gs = ?t @ drop l (drop i gs)"
    using assms unfolding zero_len_def by (metis dropWhile_eq_drop takeWhile_dropWhile_id)
  ultimately show ?thesis by (metis append_take_drop_id drop_drop add.commute)
qed

lemma zero_run_split:
  assumes "valid_ip gs" "zero_run gs = (a, b)" "a < 8"
  shows "gs = take a gs @ replicate (b - a) 0 @ drop b gs" "a + 2 \<le> b" "b \<le> 8"
proof -
  obtain l where l: "2 \<le> l" "b = a + l" "l = zero_len gs a" using zero_run_cases [of gs] assms by auto
  show "gs = take a gs @ replicate (b - a) 0 @ drop b gs" "a + 2 \<le> b" using zero_len_split [OF l(3)] l by auto
  have "l \<le> 8 - a" using l(3) length_takeWhile_le [of "\<lambda>g. g = 0" "drop a gs"] assms(1)
    by (simp add: zero_len_def valid_ip_def)
  then show "b \<le> 8" using l assms(3) by simp
qed

lemma colons_chars: "c \<in> set (colons gs) \<Longrightarrow> is_hex c \<or> c = CHR '':''"
proof (induction gs rule: colons.induct)
  case (2 g)
  then show ?case using appendHex_facts [of g] by (auto simp: list_all_iff)
next
  case (3 g g' gs)
  then show ?case using appendHex_facts [of g] by (auto simp: list_all_iff)
qed simp

lemma string6_chars: "c \<in> set (string6 gs) \<Longrightarrow> is_hex c \<or> c = CHR '':''"
  by (auto simp: string6_def split: prod.splits if_splits dest!: colons_chars)

lemma string6_lacks:
  "CHR ''%'' \<notin> set (string6 gs)" "CHR ''.'' \<notin> set (string6 gs)" "plain (string6 gs)"
  using string6_chars is_hex_not unfolding plain_def by force+

lemma colons_has_colon: "2 \<le> length gs \<Longrightarrow> CHR '':'' \<in> set (colons gs)"
  by (cases gs rule: colons.cases) auto

lemma string6_has_colon: "valid_ip gs \<Longrightarrow> CHR '':'' \<in> set (string6 gs)"
  using colons_has_colon [of gs] by (cases "zero_run gs") (auto simp: string6_def valid_ip_def)

lemma take2_colons: "gs \<noteq> [] \<Longrightarrow> take 2 (colons gs @ t) \<noteq> ''::''"
  using colons_head [of gs] by (auto simp: numeral_2_eq_2)

lemma parse6_groups_string6:
  assumes v: "valid_ip gs" shows "parse6_groups (string6 gs) = Some gs"
proof -
  obtain a b where ab: "zero_run gs = (a, b)" by fastforce
  have l: "length gs = 8" and g: "\<forall>g \<in> set gs. g < 65536" and ne: "gs \<noteq> []" using v by (auto simp: valid_ip_def)
  show ?thesis
  proof (cases "a < 8")
    case False
    then show ?thesis using take2_colons [OF ne, of "[]"] parse6_loop_colons [OF ne g, of "[]" None] l
      by (simp add: string6_def ab parse6_groups_def)
  next
    case True
    note s = zero_run_split [OF v ab True]
    let ?p = "take a gs" and ?q = "drop b gs"
    have shown: "string6 gs = colons ?p @ CHR '':'' # CHR '':'' # colons ?q" using True by (simp add: string6_def ab)
    have gp: "\<forall>g \<in> set ?p. g < 65536" and gq: "\<forall>g \<in> set ?q. g < 65536" using g by (meson in_set_takeD in_set_dropD)+
    have lp: "length ?p = a" "length ?q = 8 - b" using l True by auto
    have n: "8 - length (?p @ ?q) = b - a" "length (?p @ ?q) < 8" using lp s by auto
    have fill: "take a (?p @ ?q) @ replicate (b - a) 0 @ drop a (?p @ ?q) = gs" using s(1) lp by simp
    have q: "colons ?q = [] \<longleftrightarrow> ?q = []" using colons_head [of ?q] by (metis colons.simps(1) list.distinct(1))
    have rest: "colons ?q \<noteq> [] \<Longrightarrow> parse6_loop (colons ?q) ?p (Some a) = Some ([], ?p @ ?q, Some a)"
      using parse6_loop_colons [OF _ gq, of ?p] q lp s by auto
    show ?thesis
    proof (cases "?p = []")
      case True
      then show ?thesis using rest fill n q s(1) lp
        by (cases "colons ?q = []") (auto simp: parse6_groups_def shown numeral_2_eq_2)
    next
      case False
      have "parse6_loop (string6 gs) [] None = Some ([], ?p @ ?q, Some a)"
        unfolding shown using parse6_loop_ellipsis [OF False gp, of "[]" "colons ?q"] lp True rest q by auto
      then show ?thesis using take2_colons [OF False, of "CHR '':'' # CHR '':'' # colons ?q"] fill n
        by (simp add: parse6_groups_def flip: shown)
    qed
  qed
qed

lemma ParseIP_string6:
  assumes "valid_ip gs" shows "ParseIP (string6 gs) = Some gs"
proof -
  have "CHR '':'' \<in> set t \<Longrightarrow> \<forall>c \<in> set t. c \<noteq> CHR ''.'' \<and> c \<noteq> CHR ''%'' \<Longrightarrow> parseAddr_from s t = parseIPv6 s" for s t
    by (induction t) auto
  then have "ParseAddr (string6 gs) = parseIPv6 (string6 gs)"
    unfolding ParseAddr_def using string6_has_colon [OF assms] string6_lacks [of gs] by metis
  moreover have "IndexByte (CHR ''%'') (string6 gs) = None" using string6_lacks by simp
  ultimately show ?thesis by (simp add: ParseIP_def parseIPv6_def parse6_groups_string6 [OF assms])
qed

lemma valid_v4:
  assumes "valid_ip gs" "take 6 gs = v4_prefix" shows "gs = v4_prefix @ [gs ! 6, gs ! 7]" "gs ! 6 < 65536" "gs ! 7 < 65536"
proof -
  have "drop 6 gs = [gs ! 6, gs ! 7]" using assms(1) by (simp add: valid_ip_def Cons_nth_drop_Suc [symmetric])
  then show "gs = v4_prefix @ [gs ! 6, gs ! 7]" using assms(2) by (metis append_take_drop_id)
qed (use assms(1) in \<open>auto simp: valid_ip_def\<close>)

lemma ParseIP_IP_String: "valid_ip gs \<Longrightarrow> ParseIP (IP_String gs) = Some gs"
  using valid_v4 [of gs] by (auto simp: IP_String_def ParseIP_string6 ParseIP_string4)

lemma IP_String_lacks: "plain (IP_String gs)" "CHR ''%'' \<notin> set (IP_String gs)"
  by (simp_all add: IP_String_def string4_def string6_lacks)

section \<open>Zones\<close>

lemma parseIPv4Fields_chars:
  "parseIPv4Fields v l fs s = Some r \<Longrightarrow> c \<in> set s \<Longrightarrow> c = CHR ''.'' \<or> digit_value c \<noteq> None"
  by (induction v l fs s rule: parseIPv4Fields.induct) (auto split: option.splits if_splits)

text \<open>No text with a zone separator is an IP, whatever else it holds.\<close>

lemma ParseIP_zone: "CHR ''%'' \<in> set s \<Longrightarrow> ParseIP s = None"
proof -
  assume p: "CHR ''%'' \<in> set s"
  have "parseIPv4 s = None"
    using parseIPv4Fields_chars [of 0 0 "[]" s _ "CHR ''%''"] p
    by (cases "parseIPv4Fields 0 0 [] s") (auto simp: parseIPv4_def digit_value_def)
  moreover have "parseIPv6 s = Some (g, z) \<Longrightarrow> z \<noteq> ''''" for g z
    using p IndexByte_None [of "CHR ''%''" s] by (auto simp: parseIPv6_def Let_def split: option.splits if_splits)
  moreover have "parseAddr_from s t \<in> {None, map_option (\<lambda>g. (g, '''')) (parseIPv4 s), parseIPv6 s}" for t
    by (induction t) auto
  ultimately have "parseAddr_from s s \<noteq> Some (g, '''')" for g
    by (metis empty_iff insert_iff option.distinct(1) option.map_disc_iff)
  then show ?thesis by (auto simp: ParseIP_def ParseAddr_def split: option.splits)
qed

section \<open>What the parsers return\<close>

lemma parseIPv4Fields_valid:
  "parseIPv4Fields v l fs s = Some r \<Longrightarrow> length fs \<le> 3 \<Longrightarrow> v \<le> 255 \<Longrightarrow> \<forall>f \<in> set fs. f \<le> 255
     \<Longrightarrow> length r = 4 \<and> (\<forall>f \<in> set r. f \<le> 255)"
proof (induction v l fs s rule: parseIPv4Fields.induct)
  case (2 v l fs c cs)
  then show ?case by (cases "digit_value c") (auto split: if_splits)
qed (auto split: if_splits)

lemma pair_groups_valid:
  "length fs = 4 \<Longrightarrow> \<forall>f \<in> set fs. f \<le> 255 \<Longrightarrow> length (pair_groups fs) = 2 \<and> (\<forall>g \<in> set (pair_groups fs). g < 65536)"
proof -
  assume l: "length fs = 4" and b: "\<forall>f \<in> set fs. f \<le> 255"
  have "length fs = Suc (Suc (Suc (Suc 0)))" using l by simp
  then obtain w x y z where "fs = [w, x, y, z]" unfolding length_Suc_conv by auto
  then show ?thesis using b by auto
qed

lemma hex_number_bound: "list_all is_hex ds \<Longrightarrow> hex_number ds < 16 ^ length ds"
proof (induction ds rule: rev_induct)
  case (snoc c ds)
  have "the (hex_digit c) < 16" using snoc(2) by (auto simp: is_hex_def hex_digit_def Let_def split: if_splits)
  then show ?case using snoc by (auto simp: hex_number_snoc)
qed (simp add: hex_number_def)

lemma hex_group_bound: "length (takeWhile is_hex s) \<le> 4 \<Longrightarrow> hex_number (takeWhile is_hex s) < 65536"
proof -
  assume l: "length (takeWhile is_hex s) \<le> 4"
  have "hex_number (takeWhile is_hex s) < 16 ^ length (takeWhile is_hex s)"
    by (rule hex_number_bound) (auto simp: list_all_iff dest: set_takeWhileD)
  also have "\<dots> \<le> 16 ^ 4" using l by (rule power_increasing) simp
  finally show ?thesis by simp
qed

lemma parse6_loop_valid:
  "parse6_loop s acc ell = Some (rest, r, e) \<Longrightarrow> length acc \<le> 8 \<Longrightarrow> \<forall>g \<in> set acc. g < 65536
     \<Longrightarrow> length r \<le> 8 \<and> (\<forall>g \<in> set r. g < 65536)"
proof (induction s acc ell rule: parse6_loop.induct)
  case (1 s acc ell)
  let ?d = "takeWhile is_hex s" and ?r = "dropWhile is_hex s"
  let ?acc = "acc @ [hex_number ?d]"
  note step = 1(3) [unfolded parse6_loop.simps [of s acc ell] Let_def]
  show ?case
  proof (cases "length acc < 8 \<and> length ?d \<le> 4 \<and> ?d \<noteq> []")
    case False
    then show ?thesis using step 1(4,5) by (auto split: if_splits)
  next
    case True
    have new: "length ?acc \<le> 8" "\<forall>g \<in> set ?acc. g < 65536" using True hex_group_bound 1(5) by auto
    consider "?r = []" | t where "?r = CHR ''.'' # t" | t where "?r = CHR '':'' # t"
      | c t where "?r = c # t" "c \<noteq> CHR ''.''" "c \<noteq> CHR '':''" by (cases ?r) auto
    then show ?thesis
    proof cases
      case 1
      then show ?thesis using True new step unfolding 1 by auto
    next
      case (2 t)
      then obtain fs where "parseIPv4Fields 0 0 [] s = Some fs" "r = acc @ pair_groups fs" "length acc + 2 \<le> 8"
        using step True by (auto split: if_splits)
      then show ?thesis using parseIPv4Fields_valid [of 0 0 "[]" s fs] pair_groups_valid [of fs] 1(5) by auto
    next
      case (4 c t)
      then show ?thesis using step True by simp
    next
      case (3 t)
      show ?thesis
      proof (cases t)
        case (Cons c1 r2)
        show ?thesis
        proof (cases "c1 = CHR '':''")
          case False
          then show ?thesis using 1(1) [OF _ refl refl refl _ _ 3 _ _ Cons] step True 3 Cons new by simp
        next
          case twice: True
          then show ?thesis using 1(2) [OF _ refl refl refl _ _ 3 _ _ Cons] step True 3 Cons new
            by (auto split: if_splits)
        qed
      qed (use 3 True step in simp)
    qed
  qed
qed

lemma ParseIP_valid: "ParseIP s = Some gs \<Longrightarrow> valid_ip gs"
proof -
  assume p: "ParseIP s = Some gs"
  have four: "parseIPv4 u = Some g \<Longrightarrow> valid_ip g" for u g
    using parseIPv4Fields_valid [of 0 0 "[]" u] pair_groups_valid
    by (fastforce simp: parseIPv4_def v4_prefix_def valid_ip_def)
  have loop: "parse6_loop u [] e0 = Some (rest, r, e) \<Longrightarrow> length r \<le> 8 \<and> (\<forall>g \<in> set r. g < 65536)" for u e0 rest r e
    using parse6_loop_valid [of u "[]" e0 rest r e] by simp
  have fill: "\<forall>g \<in> set r. g < 65536 \<Longrightarrow> length r < 8 \<Longrightarrow> valid_ip (take e r @ replicate (8 - length r) 0 @ drop e r)"
    for r :: "nat list" and e by (auto simp: valid_ip_def dest: in_set_takeD in_set_dropD)
  have whole: "length r \<le> 8 \<Longrightarrow> \<not> length r < 8 \<Longrightarrow> \<forall>g \<in> set r. g < 65536 \<Longrightarrow> valid_ip r" for r
    by (auto simp: valid_ip_def)
  have six: "parse6_groups u = Some g \<Longrightarrow> valid_ip g" for u g
    by (auto simp: parse6_groups_def Let_def split: if_splits option.splits prod.splits
        dest!: loop intro!: fill whole)
  have "parseAddr_from u t = Some (g, z) \<Longrightarrow> valid_ip g" for u t g z
    by (induction t) (auto simp: parseIPv6_def Let_def split: if_splits option.splits intro: four six)
  then show ?thesis using p by (auto simp: ParseIP_def ParseAddr_def split: option.splits if_splits prod.splits)
qed

lemma Atoi_Itoa: assumes "- (2 ^ 63) \<le> n" "n < 2 ^ 63" shows "Atoi (Itoa n) = Some n"
proof (cases "n < 0")
  case True
  then show ?thesis using assms by (simp add: Itoa_def Atoi_def digits_value_decimal)
next
  case False
  then show ?thesis using Atoi_decimal [of "nat n"] assms by (simp add: Itoa_def)
qed

lemma Atoi_range: "Atoi s = Some n \<Longrightarrow> - (2 ^ 63) \<le> n \<and> n < 2 ^ 63"
  by (auto simp: Atoi_def Let_def split: prod.splits option.splits if_splits)

lemma Itoa_lacks: "plain (Itoa n)" "CHR '':'' \<notin> set (Itoa n)"
  by (simp_all add: Itoa_def)

section \<open>Evaluation\<close>

lemma digit_chars: "map digit_char [0, 1, 2, 3, 4, 5, 6, 7, 8, 9] = ''0123456789''"
  by code_simp

lemma digit_char_eval:
  "digit_char 0 = CHR ''0''" "digit_char (Suc 0) = CHR ''1''" "digit_char 2 = CHR ''2''" "digit_char 3 = CHR ''3''"
  "digit_char 4 = CHR ''4''" "digit_char 5 = CHR ''5''" "digit_char 6 = CHR ''6''" "digit_char 7 = CHR ''7''"
  "digit_char 8 = CHR ''8''" "digit_char 9 = CHR ''9''"
  using digit_chars by simp_all

lemma replicate_eval: "replicate (numeral k) x = x # replicate (pred_numeral k) x"
  by (simp add: numeral_eq_Suc)

lemmas print_eval = TCPAddr_String_def IP_String_def v4_prefix_def string4_def Itoa_def JoinHostPort_def decimal.simps
  digit_char_eval

lemmas parse_eval = ParseIP_def ParseAddr_def parseIPv6_def parse6_groups_def parse6_loop.simps is_hex_def hex_digit_def
  hex_number_def Let_def digit_value_def v4_prefix_def replicate_eval

text \<open>An address written as an IPv4-mapped IPv6 literal is the IPv4 address; a leading zero, a
  missing field and a second ellipsis are refused.\<close>

lemma literal_examples:
  "ParseIP ''::ffff:100.64.0.7'' = ParseIP ''100.64.0.7''"
  "ParseIP ''2001:DB8::1'' = Some [8193, 3512, 0, 0, 0, 0, 0, 1]"
  "ParseIP ''100.064.0.7'' = None" "ParseIP ''100.64.7'' = None" "ParseIP ''1::2::3'' = None"
  by (simp_all add: parse_eval parseIPv4_def)

end
