(* ===== verification/Addr.thy ===== *)
theory Addr
  imports Netaddr Server
begin

text \<open>
  Who is at the other end of a connection: the peer's network address as
  \<^verbatim>\<open>src/internal/coordinator/server.go\<close> parses it (\<^verbatim>\<open>remoteAddrOf\<close>), the resolvers of
  \<^verbatim>\<open>src/internal/coordinator/tsauth\<close> that turn it into an identity, and the two composed the
  way \<^verbatim>\<open>ServeHTTP\<close> composes them.  The Tailscale daemon is an argument.
\<close>

section \<open>Addresses and resolvers (server.go, tsauth)\<close>

datatype addr_error = BadHostPort string | BadPort string | NotAnIP string

definition remoteAddrOf :: "string \<Rightarrow> (addr_error, tcp_addr) result" where
  "remoteAddrOf remote =
     (case SplitHostPort remote of
        Inl why \<Rightarrow> Err (BadHostPort why)
      | Inr (host, portStr) \<Rightarrow>
          (case Atoi portStr of
             None \<Rightarrow> Err (BadPort portStr)
           | Some port \<Rightarrow>
               (case ParseIP host of
                  None \<Rightarrow> Err (NotAnIP host)
                | Some ip \<Rightarrow> Ok \<lparr>ta_IP = ip, ta_Port = port, ta_Zone = ''''\<rparr>)))"

definition hostOf :: "string \<Rightarrow> string" where
  "hostOf remoteAddr = (case SplitHostPort remoteAddr of Inl _ \<Rightarrow> remoteAddr | Inr (host, _) \<Rightarrow> host)"

type_synonym whois_response = "((string \<times> string) option \<times> string option) option"

datatype whois_error = ErrPeerNotFound | WhoIsFailed string

definition NewTSNetResolver :: "'srv option \<Rightarrow> ('srv \<Rightarrow> (string, 'lc) result) \<Rightarrow> (string, 'lc) result" where
  "NewTSNetResolver srv LocalClient =
     (case srv of
        None \<Rightarrow> Err ''tsauth: nil tsnet server''
      | Some sv \<Rightarrow> (case LocalClient sv of Inl e \<Rightarrow> Err (''tsauth: local client: '' @ e) | Inr lc \<Rightarrow> Ok lc))"

definition TSNet_Resolve ::
  "(string \<Rightarrow> (whois_error, whois_response) result) \<Rightarrow> string \<Rightarrow> (string, identity) result" where
  "TSNet_Resolve WhoIs remoteAddr =
     (case WhoIs remoteAddr of
        Inl ErrPeerNotFound \<Rightarrow> Err (''tsauth: '' @ remoteAddr @ '': not a known tailnet peer'')
      | Inl (WhoIsFailed e) \<Rightarrow> Err (''tsauth: whois '' @ remoteAddr @ '': '' @ e)
      | Inr resp \<Rightarrow>
          (case identityFromWhoIs resp of
             Inl e \<Rightarrow> Err (''tsauth: whois '' @ remoteAddr @ '': '' @ e)
           | Inr ident \<Rightarrow> Ok ident))"

type_synonym static_resolver = "(string \<times> identity) list"

definition NewStaticResolver :: "(string \<times> identity) list \<Rightarrow> static_resolver" where
  "NewStaticResolver byHost = fold (\<lambda>(k, v) m. AList.update k v m) byHost []"

definition Static_Set :: "string \<Rightarrow> identity \<Rightarrow> static_resolver \<Rightarrow> static_resolver" where
  "Static_Set host ident r = AList.update host ident r"

definition Static_Resolve :: "static_resolver \<Rightarrow> string \<Rightarrow> (string, identity) result" where
  "Static_Resolve r remoteAddr =
     (let host = hostOf remoteAddr in
      case map_of r host of
        None \<Rightarrow> Err (''tsauth: '' @ remoteAddr @ '' ('' @ host @ ''): not a known peer'')
      | Some ident \<Rightarrow> Ok ident)"

text \<open>The identity gate of one request: the text of the socket's peer address is parsed, and
  the resolver is handed the parsed address, which it renders again.\<close>

definition identity_gate ::
  "(string \<Rightarrow> (string, identity) result) \<Rightarrow> string \<Rightarrow> bool \<Rightarrow> nat \<Rightarrow> server \<Rightarrow> identity option \<times> server" where
  "identity_gate Resolve RemoteAddr upgrade_ok c s =
     (case remoteAddrOf RemoteAddr of
        Inl _ \<Rightarrow> ServeHTTP False (Err '''') upgrade_ok c s
      | Inr remote \<Rightarrow> ServeHTTP True (Resolve (TCPAddr_String remote)) upgrade_ok c s)"

section \<open>A peer's address survives the round through text\<close>

text \<open>An address as the socket layer holds it: eight groups, a 64-bit port and no zone.\<close>

definition valid_peer :: "tcp_addr \<Rightarrow> bool" where
  "valid_peer a \<longleftrightarrow> valid_ip (ta_IP a) \<and> - (2 ^ 63) \<le> ta_Port a \<and> ta_Port a < 2 ^ 63 \<and> ta_Zone a = ''''"

lemma split_peer:
  "ta_Zone a = '''' \<Longrightarrow> SplitHostPort (TCPAddr_String a) = Ok (IP_String (ta_IP a), Itoa (ta_Port a))"
  by (simp add: TCPAddr_String_def SplitHostPort_JoinHostPort IP_String_lacks Itoa_lacks)

lemma remoteAddrOf_String: "valid_peer a \<Longrightarrow> remoteAddrOf (TCPAddr_String a) = Ok a"
  by (simp add: valid_peer_def remoteAddrOf_def split_peer Atoi_Itoa ParseIP_IP_String)

lemma remoteAddrOf_valid: "remoteAddrOf r = Ok a \<Longrightarrow> valid_peer a"
  by (auto simp: remoteAddrOf_def valid_peer_def ParseIP_valid split: sum.splits option.splits prod.splits
      dest: Atoi_range)

interpretation peer_text: codec TCPAddr_String remoteAddrOf valid_peer
  by unfold_locales (rule remoteAddrOf_String)

lemma hostOf_peer: "ta_Zone a = '''' \<Longrightarrow> hostOf (TCPAddr_String a) = IP_String (ta_IP a)"
  by (simp add: hostOf_def split_peer)

lemma SplitHostPort_zone:
  assumes "CHR ''%'' \<in> set pre" "plain pre" "CHR '':'' \<notin> set port" "SplitHostPort (JoinHostPort (pre @ z) port) = Ok (h, p)"
  shows "CHR ''%'' \<in> set h"
proof (cases "CHR '':'' \<in> set (pre @ z)")
  case True
  let ?t = "z @ CHR '']'' # CHR '':'' # port"
  have j: "JoinHostPort (pre @ z) port = CHR ''['' # pre @ ?t" using True by (auto simp: JoinHostPort_def)
  obtain e where e: "IndexByte (CHR '']'') ?t = Some e" by (metis IndexByte_None in_set_conv_decomp option.exhaust)
  have "IndexByte (CHR '']'') (pre @ ?t) = Some (length pre + e)"
    using assms(2) by (intro IndexByte_append [OF _ e]) (simp add: plain_def)
  then have "h = pre @ take e ?t" using assms(4) unfolding j
    by (auto simp: SplitHostPort_def split_brackets_def split: option.splits if_splits)
  then show ?thesis using assms(1) by simp
next
  case False
  have l: "LastIndexByte (CHR '':'') ((pre @ z) @ CHR '':'' # port) = Some (length (pre @ z))"
    by (rule LastIndexByte_last) (rule assms(3))
  have "pre \<noteq> []" using assms(1) by auto
  then have "hd (pre @ z @ CHR '':'' # port) \<noteq> CHR ''[''" using assms(2) by (cases pre) auto
  then have "h = pre @ z" using assms(4) False l
    by (auto simp: JoinHostPort_def SplitHostPort_def split_brackets_def split: if_splits)
  then show ?thesis using assms(1) by simp
qed

lemma zoned_peer_refused: "ta_Zone a \<noteq> '''' \<Longrightarrow> \<not> is_ok (remoteAddrOf (TCPAddr_String a))"
proof -
  assume z: "ta_Zone a \<noteq> ''''"
  have "SplitHostPort (TCPAddr_String a) = Ok (h, p) \<Longrightarrow> ParseIP h = None" for h p
    using SplitHostPort_zone [of "IP_String (ta_IP a) @ ''%''" "Itoa (ta_Port a)" "ta_Zone a" h p] z
    by (intro ParseIP_zone) (simp add: TCPAddr_String_def IP_String_lacks Itoa_lacks)
  then show ?thesis by (auto simp: remoteAddrOf_def is_ok_def split: sum.splits option.splits prod.splits)
qed

section \<open>The identity gate\<close>

lemma ServeHTTP_admits:
  "fst (ServeHTTP True resolved up c s) = Some ident \<longleftrightarrow> resolved = Ok ident \<and> up \<and> \<not> sv_draining s"
  by (auto simp: ServeHTTP_def Let_def track_def noteConnection_def split: sum.splits)

lemma TSNet_Resolve_ok:
  "TSNet_Resolve WhoIs addr = Ok ident \<longleftrightarrow> (\<exists>resp. WhoIs addr = Ok resp \<and> identityFromWhoIs resp = Ok ident)"
  by (auto simp: TSNet_Resolve_def split: sum.splits whois_error.splits)

lemma gate_admits:
  "fst (identity_gate Resolve r up c s) = Some ident \<longleftrightarrow>
     (\<exists>a. remoteAddrOf r = Ok a \<and> Resolve (TCPAddr_String a) = Ok ident) \<and> up \<and> \<not> sv_draining s"
proof (cases "remoteAddrOf r")
  case (Inl e)
  then show ?thesis by (simp add: identity_gate_def ServeHTTP_def)
next
  case (Inr a)
  then show ?thesis by (auto simp: identity_gate_def ServeHTTP_admits)
qed

text \<open>
  C21. Who is admitted is decided by the daemon's answer about the very peer of the socket.  The
  peer's address is rendered by the socket layer, parsed by the coordinator and rendered
  again for the daemon, and for every address without a zone that round changes nothing: the
  connection is admitted as somebody exactly when the daemon, asked about that peer, names
  them, the upgrade succeeds and the server is not draining.  A peer whose address carries a
  zone is refused before the daemon is asked, whatever it would answer, and counted as one
  refusal.
\<close>

theorem admission_asks_about_the_peer:
  "(valid_peer a \<longrightarrow>
      (fst (identity_gate (TSNet_Resolve WhoIs) (TCPAddr_String a) up c s) = Some ident
       \<longleftrightarrow> (\<exists>resp. WhoIs (TCPAddr_String a) = Ok resp \<and> identityFromWhoIs resp = Ok ident) \<and> up \<and> \<not> sv_draining s))
   \<and> (ta_Zone a \<noteq> '''' \<longrightarrow>
      identity_gate (TSNet_Resolve WhoIs) (TCPAddr_String a) up c s = (None, s\<lparr>sv_refusals := sv_refusals s + 1\<rparr>))"
proof (intro conjI impI)
  assume "ta_Zone a \<noteq> ''''"
  then obtain e where "remoteAddrOf (TCPAddr_String a) = Err e"
    using zoned_peer_refused [of a] by (cases "remoteAddrOf (TCPAddr_String a)") (auto simp: is_ok_def)
  then show "identity_gate (TSNet_Resolve WhoIs) (TCPAddr_String a) up c s = (None, s\<lparr>sv_refusals := sv_refusals s + 1\<rparr>)"
    by (simp add: identity_gate_def ServeHTTP_def)
qed (simp add: gate_admits remoteAddrOf_String TSNet_Resolve_ok)

definition phone_addr :: tcp_addr where
  "phone_addr = \<lparr>ta_IP = v4_prefix @ [25664, 7], ta_Port = 52814, ta_Zone = ''''\<rparr>"

definition phone_whois :: "string \<Rightarrow> (whois_error, whois_response) result" where
  "phone_whois addr = (if addr = ''100.64.0.7:52814'' then Ok (Some (None, Some ''phone.'')) else Err ErrPeerNotFound)"

lemma phone_text: "TCPAddr_String phone_addr = ''100.64.0.7:52814''"
  by (simp add: phone_addr_def print_eval)

lemma phone_facts: "valid_peer phone_addr" "phone_whois (TCPAddr_String phone_addr) = Ok (Some (None, Some ''phone.''))"
  "identityFromWhoIs (Some (None, Some ''phone.'')) = Ok (no_identity\<lparr>id_NodeName := ''phone.''\<rparr>)"
  by (simp add: valid_peer_def valid_ip_def phone_addr_def v4_prefix_def, simp add: phone_text phone_whois_def,
      simp add: identityFromWhoIs_def no_identity_def)

theorem admission_asks_about_the_peer_witness:
  "fst (identity_gate (TSNet_Resolve phone_whois) (TCPAddr_String phone_addr) True 1 (NewServer None None))
     = Some (no_identity\<lparr>id_NodeName := ''phone.''\<rparr>)
   \<and> identity_gate (TSNet_Resolve phone_whois) (TCPAddr_String (phone_addr\<lparr>ta_Zone := ''eth0''\<rparr>)) True 1 (NewServer None None)
     = (None, (NewServer None None)\<lparr>sv_refusals := 1\<rparr>)"
  using admission_asks_about_the_peer [of phone_addr phone_whois True 1 "NewServer None None" "no_identity\<lparr>id_NodeName := ''phone.''\<rparr>"]
    admission_asks_about_the_peer [of "phone_addr\<lparr>ta_Zone := ''eth0''\<rparr>" phone_whois True 1 "NewServer None None"]
  by (simp add: phone_facts) (simp add: NewServer_def)

text \<open>Whatever text arrives, what the resolver is asked about is an address the parser has put
  into canonical form: parsing what it is shown gives the same address again.\<close>

lemma gate_asks_canonically:
  assumes "fst (identity_gate Resolve r up c s) = Some ident"
  obtains a where "Resolve (TCPAddr_String a) = Ok ident" "remoteAddrOf r = Ok a" "remoteAddrOf (TCPAddr_String a) = Ok a"
  using assms remoteAddrOf_valid remoteAddrOf_String by (auto simp: gate_admits)

text \<open>The static double answers by host alone: the port of the peer does not matter, and an
  unknown host is refused.\<close>

lemma static_ignores_port:
  assumes "ta_Zone a = ''''" "ta_Zone b = ''''" "ta_IP a = ta_IP b"
  shows "Static_Resolve r (TCPAddr_String a) = Ok ident \<longleftrightarrow> Static_Resolve r (TCPAddr_String b) = Ok ident"
  using assms by (simp add: Static_Resolve_def hostOf_peer Let_def split: option.splits)

lemma static_set_resolves:
  assumes "valid_peer a" "valid_peer b"
  shows "Static_Resolve (Static_Set (IP_String (ta_IP a)) ident r) (TCPAddr_String b) =
    (if ta_IP a = ta_IP b then Ok ident else Static_Resolve r (TCPAddr_String b))"
proof -
  have "IP_String (ta_IP a) = IP_String (ta_IP b) \<longleftrightarrow> ta_IP a = ta_IP b"
    using assms ParseIP_IP_String by (metis option.inject valid_peer_def)
  then show ?thesis using assms
    by (auto simp: Static_Resolve_def Static_Set_def hostOf_peer valid_peer_def update_conv Let_def)
qed

lemma static_empty_refuses: "\<not> is_ok (Static_Resolve (NewStaticResolver []) addr)"
  by (simp add: Static_Resolve_def NewStaticResolver_def is_ok_def Let_def)

end
