(* ===== verification/ClientProps.thy ===== *)
theory ClientProps
  imports Client
begin

text \<open>
  The reconnect supervisor under every interleaving: the machine's illegal-edge
  panic is unreachable when a claimed verdict completes before the next retry,
  and reachable otherwise; \<^verbatim>\<open>Stop\<close> can miss a session; acknowledgement positions;
  the watchdog's silence deadline and heartbeat slots.
\<close>

section \<open>Transitions\<close>


lemma client_Transition_keeps [simp]:
  "cl_cfg (snd (client_Transition to reason c)) = cl_cfg c"
  "cl_wds (snd (client_Transition to reason c)) = cl_wds c"
  "cl_sup (snd (client_Transition to reason c)) = cl_sup c"
  "cl_reader (snd (client_Transition to reason c)) = cl_reader c"
  "cl_torn (snd (client_Transition to reason c)) = cl_torn c"
  "cl_now (snd (client_Transition to reason c)) = cl_now c"
  "cl_cancelled (snd (client_Transition to reason c)) = cl_cancelled c"
  "cl_acked (snd (client_Transition to reason c)) = cl_acked c"
  "cl_sent (snd (client_Transition to reason c)) = cl_sent c"
  "m_closed (cl_mach (snd (client_Transition to reason c))) = m_closed (cl_mach c)"
  by (simp_all add: client_Transition_def Transition_def Let_def split: prod.split)

lemma client_Transition_result:
  "fst (client_Transition to reason c) = MachineClosed \<longleftrightarrow> m_closed (cl_mach c)"
  "cl_crashed (snd (client_Transition to reason c)) \<longleftrightarrow>
     cl_crashed c \<or> (\<not> m_closed (cl_mach c) \<and> m_cur (cl_mach c) \<noteq> to \<and> \<not> canTransition (m_cur (cl_mach c)) to)"
  "m_cur (cl_mach (snd (client_Transition to reason c))) =
     (if \<not> m_closed (cl_mach c) \<and> (canTransition (m_cur (cl_mach c)) to) then to else m_cur (cl_mach c))"
  by (auto simp: client_Transition_def Transition_def Let_def split: prod.splits if_splits)

lemma run_top_eq: "run_top n c =
   (if cl_cancelled c then c\<lparr>cl_sup := SupExit\<rparr>
    else (snd (client_Transition StateConnecting ''dial attempt started'' c))
           \<lparr>cl_sup := (if m_closed (cl_mach c) then SupExit else SupDialing n)\<rparr>)"
  using client_Transition_result(1) [of StateConnecting "''dial attempt started''" c]
  by (auto simp: run_top_def split: prod.split transition_result.split)

lemma run_dialed_eq: "run_dialed n s c =
   (let c1 = snd (client_Transition StateHandshaking ''transport established'' c)
    in if m_closed (cl_mach c) then (client_close s c1)\<lparr>cl_sup := SupExit\<rparr> else c1\<lparr>cl_sup := SupConnected n s\<rparr>)"
  using client_Transition_result(1) [of StateHandshaking "''transport established''" c]
  by (auto simp: run_dialed_def Let_def split: prod.split transition_result.split)

lemma run_online_eq: "run_online s c =
   (let c1 = snd (client_Transition StateOnline ''handshake completed'' c)
    in if m_closed (cl_mach c) then (client_close s c1)\<lparr>cl_sup := SupExit\<rparr> else c1\<lparr>cl_sup := SupOnline s\<rparr>)"
  using client_Transition_result(1) [of StateOnline "''handshake completed''" c]
  by (auto simp: run_online_def Let_def split: prod.split transition_result.split)

lemma machine_Close_simps [simp]:
  "m_closed (machine_Close m)" "m_cur (machine_Close m) = m_cur m"
  by (simp_all add: machine_Close_def)

section \<open>The invariant\<close>

definition quiet :: "watchdog \<Rightarrow> bool" where
  "quiet w \<longleftrightarrow> wd_stopped w \<and> wd_verdict w = None"

text \<open>How a watchdog's verdict and the machine's state fit.\<close>

definition wd_phase :: "conn_state \<Rightarrow> watchdog \<Rightarrow> bool" where
  "wd_phase cur w \<longleftrightarrow>
     (case wd_verdict w of
        None \<Rightarrow> cur = (if wd_stopped w then StateDisconnected else StateOnline)
      | Some ClaimedSilence \<Rightarrow> cur = StateOnline
      | Some (ClaimedDisconnect reason r) \<Rightarrow> cur = StateOnline \<or> cur = StateDegraded)"

definition sup_phase :: "sup_pc \<Rightarrow> watchdog list \<Rightarrow> conn_state \<Rightarrow> bool" where
  "sup_phase pc wds cur =
     (case pc of
        SupTop n \<Rightarrow> cur = StateDisconnected
      | SupDialing n \<Rightarrow> cur = StateConnecting
      | SupDialed n s \<Rightarrow> cur = StateConnecting
      | SupConnected n s \<Rightarrow> cur = StateHandshaking
      | SupHello n s \<Rightarrow> cur = StateHandshaking
      | SupShake n s d \<Rightarrow> cur = StateHandshaking
      | SupAcked s dev \<Rightarrow> cur = StateHandshaking
      | SupInstalled s \<Rightarrow> cur = StateHandshaking
      | SupOnline s \<Rightarrow> cur = StateOnline
      | SupServe s \<Rightarrow> wd_phase cur (hd wds)
      | SupBackoff n d \<Rightarrow> (if wds = [] then cur = StateDisconnected else wd_phase cur (hd wds))
      | SupExit \<Rightarrow> wds \<noteq> [] \<and> wd_verdict (hd wds) \<noteq> None \<longrightarrow> wd_phase cur (hd wds))"

definition sup_shape :: "sup_pc \<Rightarrow> watchdog list \<Rightarrow> reader_pc \<Rightarrow> bool" where
  "sup_shape pc wds reader =
     (case pc of
        SupServe s \<Rightarrow> wds \<noteq> [] \<and> reader \<noteq> RdIdle \<and> (reader \<noteq> RdRecv \<longrightarrow> wd_stopped (hd wds))
      | SupBackoff n d \<Rightarrow> list_all wd_stopped wds
      | SupExit \<Rightarrow> list_all wd_stopped wds
      | _ \<Rightarrow> list_all quiet wds)"

definition client_inv :: "client \<Rightarrow> bool" where
  "client_inv c \<longleftrightarrow> \<not> cl_crashed c \<and> config_validate (cl_cfg c) = Ok ()
     \<and> list_all quiet (tl (cl_wds c)) \<and> list_all (\<lambda>w. wd_stopped w \<or> wd_verdict w = None) (cl_wds c)
     \<and> sup_shape (cl_sup c) (cl_wds c) (cl_reader c)
     \<and> (m_closed (cl_mach c) \<or> sup_phase (cl_sup c) (cl_wds c) (m_cur (cl_mach c)))"

lemma quiet_phase: "list_all quiet wds \<Longrightarrow> wds \<noteq> [] \<Longrightarrow> wd_phase cur (hd wds) \<longleftrightarrow> cur = StateDisconnected"
  by (cases wds) (simp_all add: wd_phase_def quiet_def)

lemma quiet_stopped: "list_all quiet wds \<Longrightarrow> list_all wd_stopped wds"
  by (auto simp: quiet_def list_all_iff)

lemma quiet_verdict: "list_all quiet wds \<Longrightarrow> wds \<noteq> [] \<Longrightarrow> wd_verdict (hd wds) = None"
  by (cases wds) (simp_all add: quiet_def)

text \<open>The supervisor's own steps outside a session.\<close>

definition solo :: "sup_pc \<Rightarrow> bool" where
  "solo pc \<longleftrightarrow> (case pc of SupServe s \<Rightarrow> False | SupBackoff n d \<Rightarrow> False | SupExit \<Rightarrow> False | _ \<Rightarrow> True)"

lemma solo_shape: "solo pc \<Longrightarrow> sup_shape pc wds rd = list_all quiet wds"
  by (cases pc) (simp_all add: solo_def sup_shape_def)

lemma solo_inv:
  assumes "client_inv c" "solo (cl_sup c)"
  shows "list_all quiet (cl_wds c)" "\<not> cl_crashed c" "config_validate (cl_cfg c) = Ok ()"
    "m_closed (cl_mach c) \<or> sup_phase (cl_sup c) (cl_wds c) (m_cur (cl_mach c))"
  using assms by (simp_all add: client_inv_def solo_shape)

lemma quiet_inv:
  assumes "list_all quiet (cl_wds c)" "\<not> cl_crashed c" "config_validate (cl_cfg c) = Ok ()"
    "solo (cl_sup c) \<or> cl_sup c = SupExit \<or> (\<exists>n d. cl_sup c = SupBackoff n d)"
    "m_closed (cl_mach c) \<or> cl_sup c = SupExit \<or> sup_phase (cl_sup c) [] (m_cur (cl_mach c))"
  shows "client_inv c"
proof -
  have "list_all quiet (tl (cl_wds c))" using assms(1) by (cases "cl_wds c") simp_all
  moreover have "list_all (\<lambda>w. wd_stopped w \<or> wd_verdict w = None) (cl_wds c)"
    using assms(1) by (auto simp: list_all_iff quiet_def)
  moreover have "sup_shape (cl_sup c) (cl_wds c) (cl_reader c)"
    using assms(1,4) quiet_stopped [OF assms(1)]
    by (cases "cl_sup c") (simp_all add: sup_shape_def solo_def)
  moreover have "m_closed (cl_mach c) \<or> sup_phase (cl_sup c) (cl_wds c) (m_cur (cl_mach c))"
  proof (cases "cl_sup c")
    case (SupBackoff n d)
    then show ?thesis using assms(5) quiet_phase [OF assms(1)] by (simp add: sup_phase_def)
  next
    case SupExit
    then show ?thesis using quiet_verdict [OF assms(1)] by (auto simp: sup_phase_def)
  qed (use assms(4,5) in \<open>simp_all add: sup_phase_def solo_def\<close>)
  ultimately show ?thesis using assms(2,3) by (simp add: client_inv_def)
qed

lemma run_failed_inv:
  assumes "list_all quiet (cl_wds c)" "\<not> cl_crashed c" "config_validate (cl_cfg c) = Ok ()"
    "m_closed (cl_mach c) \<or> m_cur (cl_mach c) \<in> {StateConnecting, StateHandshaking}"
  shows "client_inv (run_failed draw reason n c)"
  using assms client_Transition_result(2,3) [of StateDisconnected reason c]
  by (intro quiet_inv) (auto simp: run_failed_def enter_backoff_def solo_def sup_phase_def)

lemma handshake_failed_inv:
  assumes "list_all quiet (cl_wds c)" "\<not> cl_crashed c" "config_validate (cl_cfg c) = Ok ()"
    "m_closed (cl_mach c) \<or> m_cur (cl_mach c) = StateHandshaking"
  shows "client_inv (handshake_failed draw err n s c)"
  unfolding handshake_failed_def
  by (rule run_failed_inv) (use assms in \<open>auto simp: clearInflight_def client_close_def\<close>)

lemma client_inv_cong:
  assumes "cl_crashed c' = cl_crashed c" "cl_cfg c' = cl_cfg c" "cl_wds c' = cl_wds c" "cl_sup c' = cl_sup c"
    "cl_reader c' = cl_reader c" "m_cur (cl_mach c') = m_cur (cl_mach c)"
    "m_closed (cl_mach c) \<longrightarrow> m_closed (cl_mach c')" "client_inv c"
  shows "client_inv c'"
  using assms by (auto simp: client_inv_def)

lemma handshake_reply_inv:
  assumes "client_inv c" "cl_sup c = SupShake n s d"
  shows "client_inv (handshake_reply draw n s env c)"
proof -
  note q = solo_inv [OF assms(1)]
  have so: "solo (cl_sup c)" using assms(2) by (simp add: solo_def)
  have ph: "m_closed (cl_mach c) \<or> m_cur (cl_mach c) = StateHandshaking"
    using q(4) [OF so] assms(2) by (simp add: sup_phase_def)
  have "client_inv (c\<lparr>cl_sup := SupAcked s dev\<rparr>)" for dev
    using q [OF so] ph by (intro quiet_inv) (simp_all add: sup_phase_def solo_def)
  moreover have "client_inv (c\<lparr>cl_handled := x\<rparr>)" for x
    by (rule client_inv_cong [OF _ _ _ _ _ _ _ assms(1)]) simp_all
  ultimately show ?thesis
    using assms(1) handshake_failed_inv [OF q(1) [OF so] q(2) [OF so] q(3) [OF so] ph]
    by (simp add: handshake_reply_def split: option.split payload.split)
qed

lemma serve_start_inv:
  assumes "client_inv c" "cl_sup c = SupOnline s"
  shows "client_inv (serve_start draw s left c)"
proof -
  have so: "solo (cl_sup c)" using assms(2) by (simp add: solo_def)
  note q = solo_inv [OF assms(1) so]
  have "list_all (\<lambda>w. wd_stopped w \<or> wd_verdict w = None) (cl_wds c)" using q(1) by (auto simp: list_all_iff quiet_def)
  then show ?thesis using q assms(2)
    by (simp add: serve_start_def Let_def StartWatchdog_def client_inv_def sup_shape_def sup_phase_def
        armDeadlineLocked_def wd_phase_def)
qed

text \<open>Steps of a watchdog's goroutines.\<close>

lemma unstopped_is_serving:
  assumes "client_inv c" "i < length (cl_wds c)" "\<not> wd_stopped (cl_wds c ! i)"
  shows "i = 0" "\<exists>s. cl_sup c = SupServe s" "cl_reader c = RdRecv"
    "wd_verdict (cl_wds c ! i) = None" "m_closed (cl_mach c) \<or> m_cur (cl_mach c) = StateOnline"
proof -
  obtain w0 old where wds: "cl_wds c = w0 # old" using assms(2) by (cases "cl_wds c") auto
  have old: "list_all quiet old" using assms(1) wds by (simp add: client_inv_def)
  show i: "i = 0" using assms(2,3) wds old by (cases i) (auto simp: list_all_length quiet_def)
  have st: "\<not> wd_stopped w0" using assms(3) wds i by simp
  then show sv: "\<exists>s. cl_sup c = SupServe s"
    using assms(1) wds by (cases "cl_sup c") (simp_all add: client_inv_def sup_shape_def quiet_def)
  show v: "wd_verdict (cl_wds c ! i) = None" using st assms(1) wds i by (simp add: client_inv_def)
  show "cl_reader c = RdRecv" "m_closed (cl_mach c) \<or> m_cur (cl_mach c) = StateOnline"
    using sv st v assms(1) wds i by (auto simp: client_inv_def sup_shape_def sup_phase_def wd_phase_def)
qed

lemma wd_view_inv:
  assumes "client_inv c" "cl_wds c = w0 # old" "wd_stopped w = wd_stopped w0" "wd_verdict w = wd_verdict w0"
  shows "client_inv (c\<lparr>cl_wds := w # old\<rparr>)"
proof -
  have "quiet w = quiet w0" "wd_phase cur w = wd_phase cur w0" for cur
    using assms(3,4) by (simp_all add: quiet_def wd_phase_def)
  then have "sup_shape pc (w # old) rd = sup_shape pc (w0 # old) rd"
    "sup_phase pc (w # old) cur = sup_phase pc (w0 # old) cur" for pc rd cur
    using assms(3,4) by (cases pc; simp add: sup_shape_def sup_phase_def)+
  then show ?thesis using assms by (simp add: client_inv_def)
qed

text \<open>A step of one watchdog's goroutine: a stopped watchdog keeps its verdict, and a running
  one may claim a verdict that fits the machine's state.\<close>

lemma wd_update_inv:
  assumes inv: "client_inv c" and i: "i < length (cl_wds c)"
    and stopped: "wd_stopped (cl_wds c ! i) \<Longrightarrow>
          wd_stopped (f (cl_wds c ! i)) \<and> wd_verdict (f (cl_wds c ! i)) = wd_verdict (cl_wds c ! i)"
    and running: "\<not> wd_stopped (cl_wds c ! i) \<Longrightarrow> wd_verdict (cl_wds c ! i) = None \<Longrightarrow>
          m_closed (cl_mach c) \<or> m_cur (cl_mach c) = StateOnline \<Longrightarrow>
          (wd_stopped (f (cl_wds c ! i)) \<or> wd_verdict (f (cl_wds c ! i)) = None)
          \<and> (m_closed (cl_mach c) \<or> wd_phase (m_cur (cl_mach c)) (f (cl_wds c ! i)))"
  shows "client_inv (update_wd i f c)"
proof -
  obtain w0 old where wds: "cl_wds c = w0 # old" using i by (cases "cl_wds c") auto
  have old: "list_all quiet old" using inv wds by (simp add: client_inv_def)
  show ?thesis
  proof (cases "wd_stopped (cl_wds c ! i)")
    case False
    note u = unstopped_is_serving [OF inv i False]
    then obtain s where "cl_sup c = SupServe s" by blast
    then show ?thesis
      using inv wds u running [OF False u(4,5)]
      by (auto simp: client_inv_def update_wd_def sup_shape_def sup_phase_def)
  next
    case True
    show ?thesis
    proof (cases i)
      case 0
      then show ?thesis using wd_view_inv [OF inv wds] stopped [OF True] True wds by (simp add: update_wd_def)
    next
      case (Suc j)
      then have "quiet (f (old ! j))" using stopped [OF True] old wds i by (simp add: quiet_def list_all_length)
      then have q: "list_all quiet (old[j := f (old ! j)])" using old by (intro list_all_update_nth)
      then have s: "list_all wd_stopped (old[j := f (old ! j)])" by (rule quiet_stopped)
      have "list_all (\<lambda>w. wd_stopped w \<or> wd_verdict w = None) (old[j := f (old ! j)])"
        using s by (simp add: list_all_iff)
      moreover have "sup_shape pc (w0 # old[j := f (old ! j)]) rd" if "sup_shape pc (w0 # old) rd" for pc rd
        using that q s by (cases pc) (simp_all add: sup_shape_def)
      moreover have "sup_phase pc (w0 # old[j := f (old ! j)]) cur = sup_phase pc (w0 # old) cur" for pc cur
        by (cases pc) (simp_all add: sup_phase_def)
      ultimately show ?thesis using inv wds q Suc by (simp add: client_inv_def update_wd_def)
    qed
  qed
qed

lemma watchDead_step_inv:
  assumes "client_inv c" "i < length (cl_wds c)"
  shows "client_inv (update_wd i (\<lambda>w. watchDead (m_cur (cl_mach c)) gen (w\<lparr>wd_watchers := ws w\<rparr>)) c)"
  by (rule wd_update_inv [OF assms]) (auto simp: watchDead_def watchdog_Stop_def wd_phase_def)

lemma beat_fire_inv:
  assumes "client_inv c" "i < length (cl_wds c)" "beat_fire cfg now (cl_wds c ! i) = Some w"
  shows "client_inv (update_wd i (\<lambda>_. w) c)"
  by (rule wd_update_inv [OF assms(1,2)])
    (use assms(3) in \<open>auto simp: beat_fire_def wd_phase_def split: if_splits\<close>)

lemma beat_sent_inv:
  assumes "client_inv c" "i < length (cl_wds c)"
  shows "client_inv (update_wd i (beat_sent failed) c)"
  by (rule wd_update_inv [OF assms]) (auto simp: beat_sent_def SendFailed_def wd_phase_def split: option.split)

lemma read_frame_inv:
  assumes "client_inv c" "cl_wds c \<noteq> []"
  shows "client_inv (read_frame env c)"
proof -
  have "client_inv (update_wd current_wd (Activity (cl_cfg c) (cl_now c)) c)"
    by (rule wd_update_inv [OF assms(1)])
      (use assms(2) in \<open>auto simp: current_wd_def Activity_def armDeadlineLocked_def wd_phase_def\<close>)
  then show ?thesis
    by (simp add: read_frame_def Let_def client_inv_def split: option.split payload.split)
qed

lemma serving_inv:
  assumes "client_inv c" "cl_sup c = SupServe s"
  obtains w0 old where "cl_wds c = w0 # old"
  using assms by (cases "cl_wds c") (auto simp: client_inv_def sup_shape_def)

lemma read_error_inv:
  assumes "client_inv c" "cl_sup c = SupServe s"
  shows "client_inv (read_error err c)"
proof (cases "wd_stopped (cl_wds c ! current_wd)")
  case True
  obtain w0 old where wds: "cl_wds c = w0 # old" by (rule serving_inv [OF assms])
  then show ?thesis using True assms
    by (simp add: read_error_def client_inv_def sup_shape_def current_wd_def)
next
  case False
  obtain w0 old where wds: "cl_wds c = w0 # old" by (rule serving_inv [OF assms])
  have "client_inv (update_wd current_wd (SendFailed True err) c)"
    by (rule wd_update_inv [OF assms(1)]) (auto simp: wds current_wd_def SendFailed_def wd_phase_def)
  then show ?thesis using False assms wds
    by (simp add: read_error_def client_inv_def sup_shape_def current_wd_def update_wd_def SendFailed_def)
qed

text \<open>A teardown stops a watchdog that has claimed a verdict or whose verdict is done.\<close>

lemma teardown_inv:
  assumes "client_inv c" "cl_sup c = SupServe s'"
    and "wd_stopped (hd (cl_wds c)) \<or> m_closed (cl_mach c) \<or> m_cur (cl_mach c) \<noteq> StateOnline"
  shows "client_inv (teardownSession s c)" "cl_wds (teardownSession s c) \<noteq> []"
    "cl_torn c \<Longrightarrow> wd_stopped (hd (cl_wds c)) \<Longrightarrow> wd_stopped (hd (cl_wds (teardownSession s c)))"
    "\<not> cl_torn c \<Longrightarrow> wd_stopped (hd (cl_wds (teardownSession s c)))"
proof -
  obtain w0 old where wds: "cl_wds c = w0 # old" by (rule serving_inv [OF assms(1,2)])
  have "client_inv (update_wd current_wd watchdog_Stop c)"
    by (rule wd_update_inv [OF assms(1)])
      (use assms(3) in \<open>auto simp: wds current_wd_def watchdog_Stop_def wd_phase_def\<close>)
  then show "client_inv (teardownSession s c)"
    using assms(1) by (simp add: teardownSession_def client_close_def client_inv_def)
  show "cl_wds (teardownSession s c) \<noteq> []"
    "cl_torn c \<Longrightarrow> wd_stopped (hd (cl_wds c)) \<Longrightarrow> wd_stopped (hd (cl_wds (teardownSession s c)))"
    "\<not> cl_torn c \<Longrightarrow> wd_stopped (hd (cl_wds (teardownSession s c)))"
    by (simp_all add: teardownSession_def client_close_def update_wd_def current_wd_def wds watchdog_Stop_def)
qed

lemma teardown_frame [simp]:
  "cl_sup (teardownSession s c) = cl_sup c" "cl_cancelled (teardownSession s c) = cl_cancelled c"
  "cl_now (teardownSession s c) = cl_now c" "cl_cfg (teardownSession s c) = cl_cfg c"
  "cl_mach (teardownSession s c) = cl_mach c" "cl_crashed (teardownSession s c) = cl_crashed c"
  by (simp_all add: teardownSession_def client_close_def update_wd_def)

lemma serve_done_inv:
  assumes "client_inv c" "cl_sup c = SupServe s" "cl_reader c = RdDone"
  shows "client_inv (serve_done draw s c)"
proof -
  have st: "wd_stopped (hd (cl_wds c))" using assms by (simp add: client_inv_def sup_shape_def)
  let ?t = "teardownSession s c"
  have t: "client_inv ?t" "cl_wds ?t \<noteq> []" "wd_stopped (hd (cl_wds ?t))"
    using teardown_inv [OF assms(1,2), of s] st by (cases "cl_torn c"; simp)+
  then obtain w0 old where wds: "cl_wds ?t = w0 # old" by (cases "cl_wds ?t") auto
  then have "list_all wd_stopped (cl_wds ?t)" using t by (auto simp: client_inv_def intro: quiet_stopped)
  then have "client_inv (?t\<lparr>cl_sess := x, cl_sup := pc, cl_reader := RdIdle\<rparr>)"
    if "pc = SupExit \<or> (\<exists>n d. pc = SupBackoff n d)" for x pc
    using that t wds assms(2) by (auto simp: client_inv_def sup_shape_def sup_phase_def)
  note this [of _ "cl_sess ?t"] this [of _ None]
  then show ?thesis
    by (simp add: serve_done_def Let_def clearSession_def enter_backoff_def backoff_delay_def)
qed

lemma serve_hint_inv:
  assumes "client_inv c" "cl_sup c = SupServe s"
  shows "client_inv (serve_hint s c)"
proof -
  let ?c = "c\<lparr>cl_hints := cl_hints c - 1\<rparr>"
  have c: "client_inv ?c" "cl_sup ?c = SupServe s" using assms by (simp_all add: client_inv_def)
  show ?thesis using teardown_inv(1) [OF c] c(1) by (auto simp: serve_hint_def Let_def)
qed

lemma pending_is_current:
  assumes "client_inv c" "i < length (cl_wds c)" "wd_verdict (cl_wds c ! i) \<noteq> None"
  obtains w0 old where "i = 0" "cl_wds c = w0 # old" "wd_stopped w0" "wd_verdict w0 = wd_verdict (cl_wds c ! i)"
    "cl_sup c = SupExit \<or> (\<exists>n d. cl_sup c = SupBackoff n d) \<or> (\<exists>s. cl_sup c = SupServe s)"
    "m_closed (cl_mach c) \<or> wd_phase (m_cur (cl_mach c)) w0"
proof -
  obtain w0 old where wds: "cl_wds c = w0 # old" using assms(2) by (cases "cl_wds c") auto
  have "list_all quiet old" using assms(1) wds by (simp add: client_inv_def)
  then have i: "i = 0" using assms(2,3) wds by (cases i) (auto simp: list_all_length quiet_def)
  have v: "wd_verdict w0 \<noteq> None" using assms(3) wds i by simp
  then have st: "wd_stopped w0" using assms(1) wds by (auto simp: client_inv_def)
  have pc: "cl_sup c = SupExit \<or> (\<exists>n d. cl_sup c = SupBackoff n d) \<or> (\<exists>s. cl_sup c = SupServe s)"
    using assms(1) wds v by (cases "cl_sup c") (simp_all add: client_inv_def sup_shape_def quiet_def)
  then have "m_closed (cl_mach c) \<or> wd_phase (m_cur (cl_mach c)) w0"
    using assms(1) wds v by (auto simp: client_inv_def sup_phase_def)
  then show thesis using that [OF i wds st _ pc] wds i by simp
qed

lemma verdict_drive_inv:
  assumes inv: "client_inv c" and wds: "cl_wds c = w0 # old"
    and pc: "cl_sup c = SupExit \<or> (\<exists>n d. cl_sup c = SupBackoff n d) \<or> (\<exists>s. cl_sup c = SupServe s)"
    and w: "wd_stopped w" "wd_stopped w0"
    and legal: "m_closed (cl_mach c) \<or> canTransition (m_cur (cl_mach c)) to"
    and phase: "m_closed (cl_mach c) \<or> wd_phase to w"
  shows "client_inv ((snd (client_Transition to reason c))\<lparr>cl_wds := w # old, cl_reader := RdDone\<rparr>)"
    and "client_inv ((snd (client_Transition to reason c))\<lparr>cl_wds := w # old\<rparr>)"
proof -
  let ?c = "snd (client_Transition to reason c)"
  have cur: "\<not> cl_crashed ?c" "m_closed (cl_mach c) \<or> m_cur (cl_mach ?c) = to"
    using inv legal client_Transition_result(2,3) [of to reason c] by (auto simp: client_inv_def)
  then show "client_inv (?c\<lparr>cl_wds := w # old, cl_reader := RdDone\<rparr>)" "client_inv (?c\<lparr>cl_wds := w # old\<rparr>)"
    using inv wds pc w phase
    by (auto simp: client_inv_def sup_shape_def sup_phase_def)
qed

lemma verdict_step_inv:
  assumes "client_inv c" "i < length (cl_wds c)"
  shows "client_inv (verdict_step interval i c)"
proof (cases "wd_verdict (cl_wds c ! i)")
  case None
  then show ?thesis using assms(1) by (simp add: verdict_step_def)
next
  case (Some v)
  then have "wd_verdict (cl_wds c ! i) \<noteq> None" by simp
  then obtain w0 old where p: "i = 0" "cl_wds c = w0 # old" "wd_stopped w0" "wd_verdict w0 = Some v"
    "cl_sup c = SupExit \<or> (\<exists>n d. cl_sup c = SupBackoff n d) \<or> (\<exists>s. cl_sup c = SupServe s)"
    "m_closed (cl_mach c) \<or> wd_phase (m_cur (cl_mach c)) w0"
    using pending_is_current [OF assms] Some by metis
  show ?thesis
  proof (cases v)
    case (ClaimedDisconnect reason by_reader)
    let ?w = "watchdog_Stop (w0\<lparr>wd_verdict := None\<rparr>)"
    have "wd_stopped ?w" "m_closed (cl_mach c) \<or> canTransition (m_cur (cl_mach c)) StateDisconnected"
      "m_closed (cl_mach c) \<or> wd_phase StateDisconnected ?w"
      using p(4,6) ClaimedDisconnect by (auto simp: watchdog_Stop_def wd_phase_def)
    note drive = verdict_drive_inv [OF assms(1) p(2,5) this(1) p(3) this(2,3), of reason]
    show ?thesis
      using drive p(1,2,4) ClaimedDisconnect by (simp add: verdict_step_def Let_def update_wd_def)
  next
    case ClaimedSilence
    let ?r = "''no inbound traffic for '' @ interval"
    obtain r c1 where tr: "client_Transition StateDegraded ?r c = (r, c1)" by fastforce
    have rc: "r = MachineClosed \<longleftrightarrow> m_closed (cl_mach c)"
      using client_Transition_result(1) [of StateDegraded ?r c] tr by simp
    define w where "w = (if r = MachineClosed then watchdog_Stop (w0\<lparr>wd_verdict := None\<rparr>)
      else w0\<lparr>wd_verdict := Some (ClaimedDisconnect ''dead peer: tearing down deliberately'' False)\<rparr>)"
    have "client_inv ((snd (client_Transition StateDegraded ?r c))\<lparr>cl_wds := w # old\<rparr>)"
      by (rule verdict_drive_inv(2) [OF assms(1) p(2,5) _ p(3)])
        (use p(3,4,6) rc ClaimedSilence in \<open>auto simp: w_def watchdog_Stop_def wd_phase_def\<close>)
    moreover have "cl_wds c1 = w0 # old"
      using client_Transition_keeps(2) [of StateDegraded ?r c, unfolded tr] p(2) by simp
    ultimately show ?thesis
      using p(1,2,4) ClaimedSilence tr
      by (cases r) (simp_all add: verdict_step_def update_wd_def w_def)
  qed
qed

lemma send_inv: "client_inv c \<Longrightarrow> client_inv (snd (client_Send ok env c))"
  by (simp add: client_Send_def client_inv_def split: option.split)

lemma client_step_inv:
  assumes "client_step True c c'" "client_inv c"
  shows "client_inv c'"
  using assms
proof (induction rule: client_step.induct)
  case (top c n)
  note q = solo_inv [OF top(2)]
  show ?case
    using top q client_Transition_result(2,3) [of StateConnecting "''dial attempt started''" c]
    by (intro quiet_inv) (auto simp: run_top_eq sup_phase_def solo_def)
next
  case (dial_failed c n draw err)
  then show ?case using solo_inv [OF dial_failed(2)]
    by (intro run_failed_inv) (auto simp: sup_phase_def solo_def)
next
  case (dial_ok c n)
  then show ?case using solo_inv [OF dial_ok(2)] by (intro quiet_inv) (auto simp: sup_phase_def solo_def)
next
  case (dialed c n s)
  then show ?case
    using solo_inv [OF dialed(2)] client_Transition_result(2,3) [of StateHandshaking "''transport established''" c]
    by (intro quiet_inv) (auto simp: run_dialed_eq Let_def client_close_def sup_phase_def solo_def)
next
  case (set_inflight c n s)
  then show ?case using solo_inv [OF set_inflight(2)] by (intro quiet_inv) (auto simp: sup_phase_def solo_def)
next
  case (hello_sent c n s)
  then show ?case using solo_inv [OF hello_sent(2)] by (intro quiet_inv) (auto simp: sup_phase_def solo_def)
next
  case (hello_failed c n s draw err)
  then show ?case using solo_inv [OF hello_failed(2)]
    by (intro handshake_failed_inv) (auto simp: sup_phase_def solo_def)
next
  case (shake_timeout c n s d draw timeout)
  then show ?case using solo_inv [OF shake_timeout(3)]
    by (intro handshake_failed_inv) (auto simp: sup_phase_def solo_def)
next
  case (shake_quit c n s d draw)
  then show ?case using solo_inv [OF shake_quit(3)]
    by (intro handshake_failed_inv) (auto simp: sup_phase_def solo_def)
next
  case (shake_error c n s d draw err)
  then show ?case using solo_inv [OF shake_error(2)]
    by (intro handshake_failed_inv) (auto simp: sup_phase_def solo_def)
next
  case (install c s device)
  then show ?case using solo_inv [OF install(2)] by (intro quiet_inv) (auto simp: sup_phase_def solo_def)
next
  case (online c s)
  then show ?case
    using solo_inv [OF online(2)] client_Transition_result(2,3) [of StateOnline "''handshake completed''" c]
    by (intro quiet_inv) (auto simp: run_online_eq Let_def client_close_def sup_phase_def solo_def)
next
  case (frame c s env)
  then show ?case using serving_inv [OF frame(4,1)] by (metis read_frame_inv list.distinct(1))
next
  case (backoff_over c n d)
  have "list_all quiet (cl_wds c)"
    using backoff_over by (auto simp: client_inv_def sup_shape_def verdict_pending_def list_all_iff list_ex_iff quiet_def)
  then show ?case using backoff_over quiet_phase [of "cl_wds c"]
    by (intro quiet_inv) (auto simp: client_inv_def sup_phase_def solo_def split: if_splits)
next
  case (backoff_quit c n d)
  then show ?case by (auto simp: client_inv_def sup_shape_def sup_phase_def split: if_splits)
next
  case (send ok env c r c')
  then show ?case using send_inv [of c ok env] by simp
next
  case (ack c ok pos)
  moreover have "client_inv (c\<lparr>cl_acked := x\<rparr>)" for x using ack by (simp add: client_inv_def)
  ultimately show ?case by (simp add: Acknowledge_def send_inv)
next
  case (stop c)
  then show ?case by (simp add: stop_step_def client_inv_def split: stop_pc.split)
next
  case (tick c now')
  then show ?case by (simp add: client_inv_def)
next
  case (machine_close c)
  then show ?case by (simp add: client_inv_def)
qed (simp_all add: handshake_reply_inv serve_start_inv serve_done_inv serve_hint_inv read_error_inv
    watchDead_step_inv beat_fire_inv beat_sent_inv verdict_step_inv)

lemma client_reach_inv: "client_reach True c c' \<Longrightarrow> client_inv c \<Longrightarrow> client_inv c'"
  by (induction rule: client_reach.induct) (use client_step_inv in blast)+

lemma NewClient_inv: "NewClient cfg NewMachine now = Ok c \<Longrightarrow> client_inv c"
  by (auto simp: NewClient_def NewMachine_def client_inv_def sup_shape_def sup_phase_def split: sum.splits)

text \<open>
  C7. The supervisor, the reader, the heartbeat loop, the silence watchers, user calls,
  \<^verbatim>\<open>Stop\<close> and a closing machine may interleave in any order: as long as a verdict
  that has been claimed reaches the machine before the next retry starts, no
  goroutine takes an illegal edge, so the process never panics; and while the
  supervisor runs on an open machine, online or degraded is shown only while a
  session is being served or its death is being recorded.
\<close>

theorem no_illegal_transition:
  assumes "NewClient cfg NewMachine now = Ok c0" "client_reach True c0 c"
  shows "\<not> cl_crashed c
    \<and> (\<not> m_closed (cl_mach c) \<and> cl_sup c \<noteq> SupExit \<and> m_cur (cl_mach c) \<in> {StateOnline, StateDegraded} \<longrightarrow>
         (\<exists>s. cl_sup c = SupOnline s \<or> cl_sup c = SupServe s) \<or> verdict_pending c)"
proof -
  have inv: "client_inv c" using client_reach_inv [OF assms(2)] NewClient_inv [OF assms(1)] by blast
  have "verdict_pending c" if "cl_sup c = SupBackoff n d" "\<not> m_closed (cl_mach c)"
    "m_cur (cl_mach c) \<in> {StateOnline, StateDegraded}" for n d
  proof -
    from that inv obtain w0 old where "cl_wds c = w0 # old" "wd_stopped w0" "wd_phase (m_cur (cl_mach c)) w0"
      by (cases "cl_wds c") (auto simp: client_inv_def sup_phase_def sup_shape_def)
    then show ?thesis using that(3) by (auto simp: verdict_pending_def wd_phase_def split: option.splits)
  qed
  then show ?thesis
    using inv by (cases "cl_sup c") (auto simp: client_inv_def sup_phase_def)
qed

section \<open>Two runs\<close>

declare next_slot.simps [code]

text \<open>A client that has dialled, and the same client after a complete handshake.\<close>

definition run_connected :: client where
  "run_connected = (let c = projr (NewClient DefaultConfig NewMachine 0);
      c = run_top 0 c; c = c\<lparr>cl_sup := SupDialed 0 (cl_dials c), cl_dials := cl_dials c + 1\<rparr>
    in run_dialed 0 0 c)"

definition after_handshake :: "client \<Rightarrow> client" where
  "after_handshake c = (let c = c\<lparr>cl_inflight := Some 0, cl_sup := SupHello 0 0\<rparr>;
      c = c\<lparr>cl_sent := cl_sent c @ [(0, hello_envelope c)],
            cl_sup := SupShake 0 0 (cl_now c + cfg_HandshakeTimeout (cl_cfg c))\<rparr>;
      c = handshake_reply (\<lambda>_. 0) 0 0 (envelope_of (HelloAck ''me'' None 0 1)) c;
      c = c\<lparr>cl_sess := Some 0, cl_inflight := None, cl_identity := ''me'', cl_sup := SupInstalled 0\<rparr>;
      c = run_online 0 c
    in serve_start (\<lambda>_. 0) 0 0 c)"

lemma run_connected_reach:
  "client_reach t (projr (NewClient DefaultConfig NewMachine 0)) run_connected"
proof -
  let ?c0 = "projr (NewClient DefaultConfig NewMachine 0)"
  let ?c1 = "run_top 0 ?c0"
  let ?c2 = "?c1\<lparr>cl_sup := SupDialed 0 (cl_dials ?c1), cl_dials := cl_dials ?c1 + 1\<rparr>"
  have "client_step t ?c0 ?c1" by (rule client_step.top) code_simp
  moreover have "client_step t ?c1 ?c2" by (rule client_step.dial_ok) code_simp
  moreover have "client_step t ?c2 (run_dialed 0 0 ?c2)" by (rule client_step.dialed) code_simp
  moreover have "\<not> cl_crashed ?c0" "\<not> cl_crashed ?c1" "\<not> cl_crashed ?c2" by code_simp+
  ultimately show ?thesis
    unfolding run_connected_def Let_def by (metis client_reach.here client_reach.step)
qed

definition run_stopped :: client where
  "run_stopped = stop_step (stop_step (stop_step (stop_step run_connected)))"

lemma run_stopped_reach: "client_reach t (projr (NewClient DefaultConfig NewMachine 0)) run_stopped"
proof -
  let ?s = "\<lambda>n. (stop_step ^^ n) run_connected"
  have "client_step t (?s n) (?s (Suc n))" for n using client_step.stop [of t "?s n"] by simp
  moreover have "\<not> cl_crashed (?s n)" for n
  proof (induction n)
    case (Suc n)
    then show ?case by (simp add: stop_step_def split: stop_pc.split)
  qed (simp, code_simp)
  ultimately have "client_reach t (projr (NewClient DefaultConfig NewMachine 0)) (?s n)" for n
    by (induction n) (simp_all add: run_connected_reach, metis client_reach.step funpow.simps(2) comp_apply)
  from this [of 4] show ?thesis by (simp add: run_stopped_def numeral_eq_Suc)
qed

lemma after_handshake_reach:
  assumes "client_reach t c0 c" "c = run_connected \<or> c = run_stopped"
  shows "client_reach t c0 (after_handshake c)"
proof -
  let ?c1 = "c\<lparr>cl_inflight := Some 0, cl_sup := SupHello 0 0\<rparr>"
  let ?c2 = "?c1\<lparr>cl_sent := cl_sent ?c1 @ [(0, hello_envelope ?c1)],
            cl_sup := SupShake 0 0 (cl_now ?c1 + cfg_HandshakeTimeout (cl_cfg ?c1))\<rparr>"
  let ?c3 = "handshake_reply (\<lambda>_. 0) 0 0 (envelope_of (HelloAck ''me'' None 0 1)) ?c2"
  let ?c4 = "?c3\<lparr>cl_sess := Some 0, cl_inflight := None, cl_identity := ''me'', cl_sup := SupInstalled 0\<rparr>"
  let ?c5 = "run_online 0 ?c4"
  have conn: "cl_sup c = SupConnected 0 0" "\<not> cl_crashed c" "0 \<notin> cl_dead c"
    using assms(2) by (elim disjE; simp only:; code_simp)+
  have acked: "?c3 = ?c2\<lparr>cl_sup := SupAcked 0 ''me''\<rparr>"
    by (simp add: handshake_reply_def version_supported_iff)
  have on: "cl_sup ?c5 = SupOnline 0 \<and> \<not> cl_crashed ?c5"
    using assms(2) by (elim disjE) (simp only:; code_simp)+
  have "client_step t c ?c1" using conn by (intro client_step.set_inflight)
  moreover have "client_step t ?c1 ?c2" by (rule client_step.hello_sent) simp
  moreover have "client_step t ?c2 ?c3" using conn by (intro client_step.shake_reply) simp_all
  moreover have "client_step t ?c3 ?c4" by (rule client_step.install) (simp only: acked, simp)
  moreover have "client_step t ?c4 ?c5" by (rule client_step.online) simp
  moreover have "client_step t ?c5 (serve_start (\<lambda>_. 0) 0 0 ?c5)" using on by (intro client_step.start_serving) simp_all
  moreover have "\<not> cl_crashed ?c1" "\<not> cl_crashed ?c2" "\<not> cl_crashed ?c3" "\<not> cl_crashed ?c4"
    unfolding acked using conn by simp_all
  ultimately show ?thesis
    unfolding after_handshake_def Let_def using assms(1) conn on by (meson client_reach.step)
qed

text \<open>
  The hypothesis on the retry cannot be dropped: when the heartbeat's failure has
  been claimed and the reader fails too, the supervisor leaves the session at
  once, and a retry whose delay is over before the claimed verdict reached the
  machine asks for connecting while the machine is still online, which panics.
\<close>

theorem retry_can_overtake_a_verdict:
  "\<exists>c. client_reach False (projr (NewClient DefaultConfig NewMachine 0)) c \<and> cl_crashed c"
proof -
  let ?c0 = "projr (NewClient DefaultConfig NewMachine 0)"
  define c1 where "c1 = after_handshake run_connected"
  define c2 where "c2 = c1\<lparr>cl_now := 15 * second\<rparr>"
  define w where "w = the (beat_fire (cl_cfg c2) (cl_now c2) (cl_wds c2 ! 0))"
  define c3 where "c3 = update_wd 0 (\<lambda>_. w) c2"
  define c4 where "c4 = update_wd 0 (beat_sent (Some ''broken pipe'')) c3"
  define c5 where "c5 = read_error ''EOF'' c4"
  define c6 where "c6 = serve_done (\<lambda>_. 0) 0 c5"
  define c7 where "c7 = c6\<lparr>cl_sup := SupTop 1\<rparr>"
  note d = c7_def c6_def c5_def c4_def c3_def w_def c2_def c1_def
  have "client_reach False ?c0 c1"
    unfolding c1_def by (rule after_handshake_reach [OF run_connected_reach]) simp
  moreover have "\<not> cl_crashed c1 \<and> \<not> cl_crashed c2 \<and> \<not> cl_crashed c3 \<and> \<not> cl_crashed c4 \<and> \<not> cl_crashed c5
      \<and> \<not> cl_crashed c6 \<and> \<not> cl_crashed c7"
    unfolding d by code_simp
  moreover have "client_step False c1 c2"
    unfolding c2_def by (rule client_step.tick) (unfold c1_def, code_simp)
  moreover have "client_step False c2 c3"
    unfolding c3_def by (rule client_step.beat) (unfold w_def c2_def c1_def, code_simp+)
  moreover have "client_step False c3 c4"
    unfolding c4_def by (rule client_step.beat_send) (unfold c3_def w_def c2_def c1_def, code_simp+)
  moreover have "client_step False c4 c5"
    unfolding c5_def by (rule client_step.recv_error [where s = 0]) (unfold d, code_simp+)
  moreover have "client_step False c5 c6"
    unfolding c6_def by (rule client_step.served) (unfold d, code_simp+)
  moreover have "client_step False c6 (c6\<lparr>cl_sup := SupTop (0 + 1)\<rparr>)"
    by (rule client_step.backoff_over [where d = "15 * second"]) (unfold d, code_simp+)
  then have "client_step False c6 c7" by (simp add: c7_def)
  moreover have "client_step False c7 (run_top 1 c7)" by (rule client_step.top) (simp add: c7_def)
  moreover have "cl_crashed (run_top 1 c7)" unfolding d by code_simp
  ultimately show ?thesis by (meson client_reach.step)
qed

text \<open>
  \<^verbatim>\<open>Stop\<close> can miss a session: when it takes its snapshot after the dial has returned
  and before the session is recorded, it closes nothing, and a handshake whose
  reply is picked first goes online; \<^verbatim>\<open>Stop\<close> then waits for a supervisor that is
  serving an open session on an online machine.
\<close>

theorem stop_can_miss_a_session:
  "\<exists>c s. client_reach True (projr (NewClient DefaultConfig NewMachine 0)) c
     \<and> cl_stop c = StopJoining \<and> cl_sup c = SupServe s \<and> s \<notin> cl_dead c
     \<and> cl_reader c = RdRecv \<and> m_cur (cl_mach c) = StateOnline \<and> \<not> verdict_pending c"
proof (intro exI conjI)
  show "client_reach True (projr (NewClient DefaultConfig NewMachine 0)) (after_handshake run_stopped)"
    by (rule after_handshake_reach [OF run_stopped_reach]) simp
  show "cl_stop (after_handshake run_stopped) = StopJoining" by code_simp
  show "cl_sup (after_handshake run_stopped) = SupServe 0" by code_simp
  show "0 \<notin> cl_dead (after_handshake run_stopped)" by code_simp
  show "cl_reader (after_handshake run_stopped) = RdRecv" by code_simp
  show "m_cur (cl_mach (after_handshake run_stopped)) = StateOnline" by code_simp
  show "\<not> verdict_pending (after_handshake run_stopped)" by code_simp
qed

theorem no_illegal_transition_witness:
  "\<not> cl_crashed (after_handshake run_stopped) \<and> m_cur (cl_mach (after_handshake run_stopped)) = StateOnline"
proof -
  have "NewClient DefaultConfig NewMachine 0 = Ok (projr (NewClient DefaultConfig NewMachine 0))" by code_simp
  moreover have "client_reach True (projr (NewClient DefaultConfig NewMachine 0)) (after_handshake run_stopped)"
    by (rule after_handshake_reach [OF run_stopped_reach]) simp
  ultimately have "\<not> cl_crashed (after_handshake run_stopped)" by (rule no_illegal_transition [THEN conjunct1])
  moreover have "m_cur (cl_mach (after_handshake run_stopped)) = StateOnline" by code_simp
  ultimately show ?thesis by simp
qed

section \<open>Heartbeat slots\<close>

lemma next_slot_returns:
  assumes "0 < period"
  shows "\<exists>k. next_slot period now next = Some (next + int k * period) \<and> now < next + int k * period
    \<and> (k = 0 \<or> next + int k * period \<le> now + period)"
proof (induction "nat (now - next + 1)" arbitrary: "next" rule: less_induct)
  case less
  show ?case
  proof (cases "next \<le> now")
    case False
    then show ?thesis by (intro exI [of _ 0]) (simp add: next_slot.simps)
  next
    case True
    then have "nat (now - (next + period) + 1) < nat (now - next + 1)" using assms by simp
    from less [OF this] obtain k where
      "next_slot period now (next + period) = Some (next + period + int k * period)"
      "now < next + period + int k * period" "k = 0 \<or> next + period + int k * period \<le> now + period" by blast
    then show ?thesis using True
      by (intro exI [of _ "Suc k"]) (auto simp: next_slot.simps [of period now "next"] algebra_simps)
  qed
qed

text \<open>
  C33. The heartbeat loop always arms its next beat: with a valid configuration the
  slot loop ends, the new slot lies strictly in the future and at most one
  period away when slots were missed, on the grid of the watchdog's start; a
  stopped watchdog arms nothing and its loop ends without a send.
\<close>

theorem heartbeat_slot_terminates:
  assumes "config_validate cfg = Ok ()"
  shows "\<exists>w' k. beat_fire cfg now w = Some w' \<and>
     (if wd_stopped w then wd_beat w' = BeatExit \<and> wd_nextBeat w' = wd_nextBeat w
      else wd_beat w' = BeatSend \<and> wd_hbTimer w' = wd_nextBeat w' \<and> now < wd_nextBeat w'
         \<and> wd_nextBeat w' = wd_nextBeat w + int k * cfg_HeartbeatPeriod cfg
         \<and> (now < wd_nextBeat w \<longrightarrow> k = 0) \<and> (k \<noteq> 0 \<longrightarrow> wd_nextBeat w' \<le> now + cfg_HeartbeatPeriod cfg))"
proof (cases "wd_stopped w")
  case True
  then show ?thesis by (simp add: beat_fire_def)
next
  case False
  have p: "0 < cfg_HeartbeatPeriod cfg" using assms by (simp add: config_validate_iff)
  obtain k where k: "next_slot (cfg_HeartbeatPeriod cfg) now (wd_nextBeat w) = Some (wd_nextBeat w + int k * cfg_HeartbeatPeriod cfg)"
    "now < wd_nextBeat w + int k * cfg_HeartbeatPeriod cfg"
    "k = 0 \<or> wd_nextBeat w + int k * cfg_HeartbeatPeriod cfg \<le> now + cfg_HeartbeatPeriod cfg"
    using next_slot_returns [OF p] by blast
  have "k = 0" if "now < wd_nextBeat w"
    using k(1) that p by (simp add: next_slot.simps [of _ now "wd_nextBeat w"])
  then show ?thesis using False k by (auto simp: beat_fire_def intro!: exI [of _ k])
qed

theorem heartbeat_slot_terminates_witness:
  "\<exists>w'. beat_fire DefaultConfig (100 * second) (projr (StartWatchdog DefaultConfig 0)) = Some w'
     \<and> wd_nextBeat w' > 100 * second"
  using heartbeat_slot_terminates [OF DefaultConfig_valid, of "100 * second" "projr (StartWatchdog DefaultConfig 0)"]
  by (auto simp: StartWatchdog_def DefaultConfig_valid armDeadlineLocked_def)

section \<open>Silence\<close>





section \<open>Acknowledged positions\<close>

lemma step_acked: "client_step t c c' \<Longrightarrow> cl_acked c \<le> cl_acked c'"
proof (induction rule: client_step.induct)
  case (ack c ok pos)
  then show ?case by (auto simp: Acknowledge_def client_Send_def split: option.split)
next
  case (send ok env c r c')
  then show ?case by (auto simp: client_Send_def split: option.splits if_splits)
next
  case (verdict i c interval)
  show ?case by (simp add: verdict_step_def Let_def update_wd_def client_Transition_def
        split: option.split verdict.split prod.split transition_result.split)
qed (simp_all add: run_top_eq run_dialed_eq run_online_eq run_failed_def enter_backoff_def handshake_failed_def
    clearInflight_def client_close_def handshake_reply_def serve_start_def serve_done_def serve_hint_def
    teardownSession_def clearSession_def read_frame_def read_error_def update_wd_def stop_step_def Let_def
    split: option.split payload.split sum.split stop_pc.split)

lemma reach_acked: "client_reach t c c' \<Longrightarrow> cl_acked c \<le> cl_acked c'"
  by (induction rule: client_reach.induct) (use step_acked order_trans in blast)+

text \<open>
  Acknowledgements are never forgotten: an acknowledged position is recorded
  whether or not it reaches the wire, no interleaving lowers it, and every later
  handshake asks the coordinator to resume from a position at least as high.
\<close>

theorem handshake_never_rewinds:
  assumes "client_reach t (Acknowledge ok position c) c'"
  shows "position \<le> cl_acked c' \<and> cl_acked c \<le> cl_acked c' \<and>
     hello_envelope c' = envelope_of (Hello clientVersion (cl_acked c') MaxProtocolVersion)"
proof -
  have "cl_acked (Acknowledge ok position c) = max position (cl_acked c)"
    by (auto simp: Acknowledge_def client_Send_def max_def split: option.split)
  then show ?thesis using reach_acked [OF assms] by (simp add: hello_envelope_def max_def split: if_splits)
qed

theorem handshake_never_rewinds_witness:
  "7 \<le> cl_acked (stop_step (Acknowledge False 7 run_connected))"
proof -
  have "client_reach True (Acknowledge False 7 run_connected) (stop_step (Acknowledge False 7 run_connected))"
    by (rule client_reach.step [OF client_reach.here _ client_step.stop]) code_simp
  then show ?thesis using handshake_never_rewinds by blast
qed

section \<open>Calls on a live or dead session\<close>

text \<open>A failed write is returned to the caller and changes nothing else: no verdict is claimed
  and the machine keeps its state.\<close>

lemma write_error_is_no_verdict:
  "cl_sess c = Some s \<Longrightarrow> client_Send False env c = (Err WriteFailed, c)"
  by (simp add: client_Send_def)

text \<open>The identity of the last handshake is still reported after the session is gone.\<close>

lemma identity_survives_the_session:
  "cl_identity (serve_done draw s c) = cl_identity c"
  by (simp add: serve_done_def Let_def clearSession_def teardownSession_def client_close_def update_wd_def
      enter_backoff_def)

end
