(* ===== verification/Ctl.thy ===== *)
theory Ctl
  imports Channels "HOL-Library.Sublist"
begin

text \<open>
  \<^verbatim>\<open>src/internal/ctlsocket/server.go\<close>: the local control socket.  A line of the protocol is
  the JSON value it encodes, its keys in the encoder's order; the text rendering
  and the line scanner are not modelled, a line that does not decode is
  \<^term>\<open>None\<close>.  The four handlers are a record of functions on the client's state
  \<^typ>\<open>'s\<close>.  Accepted connections are numbers; \<open>ct_live\<close> is the server's connection
  map.  A write appends to \<open>cn_out\<close> unless the peer or the deadline fails it.
\<close>

section \<open>Lines\<close>

datatype json = JStr string | JBool bool | JNum int | JNull | JList "json list" | JObj "(string \<times> json) list"

definition json_object :: "(string \<times> json) list \<Rightarrow> (string \<times> json) list \<Rightarrow> json" where
  "json_object base fields = JObj (sort_key fst (fold (\<lambda>(k, v). AList.update k v) fields base))"

definition eventLine :: "string \<Rightarrow> (string \<times> json) list \<Rightarrow> json" where
  "eventLine name fields = json_object [(''type'', JStr ''event''), (''event'', JStr name)] fields"

definition responseValue :: "json option \<Rightarrow> (string \<times> json) list \<Rightarrow> json" where
  "responseValue ident payload =
     json_object [(''type'', JStr ''response'')] (payload @ (case ident of None \<Rightarrow> [] | Some i \<Rightarrow> [(''id'', i)]))"

definition response :: "json option \<Rightarrow> string option \<Rightarrow> json" where
  "response ident err =
     responseValue ident (case err of
        None \<Rightarrow> [(''ok'', JBool True)] | Some e \<Rightarrow> [(''ok'', JBool False), (''error'', JStr e)])"

section \<open>Subscribers\<close>

record subscriber =
  su_cap :: nat
  su_queue :: "json list"
  su_dropped :: nat
  su_notify :: bool
  su_done :: bool

definition newSubscriber :: "nat \<Rightarrow> subscriber" where
  "newSubscriber cap = \<lparr>su_cap = cap, su_queue = [], su_dropped = 0, su_notify = False, su_done = False\<rparr>"

definition enqueue :: "json \<Rightarrow> subscriber \<Rightarrow> subscriber" where
  "enqueue line s =
     (if su_cap s \<le> length (su_queue s) then s\<lparr>su_dropped := su_dropped s + 1, su_notify := True\<rparr>
      else s\<lparr>su_queue := su_queue s @ [line], su_notify := True\<rparr>)"

definition gapLine :: "nat \<Rightarrow> json" where
  "gapLine dropped = eventLine ''gap'' [(''dropped'', JNum (int dropped))]"

definition sub_take :: "subscriber \<Rightarrow> json list \<times> subscriber" where
  "sub_take s =
     ((if su_dropped s > 0 then gapLine (su_dropped s) # su_queue s else su_queue s),
      s\<lparr>su_queue := [], su_dropped := 0\<rparr>)"

definition sub_close :: "subscriber \<Rightarrow> subscriber" where "sub_close s = s\<lparr>su_done := True\<rparr>"

definition sub_pending :: "subscriber \<Rightarrow> nat" where "sub_pending s = length (su_queue s)"

definition droppedCount :: "subscriber \<Rightarrow> nat" where "droppedCount s = su_dropped s"

section \<open>Server and connections\<close>

definition DefaultMaxQueuedEvents :: int where "DefaultMaxQueuedEvents = 256"

record ctl_config = cf_MaxQueuedEvents :: int

definition maxQueued :: "ctl_config \<Rightarrow> nat" where
  "maxQueued c = nat (if cf_MaxQueuedEvents c > 0 then cf_MaxQueuedEvents c else DefaultMaxQueuedEvents)"

record ctl_entry =
  cte_Device :: string
  cte_Online :: bool
  cte_LastSeen :: string
  cte_Status :: string

record 's handlers =
  h_Send :: "string \<Rightarrow> string \<Rightarrow> 's \<Rightarrow> string option \<times> 's"
  h_SetStatus :: "string \<Rightarrow> 's \<Rightarrow> string option \<times> 's"
  h_Presence :: "'s \<Rightarrow> ctl_entry list"
  h_ConnState :: "'s \<Rightarrow> string"

datatype ctl_pump = CpNone | CpWait | CpTake | CpWrite "json list" | CpExit

text \<open>Where the read loop is: between lines, inside \<^verbatim>\<open>subscribe\<close>, or returned.\<close>

datatype ctl_reader = RcIdle | RcRegistered "json option" | RcChecked "json option" | RcGone

record ctl_conn =
  cn_sub :: "subscriber option"
  cn_closed :: bool
  cn_out :: "json list"
  cn_pump :: ctl_pump
  cn_reader :: ctl_reader

record ctl_server =
  ct_cfg :: ctl_config
  ct_objs :: "ctl_conn list"
  ct_live :: "nat list"
  ct_closed :: bool

definition ctl_New :: "ctl_config \<Rightarrow> ctl_server" where
  "ctl_New cfg = \<lparr>ct_cfg = cfg, ct_objs = [], ct_live = [], ct_closed = False\<rparr>"

definition conn_at :: "nat \<Rightarrow> ctl_server \<Rightarrow> ctl_conn" where "conn_at i s = ct_objs s ! i"

definition update_conn :: "nat \<Rightarrow> (ctl_conn \<Rightarrow> ctl_conn) \<Rightarrow> ctl_server \<Rightarrow> ctl_server" where
  "update_conn i f s = s\<lparr>ct_objs := (ct_objs s)[i := f (ct_objs s ! i)]\<rparr>"

definition update_sub :: "(subscriber \<Rightarrow> subscriber) \<Rightarrow> ctl_conn \<Rightarrow> ctl_conn" where
  "update_sub f c = c\<lparr>cn_sub := map_option f (cn_sub c)\<rparr>"

text \<open>One accepted connection of \<^verbatim>\<open>Serve\<close>.\<close>

definition ctl_accept :: "ctl_server \<Rightarrow> ctl_server" where
  "ctl_accept s =
     (let c = \<lparr>cn_sub = None, cn_closed = ct_closed s, cn_out = [], cn_pump = CpNone,
        cn_reader = (if ct_closed s then RcGone else RcIdle)\<rparr>
      in s\<lparr>ct_objs := ct_objs s @ [c],
           ct_live := (if ct_closed s then ct_live s else length (ct_objs s) # ct_live s)\<rparr>)"

definition ctl_shutdown :: "nat \<Rightarrow> ctl_server \<Rightarrow> ctl_server" where
  "ctl_shutdown i s =
     (let s1 = update_conn i (\<lambda>c. (update_sub sub_close c)\<lparr>cn_closed := True\<rparr>) s
      in s1\<lparr>ct_live := removeAll i (ct_live s1)\<rparr>)"

definition ctl_Close :: "ctl_server \<Rightarrow> ctl_server" where
  "ctl_Close s =
     (if ct_closed s then s
      else fold ctl_shutdown (ct_live s) (s\<lparr>ct_closed := True, ct_live := []\<rparr>))"

text \<open>\<open>ok\<close>: the peer took the line before the deadline.\<close>

definition writeLine :: "bool \<Rightarrow> json \<Rightarrow> ctl_conn \<Rightarrow> bool \<times> ctl_conn" where
  "writeLine ok line c =
     (if cn_closed c \<or> \<not> ok then (False, c\<lparr>cn_closed := True\<rparr>) else (True, c\<lparr>cn_out := cn_out c @ [line]\<rparr>))"

definition publish :: "(string \<times> json) list \<Rightarrow> string \<Rightarrow> ctl_server \<Rightarrow> ctl_server" where
  "publish kvs name s =
     (if ct_closed s then s
      else fold (\<lambda>i. update_conn i (update_sub (enqueue (eventLine name kvs)))) (ct_live s) s)"

definition PublishConn :: "string \<Rightarrow> string \<Rightarrow> string \<Rightarrow> string \<Rightarrow> ctl_server \<Rightarrow> ctl_server" where
  "PublishConn from_state to_state reason at =
     publish [(''from'', JStr from_state), (''to'', JStr to_state), (''reason'', JStr reason), (''at'', JStr at)] ''conn''"

definition PublishPresence :: "ctl_entry \<Rightarrow> ctl_server \<Rightarrow> ctl_server" where
  "PublishPresence e =
     publish [(''device'', JStr (cte_Device e)), (''online'', JBool (cte_Online e)),
       (''last_seen'', JStr (cte_LastSeen e)), (''status'', JStr (cte_Status e))] ''presence''"

definition PublishMessage :: "string \<Rightarrow> string \<Rightarrow> string \<Rightarrow> string \<Rightarrow> ctl_server \<Rightarrow> ctl_server" where
  "PublishMessage ident sender recipient conversation =
     publish [(''id'', JStr ident), (''from'', JStr sender), (''to'', JStr recipient),
       (''conversation'', JStr conversation)] ''message''"

section \<open>Requests\<close>

text \<open>The \<^verbatim>\<open>omitempty\<close> fields of an entry are left out when empty.\<close>

definition entry_json :: "ctl_entry \<Rightarrow> json" where
  "entry_json e = JObj ([(''device'', JStr (cte_Device e)), (''online'', JBool (cte_Online e))]
     @ (if cte_LastSeen e = '''' then [] else [(''last_seen'', JStr (cte_LastSeen e))])
     @ (if cte_Status e = '''' then [] else [(''status'', JStr (cte_Status e))]))"

definition roster_json :: "ctl_entry list \<Rightarrow> json" where "roster_json es = JList (map entry_json es)"

record request =
  rq_cmd :: string
  rq_id :: "json option"
  rq_to :: string
  rq_body :: string
  rq_status :: string

definition snapshotLine :: "'s handlers \<Rightarrow> 's \<Rightarrow> json" where
  "snapshotLine h st = eventLine ''snapshot''
     [(''conn'', JObj [(''state'', JStr (h_ConnState h st))]), (''presence'', roster_json (h_Presence h st))]"

text \<open>\<^verbatim>\<open>subscribe\<close> in its three critical sections.  Between them events are published and the
  server may be closed.\<close>

definition subscribe_register :: "json option \<Rightarrow> nat \<Rightarrow> ctl_server \<Rightarrow> json option \<times> ctl_server" where
  "subscribe_register ident i s =
     (if cn_sub (conn_at i s) \<noteq> None then (Some (response ident (Some ''already subscribed'')), s)
      else (None, update_conn i (\<lambda>c. c\<lparr>cn_sub := Some (newSubscriber (maxQueued (ct_cfg s)))\<rparr>) s))"

definition subscribe_check :: "json option \<Rightarrow> nat \<Rightarrow> ctl_server \<Rightarrow> json option \<times> ctl_server" where
  "subscribe_check ident i s =
     (if ct_closed s then (Some (response ident (Some ''server shutting down'')), update_conn i (\<lambda>c. c\<lparr>cn_sub := None\<rparr>) s)
      else (None, s))"

fun write_lines :: "(nat \<Rightarrow> bool) \<Rightarrow> json list \<Rightarrow> ctl_conn \<Rightarrow> bool \<times> ctl_conn" where
  "write_lines oks [] c = (True, c)"
| "write_lines oks (l # ls) c =
     (case writeLine (oks (length ls)) l c of
        (False, c1) \<Rightarrow> (False, c1)
      | (True, c1) \<Rightarrow> write_lines oks ls c1)"

definition subscribe_seed ::
  "'s handlers \<Rightarrow> 's \<Rightarrow> (nat \<Rightarrow> bool) \<Rightarrow> json option \<Rightarrow> nat \<Rightarrow> ctl_server \<Rightarrow> json option \<times> ctl_server" where
  "subscribe_seed h st oks ident i s =
     (case cn_sub (conn_at i s) of
        None \<Rightarrow> (None, s)
      | Some sub \<Rightarrow>
          (case sub_take (enqueue (snapshotLine h st) sub) of
             (batch, sub1) \<Rightarrow>
               (case write_lines oks batch ((conn_at i s)\<lparr>cn_sub := Some sub1\<rparr>) of
                  (False, c1) \<Rightarrow> (None, update_conn i (\<lambda>_. c1) s)
                | (True, c1) \<Rightarrow> (Some (response ident None), update_conn i (\<lambda>_. c1\<lparr>cn_pump := CpWait\<rparr>) s))))"

text \<open>\<^verbatim>\<open>subscribe\<close> undisturbed: \<^term>\<open>None\<close> is the dead connection.\<close>

definition ctl_subscribe ::
  "'s handlers \<Rightarrow> 's \<Rightarrow> (nat \<Rightarrow> bool) \<Rightarrow> json option \<Rightarrow> nat \<Rightarrow> ctl_server \<Rightarrow> json option \<times> ctl_server" where
  "ctl_subscribe h st oks ident i s =
     (case subscribe_register ident i s of
        (Some r, s1) \<Rightarrow> (Some r, s1)
      | (None, s1) \<Rightarrow>
          (case subscribe_check ident i s1 of
             (Some r, s2) \<Rightarrow> (Some r, s2)
           | (None, s2) \<Rightarrow> subscribe_seed h st oks ident i s2))"

definition ctl_dispatch ::
  "'s handlers \<Rightarrow> (nat \<Rightarrow> bool) \<Rightarrow> string \<Rightarrow> request option \<Rightarrow> nat \<Rightarrow> ctl_server \<Rightarrow> 's \<Rightarrow>
     json option \<times> ctl_server \<times> 's" where
  "ctl_dispatch h oks err line i s st =
     (case line of
        None \<Rightarrow> (Some (response None (Some (''malformed request line: '' @ err))), s, st)
      | Some req \<Rightarrow>
          (if rq_cmd req = ''send'' then
             (case h_Send h (rq_to req) (rq_body req) st of (e, st1) \<Rightarrow> (Some (response (rq_id req) e), s, st1))
           else if rq_cmd req = ''status'' then
             (case h_SetStatus h (rq_status req) st of (e, st1) \<Rightarrow> (Some (response (rq_id req) e), s, st1))
           else if rq_cmd req = ''presence'' then
             (Some (responseValue (rq_id req) [(''ok'', JBool True), (''presence'', roster_json (h_Presence h st))]), s, st)
           else if rq_cmd req = ''subscribe'' then
             (case ctl_subscribe h st oks (rq_id req) i s of (r, s1) \<Rightarrow> (r, s1, st))
           else (Some (response (rq_id req) (Some (''unknown cmd '' @ quote_string (rq_cmd req)))), s, st)))"

text \<open>The write of a response and one turn of \<^verbatim>\<open>readLoop\<close> on a non-empty line; a nil response
  or a failed write ends the loop.\<close>

definition set_reader :: "ctl_reader \<Rightarrow> nat \<Rightarrow> ctl_server \<Rightarrow> ctl_server" where
  "set_reader r i = update_conn i (\<lambda>c. c\<lparr>cn_reader := r\<rparr>)"

definition ctl_respond :: "bool \<Rightarrow> json option \<Rightarrow> nat \<Rightarrow> ctl_server \<Rightarrow> ctl_server" where
  "ctl_respond ok resp i s =
     (case resp of
        None \<Rightarrow> set_reader RcGone i (ctl_shutdown i s)
      | Some r \<Rightarrow>
          (case writeLine ok r (conn_at i s) of
             (True, c) \<Rightarrow> set_reader RcIdle i (update_conn i (\<lambda>_. c) s)
           | (False, c) \<Rightarrow> set_reader RcGone i (ctl_shutdown i (update_conn i (\<lambda>_. c) s))))"

definition ctl_read ::
  "'s handlers \<Rightarrow> (nat \<Rightarrow> bool) \<Rightarrow> bool \<Rightarrow> string \<Rightarrow> request option \<Rightarrow> nat \<Rightarrow> ctl_server \<Rightarrow> 's \<Rightarrow> ctl_server \<times> 's" where
  "ctl_read h oks ok err line i s st =
     (case ctl_dispatch h oks err line i s st of (r, s1, st1) \<Rightarrow> (ctl_respond ok r i s1, st1))"

text \<open>One step of the pump of connection \<open>i\<close>: the select (which may pick either ready case),
  the take, the lines of the batch, the re-check.\<close>

definition ctl_pump_step :: "bool \<Rightarrow> bool \<Rightarrow> nat \<Rightarrow> ctl_server \<Rightarrow> ctl_server" where
  "ctl_pump_step pick_done ok i s =
     (let c = conn_at i s in
      case (cn_pump c, cn_sub c) of
        (CpWait, Some sub) \<Rightarrow>
          (if su_done sub \<and> (pick_done \<or> \<not> su_notify sub) then update_conn i (\<lambda>c. c\<lparr>cn_pump := CpExit\<rparr>) s
           else if su_notify sub
           then update_conn i (\<lambda>c. c\<lparr>cn_sub := Some (sub\<lparr>su_notify := False\<rparr>), cn_pump := CpTake\<rparr>) s
           else s)
      | (CpTake, Some sub) \<Rightarrow>
          (case sub_take sub of
             (batch, sub1) \<Rightarrow> update_conn i (\<lambda>c. c\<lparr>cn_sub := Some sub1, cn_pump := CpWrite batch\<rparr>) s)
      | (CpWrite [], Some sub) \<Rightarrow>
          (if sub_pending sub = 0 \<and> su_done sub then update_conn i (\<lambda>c. c\<lparr>cn_pump := CpExit\<rparr>) s
           else update_conn i (\<lambda>c. c\<lparr>cn_pump := CpWait\<rparr>) s)
      | (CpWrite (l # ls), _) \<Rightarrow>
          (case writeLine ok l c of
             (True, c1) \<Rightarrow> update_conn i (\<lambda>_. c1\<lparr>cn_pump := CpWrite ls\<rparr>) s
           | (False, c1) \<Rightarrow> ctl_shutdown i (update_conn i (\<lambda>_. c1\<lparr>cn_pump := CpExit\<rparr>) s))
      | _ \<Rightarrow> s)"

section \<open>Interleavings\<close>

text \<open>The accept loop, any publisher, the read loop and the pump of each connection, and \<^verbatim>\<open>Close\<close>.\<close>

inductive ctl_step :: "'s handlers \<Rightarrow> ctl_server \<times> 's \<Rightarrow> ctl_server \<times> 's \<Rightarrow> bool" for h :: "'s handlers" where
  accept: "ctl_step h (s, st) (ctl_accept s, st)"
| publishing: "ctl_step h (s, st) (publish kvs name s, st)"
| closing: "ctl_step h (s, st) (ctl_Close s, st)"
| hangup: "i < length (ct_objs s) \<Longrightarrow> cn_reader (conn_at i s) = RcIdle \<Longrightarrow>
    ctl_step h (s, st) (set_reader RcGone i (ctl_shutdown i s), st)"
| request: "i < length (ct_objs s) \<Longrightarrow> cn_reader (conn_at i s) = RcIdle \<Longrightarrow>
    line = None \<or> rq_cmd (the line) \<noteq> ''subscribe'' \<Longrightarrow> ctl_step h (s, st) (ctl_read h oks ok err line i s st)"
| resubscribe: "i < length (ct_objs s) \<Longrightarrow> cn_reader (conn_at i s) = RcIdle \<Longrightarrow>
    subscribe_register ident i s = (Some r, s1) \<Longrightarrow> ctl_step h (s, st) (ctl_respond ok (Some r) i s1, st)"
| register: "i < length (ct_objs s) \<Longrightarrow> cn_reader (conn_at i s) = RcIdle \<Longrightarrow>
    subscribe_register ident i s = (None, s1) \<Longrightarrow> ctl_step h (s, st) (set_reader (RcRegistered ident) i s1, st)"
| check_closed: "i < length (ct_objs s) \<Longrightarrow> cn_reader (conn_at i s) = RcRegistered ident \<Longrightarrow>
    subscribe_check ident i s = (Some r, s1) \<Longrightarrow> ctl_step h (s, st) (ctl_respond ok (Some r) i s1, st)"
| check_open: "i < length (ct_objs s) \<Longrightarrow> cn_reader (conn_at i s) = RcRegistered ident \<Longrightarrow>
    subscribe_check ident i s = (None, s1) \<Longrightarrow> ctl_step h (s, st) (set_reader (RcChecked ident) i s1, st)"
| seed: "i < length (ct_objs s) \<Longrightarrow> cn_reader (conn_at i s) = RcChecked ident \<Longrightarrow>
    subscribe_seed h st oks ident i s = (r, s1) \<Longrightarrow> ctl_step h (s, st) (ctl_respond ok r i s1, st)"
| pumping: "i < length (ct_objs s) \<Longrightarrow> ctl_step h (s, st) (ctl_pump_step pick_done ok i s, st)"
| client: "ctl_step h (s, st) (s, st')"

inductive ctl_reach :: "'s handlers \<Rightarrow> ctl_server \<times> 's \<Rightarrow> ctl_server \<times> 's \<Rightarrow> bool" for h :: "'s handlers" where
  ctl_here: "ctl_reach h x x"
| ctl_next: "ctl_reach h x y \<Longrightarrow> ctl_step h y z \<Longrightarrow> ctl_reach h x z"

end
