(* ===== verification/CtlProps.thy ===== *)
theory CtlProps
  imports Ctl
begin

text \<open>
  Properties of the control socket (\<^verbatim>\<open>src/internal/ctlsocket/server.go\<close>): the accounting of
  the bounded event queue, its wake-up discipline and the shutdown under every
  interleaving of the accept loop, publishers, readers and pumps.
\<close>

section \<open>Accounting of one subscriber\<close>




lemma enqueue_simps [simp]:
  "su_cap (enqueue e s) = su_cap s" "su_notify (enqueue e s)" "su_done (enqueue e s) = su_done s"
  by (simp_all add: enqueue_def)

lemma enqueue_queue: "su_queue (enqueue e s) = nb_send (su_cap s) e (su_queue s)"
  by (simp add: enqueue_def nb_send_def)

lemma sub_take_simps [simp]:
  "su_queue (snd (sub_take s)) = []" "su_dropped (snd (sub_take s)) = 0" "su_cap (snd (sub_take s)) = su_cap s"
  "su_notify (snd (sub_take s)) = su_notify s" "su_done (snd (sub_take s)) = su_done s"
  by (simp_all add: sub_take_def)




text \<open>
  The gap is reported on the wrong side: when a full queue makes the
  server drop events, the batch that carries the report puts it in front of events
  that were all published before the lost ones; the lost events lie between this
  batch and the next.
\<close>

theorem gap_precedes_older_events:
  assumes "cap < length es"
  shows "fst (sub_take (fold enqueue es (newSubscriber cap))) = gapLine (length es - cap) # take cap es"
proof -
  have "su_queue (fold enqueue es s) = su_queue s @ take (su_cap s - length (su_queue s)) es
      \<and> su_dropped (fold enqueue es s) = su_dropped s + (length es - (su_cap s - length (su_queue s)))" for es s
  proof (induction es arbitrary: s)
    case (Cons e es)
    have d: "su_dropped (enqueue e s) = su_dropped s + (if su_cap s \<le> length (su_queue s) then 1 else 0)"
      by (simp add: enqueue_def)
    show ?case
    proof (cases "su_cap s \<le> length (su_queue s)")
      case True
      then show ?thesis using Cons.IH [of "enqueue e s"] d by (simp add: enqueue_queue nb_send_def)
    next
      case False
      then have "su_cap s - length (su_queue s) = Suc (su_cap s - Suc (length (su_queue s)))" by simp
      then show ?thesis using Cons.IH [of "enqueue e s"] d False by (simp add: enqueue_queue nb_send_def)
    qed
  qed simp
  then show ?thesis using assms by (simp add: sub_take_def newSubscriber_def)
qed

theorem gap_precedes_older_events_witness:
  "fst (sub_take (fold enqueue [JNum 1, JNum 2] (newSubscriber 1))) = [gapLine 1, JNum 1]"
  using gap_precedes_older_events [of 1 "[JNum 1, JNum 2]"] by simp

section \<open>Wake-ups and shutdown under interleaving\<close>

text \<open>Whatever is queued or counted as dropped has a signal or a take under way.\<close>

definition wake_ok :: "ctl_conn \<Rightarrow> bool" where
  "wake_ok c \<longleftrightarrow> (\<forall>sub. cn_sub c = Some sub \<longrightarrow> length (su_queue sub) \<le> su_cap sub
     \<and> (su_queue sub \<noteq> [] \<or> 0 < su_dropped sub \<longrightarrow> su_notify sub \<or> cn_pump c = CpTake))"

definition subscribing :: "ctl_conn \<Rightarrow> bool" where
  "subscribing c \<longleftrightarrow> (\<exists>x. cn_reader c = RcRegistered x \<or> cn_reader c = RcChecked x)"

text \<open>A connection the server no longer lists is closed and its subscription ended, except
  for a subscription being set up whose check is still to come.\<close>

definition gone_ok :: "bool \<Rightarrow> ctl_conn \<Rightarrow> bool" where
  "gone_ok closed c \<longleftrightarrow> cn_closed c
     \<and> (\<forall>sub. cn_sub c = Some sub \<longrightarrow> su_done sub \<or> (\<exists>x. cn_reader c = RcRegistered x))
     \<and> (closed \<or> cn_reader c = RcGone \<or> cn_reader c = RcIdle \<and> cn_sub c \<noteq> None)"

definition conn_ok :: "bool \<Rightarrow> bool \<Rightarrow> ctl_conn \<Rightarrow> bool" where
  "conn_ok closed live c \<longleftrightarrow> wake_ok c \<and> (cn_pump c \<noteq> CpNone \<longrightarrow> cn_sub c \<noteq> None \<and> \<not> subscribing c)
     \<and> (live \<or> gone_ok closed c)"

definition ctl_inv :: "ctl_server \<Rightarrow> bool" where
  "ctl_inv s \<longleftrightarrow> (ct_closed s \<longrightarrow> ct_live s = [])
     \<and> (\<forall>i < length (ct_objs s). conn_ok (ct_closed s) (i \<in> set (ct_live s)) (conn_at i s))"

lemma update_conn_simps [simp]:
  "ct_live (update_conn i f s) = ct_live s" "ct_closed (update_conn i f s) = ct_closed s"
  "length (ct_objs (update_conn i f s)) = length (ct_objs s)" "ct_cfg (update_conn i f s) = ct_cfg s"
  by (simp_all add: update_conn_def)

lemma conn_at_update [simp]:
  "i < length (ct_objs s) \<Longrightarrow> conn_at j (update_conn i f s) = (if j = i then f (conn_at i s) else conn_at j s)"
  by (auto simp: update_conn_def conn_at_def)

lemma update_conn_twice: "i < length (ct_objs s) \<Longrightarrow> update_conn i g (update_conn i f s) = update_conn i (\<lambda>c. g (f c)) s"
  by (simp add: update_conn_def)

lemma conn_at_live [simp]:
  "conn_at i (s\<lparr>ct_live := l\<rparr>) = conn_at i s" "conn_at i (s\<lparr>ct_closed := b\<rparr>) = conn_at i s"
  by (simp_all add: conn_at_def)

lemma ctl_invD: "ctl_inv s \<Longrightarrow> i < length (ct_objs s) \<Longrightarrow> conn_ok (ct_closed s) (i \<in> set (ct_live s)) (conn_at i s)"
  by (simp add: ctl_inv_def)

lemma inv_update:
  assumes "ctl_inv s" "i < length (ct_objs s)" "conn_ok (ct_closed s) (i \<in> set (ct_live s)) (f (conn_at i s))"
  shows "ctl_inv (update_conn i f s)"
  using assms by (simp add: ctl_inv_def)

text \<open>Changing the record of one connection and dropping it from the map.\<close>

lemma inv_kill:
  assumes "ctl_inv s" "i < length (ct_objs s)" "conn_ok (ct_closed s) False (f (conn_at i s))"
  shows "ctl_inv ((update_conn i f s)\<lparr>ct_live := removeAll i (ct_live s)\<rparr>)"
  using assms by (auto simp: ctl_inv_def)

definition killed :: "ctl_conn \<Rightarrow> ctl_conn" where "killed c = (update_sub sub_close c)\<lparr>cn_closed := True\<rparr>"

lemma shutdown_update: "ctl_shutdown i s = (update_conn i killed s)\<lparr>ct_live := removeAll i (ct_live s)\<rparr>"
  by (simp add: ctl_shutdown_def Let_def killed_def [abs_def])

lemma set_reader_shutdown:
  "i < length (ct_objs s) \<Longrightarrow> set_reader RcGone i (ctl_shutdown i s)
     = (update_conn i (\<lambda>c. (killed c)\<lparr>cn_reader := RcGone\<rparr>) s)\<lparr>ct_live := removeAll i (ct_live s)\<rparr>"
  by (simp add: set_reader_def shutdown_update update_conn_def)

lemma killed_wake [simp]: "wake_ok (killed c) = wake_ok c"
  by (cases "cn_sub c") (auto simp: killed_def wake_ok_def update_sub_def sub_close_def)

lemma killed_fields [simp]:
  "cn_pump (killed c) = cn_pump c" "cn_reader (killed c) = cn_reader c" "cn_closed (killed c)"
  "cn_sub (killed c) = map_option sub_close (cn_sub c)"
  by (simp_all add: killed_def update_sub_def)

lemma hangup_inv:
  assumes "ctl_inv s" "i < length (ct_objs s)" shows "ctl_inv (set_reader RcGone i (ctl_shutdown i s))"
  unfolding set_reader_shutdown [OF assms(2)]
proof (rule inv_kill [OF assms])
  have "conn_ok (ct_closed s) (i \<in> set (ct_live s)) (conn_at i s)" by (rule ctl_invD [OF assms])
  then show "conn_ok (ct_closed s) False ((killed (conn_at i s))\<lparr>cn_reader := RcGone\<rparr>)"
    by (cases "cn_sub (conn_at i s)") (auto simp: conn_ok_def gone_ok_def subscribing_def sub_close_def wake_ok_def)
qed

lemma Close_inv: "ctl_inv s \<Longrightarrow> ctl_inv (ctl_Close s)"
  and Close_closed: "ct_closed (ctl_Close s)"
proof -
  have fold: "ct_closed (fold ctl_shutdown is s1) = ct_closed s1" "ct_live (fold ctl_shutdown is s1) = filter (\<lambda>i. i \<notin> set is) (ct_live s1)"
    "length (ct_objs (fold ctl_shutdown is s1)) = length (ct_objs s1)" for "is" s1
    by (induction "is" arbitrary: s1) (auto simp: shutdown_update removeAll_filter_not_eq intro: filter_cong)
  have at: "conn_at i (fold ctl_shutdown is s1) = (if i \<in> set is then killed (conn_at i s1) else conn_at i s1)"
    if "i < length (ct_objs s1)" for i "is" s1
    using that
  proof (induction "is" arbitrary: s1)
    case (Cons j "is")
    have kk: "killed (killed c) = killed c" for c by (cases "cn_sub c") (simp_all add: killed_def update_sub_def sub_close_def)
    have "conn_at i (ctl_shutdown j s1) = (if i = j then killed (conn_at i s1) else conn_at i s1)"
      using Cons.prems by (cases "j < length (ct_objs s1)") (auto simp: shutdown_update conn_at_def update_conn_def)
    then show ?case using Cons.IH [of "ctl_shutdown j s1"] Cons.prems kk by (simp add: shutdown_update)
  qed simp
  show "ct_closed (ctl_Close s)" by (simp add: ctl_Close_def fold)
  assume inv: "ctl_inv s"
  show "ctl_inv (ctl_Close s)"
  proof (cases "ct_closed s")
    case False
    have "conn_ok True False (conn_at i (ctl_Close s))" if i: "i < length (ct_objs s)" for i
    proof (cases "i \<in> set (ct_live s)")
      case True
      then have "conn_at i (ctl_Close s) = killed (conn_at i s)" using i False at by (simp add: ctl_Close_def)
      moreover have "conn_ok False True (conn_at i s)" using ctl_invD [OF inv i] False True by simp
      ultimately show ?thesis
        by (cases "cn_sub (conn_at i s)") (auto simp: conn_ok_def gone_ok_def sub_close_def subscribing_def)
    next
      case notin: False
      then have "conn_at i (ctl_Close s) = conn_at i s" using i False at by (simp add: ctl_Close_def)
      then show ?thesis using ctl_invD [OF inv i] False notin by (auto simp: conn_ok_def gone_ok_def)
    qed
    then show ?thesis using False by (simp add: ctl_inv_def ctl_Close_def fold)
  qed (use inv in \<open>simp add: ctl_Close_def\<close>)
qed

lemma enqueue_conn_ok:
  "conn_ok closed True c \<Longrightarrow> conn_ok closed True (update_sub (enqueue line) c)"
  by (cases "cn_sub c") (auto simp: conn_ok_def wake_ok_def update_sub_def enqueue_queue subscribing_def)

lemma publish_inv:
  assumes "ctl_inv s" shows "ctl_inv (publish kvs name s)"
proof -
  let ?f = "update_sub (enqueue (eventLine name kvs))"
  have "ctl_inv (fold (\<lambda>i. update_conn i ?f) is s1)" if "ctl_inv s1" "set is \<subseteq> set (ct_live s1)" for "is" s1
    using that
  proof (induction "is" arbitrary: s1)
    case (Cons i "is")
    have "ctl_inv (update_conn i ?f s1)"
    proof (cases "i < length (ct_objs s1)")
      case True
      then show ?thesis using Cons.prems ctl_invD [OF Cons.prems(1) True] enqueue_conn_ok
        by (intro inv_update) auto
    qed (use Cons.prems in \<open>simp add: update_conn_def list_update_beyond\<close>)
    then show ?case using Cons.IH Cons.prems(2) by simp
  qed simp
  then show ?thesis using assms by (simp add: publish_def)
qed

lemma writeLine_keeps:
  assumes "writeLine ok l c = (r, c1)"
  shows "cn_sub c1 = cn_sub c" "cn_pump c1 = cn_pump c" "cn_reader c1 = cn_reader c" "cn_closed c \<Longrightarrow> cn_closed c1 \<and> \<not> r"
    "r \<Longrightarrow> cn_closed c1 = cn_closed c"
  using assms by (auto simp: writeLine_def split: if_splits)

lemma write_lines_keeps:
  "write_lines oks ls c = (r, c1) \<Longrightarrow>
     cn_sub c1 = cn_sub c \<and> cn_pump c1 = cn_pump c \<and> cn_reader c1 = cn_reader c \<and> (cn_closed c \<longrightarrow> cn_closed c1)"
proof (induction oks ls c arbitrary: r c1 rule: write_lines.induct)
  case (2 oks l ls c)
  obtain b c2 where w: "writeLine (oks (length ls)) l c = (b, c2)" by fastforce
  note k = writeLine_keeps [OF w]
  show ?case
  proof (cases b)
    case True
    then have "write_lines oks ls c2 = (r, c1)" using 2(2) w by simp
    then have "cn_sub c1 = cn_sub c2 \<and> cn_pump c1 = cn_pump c2 \<and> cn_reader c1 = cn_reader c2 \<and> (cn_closed c2 \<longrightarrow> cn_closed c1)"
      using 2(1) [OF w [symmetric]] True by simp
    then show ?thesis using k by simp
  next
    case False
    then have "c1 = c2" using 2(2) w by simp
    then show ?thesis using k by simp
  qed
qed simp

lemma wake_ok_cong: "cn_sub c1 = cn_sub c \<Longrightarrow> cn_pump c1 = cn_pump c \<Longrightarrow> wake_ok c1 = wake_ok c"
  by (simp add: wake_ok_def)

lemma respond_inv:
  assumes inv: "ctl_inv s" and i: "i < length (ct_objs s)"
    and c: "wake_ok c" "cn_pump c \<noteq> CpNone \<longrightarrow> cn_sub c \<noteq> None" "i \<in> set (ct_live s) \<or> cn_closed c"
  shows "ctl_inv (ctl_respond ok r i (update_conn i (\<lambda>_. c) s))"
proof -
  have dead: "ctl_inv (set_reader RcGone i (ctl_shutdown i (update_conn i (\<lambda>_. c1) s)))"
    if "wake_ok c1" "cn_pump c1 \<noteq> CpNone \<longrightarrow> cn_sub c1 \<noteq> None" for c1
  proof -
    have "set_reader RcGone i (ctl_shutdown i (update_conn i (\<lambda>_. c1) s))
        = (update_conn i (\<lambda>_. (killed c1)\<lparr>cn_reader := RcGone\<rparr>) s)\<lparr>ct_live := removeAll i (ct_live s)\<rparr>"
      using i by (simp add: set_reader_def shutdown_update update_conn_def)
    also have "ctl_inv \<dots>"
      by (rule inv_kill [OF inv i]) (use that in \<open>cases "cn_sub c1";
        auto simp: conn_ok_def gone_ok_def subscribing_def sub_close_def wake_ok_def\<close>)
    finally show ?thesis .
  qed
  show ?thesis
  proof (cases r)
    case None
    then show ?thesis using dead [OF c(1,2)] by (simp add: ctl_respond_def)
  next
    case (Some l)
    obtain b c1 where w: "writeLine ok l c = (b, c1)" by fastforce
    have k: "wake_ok c1" "cn_pump c1 \<noteq> CpNone \<longrightarrow> cn_sub c1 \<noteq> None"
      using c(1,2) wake_ok_cong [OF writeLine_keeps(1,2) [OF w]] writeLine_keeps(1,2) [OF w] by simp_all
    have r: "ctl_respond ok r i (update_conn i (\<lambda>_. c) s) =
        (if b then set_reader RcIdle i (update_conn i (\<lambda>_. c1) s)
         else set_reader RcGone i (ctl_shutdown i (update_conn i (\<lambda>_. c1) s)))"
      using i w by (cases b) (simp_all add: ctl_respond_def Some update_conn_twice)
    show ?thesis
    proof (cases b)
      case True
      then have "i \<in> set (ct_live s)" using c(3) writeLine_keeps(4) [OF w] by auto
      moreover have "set_reader RcIdle i (update_conn i (\<lambda>_. c1) s) = update_conn i (\<lambda>_. c1\<lparr>cn_reader := RcIdle\<rparr>) s"
        using i by (simp add: set_reader_def update_conn_def)
      ultimately show ?thesis unfolding r using True k
        by (simp, intro inv_update [OF inv i]) (simp add: conn_ok_def subscribing_def wake_ok_def)
    qed (use r dead [OF k] in simp)
  qed
qed

lemma update_conn_same: "update_conn i (\<lambda>_. conn_at i s) s = s"
  by (simp add: update_conn_def conn_at_def)

lemma respond_same_inv:
  assumes "ctl_inv s" "i < length (ct_objs s)" shows "ctl_inv (ctl_respond ok r i s)"
proof -
  have "ctl_inv (ctl_respond ok r i (update_conn i (\<lambda>_. conn_at i s) s))"
    using ctl_invD [OF assms] by (intro respond_inv [OF assms]) (auto simp: conn_ok_def gone_ok_def)
  then show ?thesis by (simp add: update_conn_same)
qed

lemma register_inv:
  assumes "ctl_inv s" "i < length (ct_objs s)" "cn_reader (conn_at i s) = RcIdle"
    and "subscribe_register ident i s = (None, s1)"
  shows "ctl_inv (set_reader (RcRegistered ident) i s1)"
proof -
  have "cn_sub (conn_at i s) = None"
    "s1 = update_conn i (\<lambda>c. c\<lparr>cn_sub := Some (newSubscriber (maxQueued (ct_cfg s)))\<rparr>) s"
    using assms(4) by (auto simp: subscribe_register_def split: if_splits)
  then show ?thesis using ctl_invD [OF assms(1,2)] assms(3) assms(2)
    by (simp add: set_reader_def update_conn_twice, intro inv_update [OF assms(1,2)])
      (auto simp: conn_ok_def gone_ok_def wake_ok_def newSubscriber_def subscribing_def)
qed

lemma check_open_inv:
  assumes "ctl_inv s" "i < length (ct_objs s)" "cn_reader (conn_at i s) = RcRegistered ident"
    and "subscribe_check ident i s = (None, s1)"
  shows "ctl_inv (set_reader (RcChecked ident) i s1)"
proof -
  have "\<not> ct_closed s" "s1 = s" using assms(4) by (auto simp: subscribe_check_def split: if_splits)
  then show ?thesis using ctl_invD [OF assms(1,2)] assms(3)
    by (simp add: set_reader_def, intro inv_update [OF assms(1,2)])
      (auto simp: conn_ok_def gone_ok_def wake_ok_def subscribing_def)
qed

lemma check_closed_inv:
  assumes "ctl_inv s" "i < length (ct_objs s)" "cn_reader (conn_at i s) = RcRegistered ident"
    and "subscribe_check ident i s = (Some r, s1)"
  shows "ctl_inv (ctl_respond ok (Some r) i s1)"
proof -
  let ?c = "(conn_at i s)\<lparr>cn_sub := None\<rparr>"
  have "s1 = update_conn i (\<lambda>_. ?c) s" using assms(2,4) by (auto simp: subscribe_check_def update_conn_def conn_at_def split: if_splits)
  moreover have "cn_pump ?c = CpNone" "i \<in> set (ct_live s) \<or> cn_closed ?c"
    using ctl_invD [OF assms(1,2)] assms(3) by (auto simp: conn_ok_def subscribing_def gone_ok_def)
  ultimately show ?thesis using respond_inv [OF assms(1,2), of ?c] by (simp add: wake_ok_def)
qed

lemma seed_inv:
  assumes "ctl_inv s" "i < length (ct_objs s)" "cn_reader (conn_at i s) = RcChecked ident"
    and "subscribe_seed h st oks ident i s = (r, s1)"
  shows "ctl_inv (ctl_respond ok r i s1)"
proof (cases "cn_sub (conn_at i s)")
  case None
  then show ?thesis using assms(4) respond_same_inv [OF assms(1,2)] by (simp add: subscribe_seed_def)
next
  case (Some sub)
  let ?sub = "snd (sub_take (enqueue (snapshotLine h st) sub))"
  obtain b c1 where w: "write_lines oks (fst (sub_take (enqueue (snapshotLine h st) sub))) ((conn_at i s)\<lparr>cn_sub := Some ?sub\<rparr>) = (b, c1)"
    by fastforce
  have k: "cn_sub c1 = Some ?sub" "i \<in> set (ct_live s) \<or> cn_closed c1"
    using write_lines_keeps [OF w] ctl_invD [OF assms(1,2)] by (auto simp: conn_ok_def gone_ok_def)
  obtain c2 where s1: "s1 = update_conn i (\<lambda>_. c2) s" and c2: "cn_sub c2 = Some ?sub" "cn_closed c2 = cn_closed c1"
    using assms(4) Some w k(1) by (cases b) (auto simp: subscribe_seed_def split_beta)
  then show ?thesis unfolding s1 using k by (intro respond_inv [OF assms(1,2)]) (auto simp: wake_ok_def)
qed

lemma accept_inv: "ctl_inv s \<Longrightarrow> ctl_inv (ctl_accept s)"
proof -
  assume inv: "ctl_inv s"
  have at: "conn_at i (ctl_accept s) = conn_at i s" if "i < length (ct_objs s)" for i
    using that by (simp add: ctl_accept_def conn_at_def nth_append)
  have new: "conn_ok (ct_closed s) (\<not> ct_closed s) (conn_at (length (ct_objs s)) (ctl_accept s))"
    by (simp add: ctl_accept_def conn_at_def conn_ok_def wake_ok_def gone_ok_def)
  have f: "ct_closed (ctl_accept s) = ct_closed s" "length (ct_objs (ctl_accept s)) = Suc (length (ct_objs s))"
    "ct_live (ctl_accept s) = (if ct_closed s then ct_live s else length (ct_objs s) # ct_live s)"
    by (simp_all add: ctl_accept_def)
  have "conn_ok (ct_closed s) (i \<in> set (ct_live (ctl_accept s))) (conn_at i (ctl_accept s))"
    if "i < Suc (length (ct_objs s))" for i
  proof (cases "i = length (ct_objs s)")
    case True
    then show ?thesis using new f(3) inv by (auto simp: ctl_inv_def)
  next
    case False
    then show ?thesis using that at ctl_invD [OF inv, of i] f(3) by auto
  qed
  then show ?thesis using inv f by (auto simp: ctl_inv_def)
qed

lemma pump_live_inv:
  assumes "ctl_inv s" "i < length (ct_objs s)" "cn_sub (conn_at i s) = Some sub" "cn_pump (conn_at i s) \<noteq> CpNone"
    and "length (su_queue sub1) \<le> su_cap sub1" "su_done sub1 = su_done sub" "p \<noteq> CpNone"
    and "su_queue sub1 \<noteq> [] \<or> 0 < su_dropped sub1 \<longrightarrow> su_notify sub1 \<or> p = CpTake"
  shows "ctl_inv (update_conn i (\<lambda>c. c\<lparr>cn_sub := Some sub1, cn_pump := p\<rparr>) s)"
  using ctl_invD [OF assms(1,2)] assms(3-8)
  by (intro inv_update [OF assms(1,2)]) (auto simp: conn_ok_def wake_ok_def gone_ok_def subscribing_def)

lemma pump_inv:
  assumes inv: "ctl_inv s" and i: "i < length (ct_objs s)" shows "ctl_inv (ctl_pump_step pick_done ok i s)"
proof (cases "cn_sub (conn_at i s)")
  case None
  then have "cn_pump (conn_at i s) = CpNone" using ctl_invD [OF inv i] by (auto simp: conn_ok_def)
  then show ?thesis using inv None by (simp add: ctl_pump_step_def)
next
  case (Some sub)
  have wake: "length (su_queue sub) \<le> su_cap sub"
    "su_queue sub \<noteq> [] \<or> 0 < su_dropped sub \<longrightarrow> su_notify sub \<or> cn_pump (conn_at i s) = CpTake"
    using ctl_invD [OF inv i] Some by (simp_all add: conn_ok_def wake_ok_def)
  have same: "update_conn i (\<lambda>c. c\<lparr>cn_pump := p\<rparr>) s = update_conn i (\<lambda>c. c\<lparr>cn_sub := Some sub, cn_pump := p\<rparr>) s" for p
  proof -
    have "(ct_objs s ! i)\<lparr>cn_sub := Some sub\<rparr> = ct_objs s ! i" using Some by (simp add: conn_at_def)
    then show ?thesis by (metis update_conn_def)
  qed
  show ?thesis
  proof (cases "cn_pump (conn_at i s)")
    case CpWait
    then show ?thesis using Some wake inv unfolding ctl_pump_step_def Let_def
      by (auto simp: same intro!: pump_live_inv [OF inv i Some])
  next
    case CpTake
    then have "ctl_pump_step pick_done ok i s = update_conn i (\<lambda>c. c\<lparr>cn_sub := Some (snd (sub_take sub)), cn_pump := CpWrite (fst (sub_take sub))\<rparr>) s"
      using Some by (simp add: ctl_pump_step_def Let_def split_beta)
    then show ?thesis using CpTake by (auto intro!: pump_live_inv [OF inv i Some])
  next
    case (CpWrite ls)
    show ?thesis
    proof (cases ls)
      case Nil
      then show ?thesis using Some CpWrite wake unfolding ctl_pump_step_def Let_def
        by (auto simp: same intro!: pump_live_inv [OF inv i Some])
    next
      case (Cons l ls1)
      obtain b c1 where w: "writeLine ok l (conn_at i s) = (b, c1)" by fastforce
      note k = writeLine_keeps [OF w]
      have ok1: "conn_ok (ct_closed s) (i \<in> set (ct_live s)) (conn_at i s)" by (rule ctl_invD [OF inv i])
      show ?thesis
      proof (cases b)
        case True
        then have "ctl_pump_step pick_done ok i s = update_conn i (\<lambda>_. c1\<lparr>cn_pump := CpWrite ls1\<rparr>) s"
          using CpWrite Cons Some w by (simp add: ctl_pump_step_def Let_def)
        moreover have "conn_ok (ct_closed s) (i \<in> set (ct_live s)) (c1\<lparr>cn_pump := CpWrite ls1\<rparr>)"
          using ok1 k(1-3) k(5) [OF True] CpWrite Some by (auto simp: conn_ok_def wake_ok_def gone_ok_def subscribing_def)
        ultimately show ?thesis using inv_update [OF inv i] by simp
      next
        case False
        then have "ctl_pump_step pick_done ok i s = (update_conn i (\<lambda>_. killed (c1\<lparr>cn_pump := CpExit\<rparr>)) s)\<lparr>ct_live := removeAll i (ct_live s)\<rparr>"
          using CpWrite Cons Some w i by (simp add: ctl_pump_step_def Let_def shutdown_update update_conn_twice)
        moreover have "conn_ok (ct_closed s) False (killed (c1\<lparr>cn_pump := CpExit\<rparr>))"
          using ok1 k(1-3) CpWrite Some
          by (cases "cn_reader (conn_at i s)") (auto simp: conn_ok_def wake_ok_def gone_ok_def subscribing_def sub_close_def)
        ultimately show ?thesis using inv_kill [OF inv i] by simp
      qed
    qed
  qed (use inv Some in \<open>simp_all add: ctl_pump_step_def\<close>)
qed

lemma read_inv:
  assumes "ctl_inv s" "i < length (ct_objs s)" "line = None \<or> rq_cmd (the line) \<noteq> ''subscribe''"
  shows "ctl_inv (fst (ctl_read h oks ok err line i s st))"
proof -
  have "fst (snd (ctl_dispatch h oks err line i s st)) = s"
    using assms(3) by (cases line) (auto simp: ctl_dispatch_def split_beta)
  then show ?thesis using respond_same_inv [OF assms(1,2)] by (simp add: ctl_read_def split_beta)
qed

lemma ctl_step_inv: "ctl_step h x y \<Longrightarrow> ctl_inv (fst x) \<Longrightarrow> ctl_inv (fst y)"
proof (induction rule: ctl_step.induct)
  case (resubscribe i s ident r s1 st ok)
  then show ?case using respond_same_inv by (auto simp: subscribe_register_def split: if_splits)
qed (auto simp: accept_inv publish_inv Close_inv hangup_inv read_inv register_inv check_open_inv check_closed_inv seed_inv pump_inv)

lemma ctl_reach_inv: "ctl_reach h x y \<Longrightarrow> ctl_inv (fst x) \<Longrightarrow> ctl_inv (fst y)"
  by (induction rule: ctl_reach.induct) (auto intro: ctl_step_inv)

lemma ctl_New_inv: "ctl_inv (ctl_New cfg)"
  by (simp add: ctl_inv_def ctl_New_def)

text \<open>
  No lost wake-up: in every state the server reaches under any interleaving
  of publishers, readers and pumps, a subscriber that has events queued or drops
  to report and whose pump is waiting is not left waiting: the pump's next two
  steps take exactly the gap report and the queued events.
\<close>

theorem queued_events_reach_the_pump:
  assumes "ctl_reach h (ctl_New cfg, st0) (s, st)" "i < length (ct_objs s)"
    and "cn_sub (conn_at i s) = Some sub" "cn_pump (conn_at i s) = CpWait" "\<not> su_done sub"
    and "su_queue sub \<noteq> [] \<or> 0 < su_dropped sub"
  shows "let s2 = ctl_pump_step d2 ok2 i (ctl_pump_step d1 ok1 i s) in
     cn_pump (conn_at i s2) = CpWrite ((if 0 < su_dropped sub then [gapLine (su_dropped sub)] else []) @ su_queue sub)
     \<and> (\<exists>sub2. cn_sub (conn_at i s2) = Some sub2 \<and> su_queue sub2 = [] \<and> su_dropped sub2 = 0)"
proof -
  have "ctl_inv s" using ctl_reach_inv [OF assms(1)] ctl_New_inv by simp
  then have "su_notify sub" using ctl_invD [OF _ assms(2)] assms(3,4,6) by (fastforce simp: conn_ok_def wake_ok_def)
  then show ?thesis using assms(2-5) by (simp add: ctl_pump_step_def Let_def sub_take_def)
qed

text \<open>
  C39. Shutdown reaches every connection: once the server is closed, in every
  state reached under any interleaving no connection is listed, every socket
  ever accepted is closed, and every subscription has ended or is one whose setup
  is still to be refused.
\<close>

theorem close_reaches_every_connection:
  assumes "ctl_reach h (ctl_New cfg, st0) (s, st)" "ct_closed s" "i < length (ct_objs s)"
  shows "ct_live s = [] \<and> cn_closed (conn_at i s)
       \<and> (\<forall>sub. cn_sub (conn_at i s) = Some sub \<longrightarrow> su_done sub \<or>
            (\<exists>ident. cn_reader (conn_at i s) = RcRegistered ident
                \<and> fst (subscribe_check ident i s) = Some (response ident (Some ''server shutting down''))))"
proof -
  have inv: "ctl_inv s" using ctl_reach_inv [OF assms(1)] ctl_New_inv by simp
  then have "ct_live s = []" using assms(2) by (simp add: ctl_inv_def)
  then have "gone_ok True (conn_at i s)" using ctl_invD [OF inv assms(3)] assms(2) by (simp add: conn_ok_def)
  then show ?thesis using \<open>ct_live s = []\<close> assms(2) by (auto simp: gone_ok_def subscribe_check_def)
qed

section \<open>The seeding of a subscription\<close>

lemma write_lines_all:
  "\<not> cn_closed c \<Longrightarrow> write_lines (\<lambda>_. True) ls c = (True, c\<lparr>cn_out := cn_out c @ ls\<rparr>)"
  by (induction ls arbitrary: c) (auto simp: writeLine_def)

text \<open>The states of a new connection that subscribes while \<open>n\<close> events are published between its
  registration and its seeding.\<close>

definition subscribing_server :: "ctl_config \<Rightarrow> ctl_server" where
  "subscribing_server cfg = set_reader (RcChecked None) 0 (set_reader (RcRegistered None) 0
     (snd (subscribe_register None 0 (ctl_accept (ctl_New cfg)))))"

definition tick_event :: "(string \<times> json) list" where "tick_event = [(''n'', JNum 1)]"

lemma subscribing_server_simps:
  "ct_live (subscribing_server cfg) = [0]" "length (ct_objs (subscribing_server cfg)) = 1"
  "\<not> ct_closed (subscribing_server cfg)" "cn_reader (conn_at 0 (subscribing_server cfg)) = RcChecked None"
  "cn_sub (conn_at 0 (subscribing_server cfg)) = Some (newSubscriber (maxQueued cfg))"
  "\<not> cn_closed (conn_at 0 (subscribing_server cfg))" "cn_out (conn_at 0 (subscribing_server cfg)) = []"
  by (simp_all add: subscribing_server_def set_reader_def subscribe_register_def ctl_accept_def ctl_New_def
      update_conn_def conn_at_def)

lemma subscribing_server_reach: "ctl_reach h (ctl_New cfg, st) (subscribing_server cfg, st)"
proof -
  let ?s1 = "ctl_accept (ctl_New cfg)"
  have l: "0 < length (ct_objs ?s1)" "cn_reader (conn_at 0 ?s1) = RcIdle" "cn_sub (conn_at 0 ?s1) = None"
    by (simp_all add: ctl_accept_def ctl_New_def conn_at_def)
  obtain s2 where r: "subscribe_register None 0 ?s1 = (None, s2)" using l(3) by (simp add: subscribe_register_def)
  let ?s3 = "set_reader (RcRegistered None) 0 s2"
  have e: "?s3 = update_conn 0 (\<lambda>c. c\<lparr>cn_sub := Some (newSubscriber (maxQueued (ct_cfg ?s1))), cn_reader := RcRegistered None\<rparr>) ?s1"
    using r l by (auto simp: subscribe_register_def set_reader_def update_conn_twice split: if_splits)
  have c: "subscribe_check None 0 ?s3 = (None, ?s3)" by (simp add: e subscribe_check_def ctl_accept_def ctl_New_def)
  have "ctl_step h (?s3, st) (set_reader (RcChecked None) 0 ?s3, st)"
    by (rule check_open [OF _ _ c]) (use l in \<open>simp_all add: e\<close>)
  note ctl_next [OF ctl_next [OF ctl_next [OF ctl_here accept] register [OF l(1,2) r]] this]
  then show ?thesis by (simp add: subscribing_server_def r)
qed

definition published_server :: "ctl_config \<Rightarrow> nat \<Rightarrow> ctl_server" where
  "published_server cfg n = (publish tick_event ''tick'' ^^ n) (subscribing_server cfg)"

lemma published_server_reach: "ctl_reach h (ctl_New cfg, st) (published_server cfg n, st)"
  by (induction n) (auto simp: published_server_def intro: subscribing_server_reach ctl_next publishing)

lemma published_server_simps:
  "n \<le> maxQueued cfg \<Longrightarrow> ct_live (published_server cfg n) = [0] \<and> length (ct_objs (published_server cfg n)) = 1
     \<and> \<not> ct_closed (published_server cfg n) \<and> cn_reader (conn_at 0 (published_server cfg n)) = RcChecked None
     \<and> \<not> cn_closed (conn_at 0 (published_server cfg n)) \<and> cn_out (conn_at 0 (published_server cfg n)) = []
     \<and> (\<exists>sub. cn_sub (conn_at 0 (published_server cfg n)) = Some sub \<and> su_cap sub = maxQueued cfg
          \<and> su_queue sub = replicate n (eventLine ''tick'' tick_event) \<and> su_dropped sub = 0 \<and> \<not> su_done sub)"
proof (induction n)
  case 0
  then show ?case using subscribing_server_simps [of cfg] by (simp add: published_server_def newSubscriber_def)
next
  case (Suc n)
  have "published_server cfg (Suc n) = update_conn 0 (update_sub (enqueue (eventLine ''tick'' tick_event))) (published_server cfg n)"
    using Suc by (simp add: published_server_def publish_def)
  moreover obtain sub where "cn_sub (conn_at 0 (published_server cfg n)) = Some sub" "su_cap sub = maxQueued cfg"
    "su_queue sub = replicate n (eventLine ''tick'' tick_event)" "su_dropped sub = 0" "\<not> su_done sub"
    using Suc by auto
  ultimately show ?case using Suc
    by (simp add: update_sub_def) (simp add: enqueue_def replicate_append_same)
qed

text \<open>
  The snapshot of a new subscription can be dropped: for every queue bound
  there is an interleaving in which as many events as the queue holds are
  published between the registration and the seeding, and the reader then gets a
  gap report and those events and a successful answer, but no snapshot.
\<close>

theorem snapshot_can_be_dropped:
  "\<exists>s s1. ctl_reach h (ctl_New cfg, st) (s, st) \<and> cn_reader (conn_at 0 s) = RcChecked None
     \<and> subscribe_seed h st (\<lambda>_. True) None 0 s = (Some (response None None), s1)
     \<and> cn_out (conn_at 0 s1) = gapLine 1 # replicate (maxQueued cfg) (eventLine ''tick'' tick_event)"
proof -
  let ?s = "published_server cfg (maxQueued cfg)"
  obtain sub where "cn_sub (conn_at 0 ?s) = Some sub" "su_cap sub = maxQueued cfg" "su_dropped sub = 0"
    "su_queue sub = replicate (maxQueued cfg) (eventLine ''tick'' tick_event)"
    and s: "length (ct_objs ?s) = 1" "cn_reader (conn_at 0 ?s) = RcChecked None" "\<not> cn_closed (conn_at 0 ?s)" "cn_out (conn_at 0 ?s) = []"
    using published_server_simps [of "maxQueued cfg" cfg] by auto
  then have "\<exists>s1. subscribe_seed h st (\<lambda>_. True) None 0 ?s = (Some (response None None), s1)
      \<and> cn_out (conn_at 0 s1) = gapLine 1 # replicate (maxQueued cfg) (eventLine ''tick'' tick_event)"
    by (simp add: subscribe_seed_def enqueue_def sub_take_def write_lines_all)
  then obtain s1 where "subscribe_seed h st (\<lambda>_. True) None 0 ?s = (Some (response None None), s1)"
    "cn_out (conn_at 0 s1) = gapLine 1 # replicate (maxQueued cfg) (eventLine ''tick'' tick_event)" by blast
  then show ?thesis using s(2) published_server_reach by (intro exI [of _ ?s] exI [of _ s1] conjI)
qed

theorem close_reaches_every_connection_witness:
  "cn_closed (conn_at 0 (ctl_Close (subscribing_server \<lparr>cf_MaxQueuedEvents = 0\<rparr>)))"
proof -
  let ?s = "subscribing_server \<lparr>cf_MaxQueuedEvents = 0\<rparr>"
  let ?h = "\<lparr>h_Send = \<lambda>_ _ st. (None, st), h_SetStatus = \<lambda>_ st. (None, st), h_Presence = \<lambda>_. [], h_ConnState = \<lambda>_. ''online''\<rparr> :: unit handlers"
  have r: "ctl_reach ?h (ctl_New \<lparr>cf_MaxQueuedEvents = 0\<rparr>, ()) (ctl_Close ?s, ())"
    by (rule ctl_next [OF subscribing_server_reach closing])
  have "0 < length (ct_objs (ctl_Close ?s))" using subscribing_server_simps by (simp add: ctl_Close_def shutdown_update)
  from close_reaches_every_connection [OF r Close_closed this] show ?thesis by blast
qed

theorem queued_events_reach_the_pump_witness:
  "\<exists>s sub. cn_sub (conn_at 0 s) = Some sub \<and> su_queue sub = [eventLine ''tick'' tick_event] \<and> cn_pump (conn_at 0 s) = CpWait
     \<and> cn_pump (conn_at 0 (ctl_pump_step False True 0 (ctl_pump_step False True 0 s))) = CpWrite [eventLine ''tick'' tick_event]"
proof -
  let ?cfg = "\<lparr>cf_MaxQueuedEvents = 0\<rparr>"
  let ?h = "\<lparr>h_Send = \<lambda>_ _ st. (None, st), h_SetStatus = \<lambda>_ st. (None, st), h_Presence = \<lambda>_. [], h_ConnState = \<lambda>_. ''online''\<rparr> :: unit handlers"
  let ?s = "subscribing_server ?cfg"
  obtain s1 where seed: "subscribe_seed ?h () (\<lambda>_. True) None 0 ?s = (Some (response None None), s1)"
    and s1: "length (ct_objs s1) = 1" "ct_live s1 = [0]" "\<not> ct_closed s1" "cn_pump (conn_at 0 s1) = CpWait" "\<not> cn_closed (conn_at 0 s1)"
      "cn_sub (conn_at 0 s1) = Some ((newSubscriber (maxQueued ?cfg))\<lparr>su_notify := True\<rparr>)"
    using subscribing_server_simps [of ?cfg]
    by (simp add: subscribe_seed_def sub_take_def write_lines_all newSubscriber_def enqueue_def maxQueued_def DefaultMaxQueuedEvents_def)
  let ?s2 = "ctl_respond True (Some (response None None)) 0 s1"
  have step: "ctl_step ?h (?s, ()) (?s2, ())" by (rule ctl_step.seed [OF _ _ seed]) (simp_all add: subscribing_server_simps)
  have s2: "length (ct_objs ?s2) = 1" "ct_live ?s2 = [0]" "\<not> ct_closed ?s2" "cn_pump (conn_at 0 ?s2) = CpWait"
    "cn_sub (conn_at 0 ?s2) = Some ((newSubscriber (maxQueued ?cfg))\<lparr>su_notify := True\<rparr>)"
    using s1 by (simp_all add: ctl_respond_def writeLine_def set_reader_def)
  let ?s3 = "publish tick_event ''tick'' ?s2"
  have r: "ctl_reach ?h (ctl_New ?cfg, ()) (?s3, ())"
    by (rule ctl_next [OF ctl_next [OF subscribing_server_reach step] publishing])
  have s3: "0 < length (ct_objs ?s3)" "cn_pump (conn_at 0 ?s3) = CpWait"
    "cn_sub (conn_at 0 ?s3) = Some ((newSubscriber (maxQueued ?cfg))\<lparr>su_notify := True, su_queue := [eventLine ''tick'' tick_event]\<rparr>)"
    using s2 by (simp_all add: publish_def update_sub_def enqueue_def newSubscriber_def maxQueued_def DefaultMaxQueuedEvents_def)
  from queued_events_reach_the_pump [OF r s3(1,3,2), of False True False True] show ?thesis
    using s3 by (intro exI [of _ ?s3]) (simp add: newSubscriber_def Let_def)
qed

end
