(* ===== verification/CtlClient.thy ===== *)
theory CtlClient
  imports CtlProps App
begin

text \<open>
  \<^verbatim>\<open>src/cmd/walkie/ctl.go\<close> and the wiring of \<^verbatim>\<open>main.go\<close>: the control socket's handlers over the
  assembled client and the adapters that feed its event stream.  The rendering of
  instants (RFC3339Nano) and of wrapped errors are arguments; what a call meets on
  the way (database, wire, clock, drawn identifier) is the record \<open>call_env\<close>.
\<close>

section \<open>Handlers\<close>

record call_env =
  ce_platform :: platform
  ce_history :: "history_stmt \<Rightarrow> bool"
  ce_db_fails :: bool
  ce_wire_ok :: bool
  ce_now :: time
  ce_ident :: string
  ce_show :: "ui_error \<Rightarrow> string"
  ce_stamp :: "time \<Rightarrow> string"

definition maxStatusBytes :: nat where "maxStatusBytes = 256"

definition sendStatus :: "bool \<Rightarrow> string \<Rightarrow> client \<Rightarrow> (string, unit) result \<times> client" where
  "sendStatus wire_ok status c =
     (if length status > maxStatusBytes then (Err ''status exceeds 256-byte bound'', c)
      else if \<not> ValidString status then (Err ''status is not valid UTF-8'', c)
      else case client_Send wire_ok (envelope_of (PresenceStatusChange status)) c of
        (Inl ErrOffline, c1) \<Rightarrow> (Err ''offline - status not sent; retry once connected'', c1)
      | (Inl WriteFailed, c1) \<Rightarrow> (Err ''write failed'', c1)
      | (Inr _, c1) \<Rightarrow> (Ok (), c1))"

definition deviceToEntry :: "(time \<Rightarrow> string) \<Rightarrow> view_entry \<Rightarrow> ctl_entry" where
  "deviceToEntry stamp d =
     \<lparr>cte_Device = ve_device d, cte_Online = ve_online d,
      cte_LastSeen = (if ve_lastSeen d \<noteq> 0 then stamp (unix_epoch + ve_lastSeen d) else ''''),
      cte_Status = ve_status d\<rparr>"

definition rosterToEntries :: "(time \<Rightarrow> string) \<Rightarrow> view_entry list \<Rightarrow> ctl_entry list" where
  "rosterToEntries stamp roster = map (deviceToEntry stamp) roster"

definition startControlSocket :: "call_env \<Rightarrow> app handlers" where
  "startControlSocket e =
     \<lparr>h_Send = (\<lambda>to body a.
        (let conversation = (if to \<noteq> '''' then ConversationKey to else BroadcastConversation)
         in case SendFromUI (ce_platform e) (ce_history e) (ce_db_fails e) (ce_wire_ok e) (ce_now e) (ce_ident e) conversation body a of
              (Inl err, a1) \<Rightarrow> (Some (ce_show e err), a1)
            | (Inr _, a1) \<Rightarrow> (None, a1))),
      h_SetStatus = (\<lambda>status a.
        case sendStatus (ce_wire_ok e) status (ap_client a) of
          (Inl err, c) \<Rightarrow> (Some err, a\<lparr>ap_client := c\<rparr>)
        | (Inr _, c) \<Rightarrow> (None, a\<lparr>ap_client := c\<rparr>)),
      h_Presence = (\<lambda>a. rosterToEntries (ce_stamp e) (view_Snapshot (ap_presence a))),
      h_ConnState = (\<lambda>a. state_String (m_cur (cl_mach (ap_client a))))\<rparr>"

section \<open>Event feeds\<close>

definition pumpConnEvents :: "(time \<Rightarrow> string) \<Rightarrow> conn_change \<Rightarrow> ctl_server \<Rightarrow> ctl_server" where
  "pumpConnEvents stamp ch = PublishConn (state_String (cc_From ch)) (state_String (cc_To ch)) (cc_Reason ch) (stamp (cc_At ch))"

definition pumpPresenceEvents :: "(time \<Rightarrow> string) \<Rightarrow> view_entry \<Rightarrow> ctl_server \<Rightarrow> ctl_server" where
  "pumpPresenceEvents stamp d = PublishPresence (deviceToEntry stamp d)"

text \<open>The hook that \<^verbatim>\<open>runClient\<close> installs with \<^verbatim>\<open>SetOnFiled\<close>.\<close>

definition publish_filed :: "client \<Rightarrow> message \<Rightarrow> ctl_server \<Rightarrow> ctl_server" where
  "publish_filed c msg =
     PublishMessage (msg_ID msg) (msg_Sender msg) (msg_Recipient msg) (ConversationKeyFor (ConnectedAs c) msg)"

section \<open>Properties\<close>

text \<open>
  The two ends apply the same rule to a status label: the client's check
  passes a label exactly when the coordinator's does, so a label that was sent is
  never refused for its shape and one refused here would be refused there; and a
  label is never held for later: an offline client answers with an error and is
  left as it was.
\<close>

theorem status_rule_agrees_at_both_ends:
  "(fst (sendStatus True status (c\<lparr>cl_sess := Some s\<rparr>)) = Ok ()
      \<longleftrightarrow> fst (SetStatus False now device status (t\<lparr>tr_closed := False\<rparr>)) = Ok ())
   \<and> (sendStatus ok status (c\<lparr>cl_sess := None\<rparr>) = (r, c') \<longrightarrow> r \<noteq> Ok () \<and> c' = c\<lparr>cl_sess := None\<rparr>)"
  by (auto simp: sendStatus_def SetStatus_def client_Send_def maxStatusBytes_def MaxStatusBytes_def Let_def split: if_splits)

text \<open>
  No content on the event stream: two messages that agree in their
  identifier, sender and recipient leave the control server in the same state, so
  nothing a subscriber is ever sent depends on a body or a timestamp.
\<close>

theorem events_carry_no_content:
  assumes "msg_ID m' = msg_ID m" "msg_Sender m' = msg_Sender m" "msg_Recipient m' = msg_Recipient m"
  shows "publish_filed c m' s = publish_filed c m s"
proof -
  have "ConversationKeyFor l m' = ConversationKeyFor l m" for l
    using assms by (simp add: ConversationKeyFor_def IsBroadcast_def)
  then show ?thesis using assms by (simp add: publish_filed_def)
qed

theorem events_carry_no_content_witness:
  "\<forall>c s. publish_filed c ((sample_msg ''1'' ''ann'')\<lparr>msg_Body := ''secret''\<rparr>) s = publish_filed c (sample_msg ''1'' ''ann'') s"
  by (intro allI, rule events_carry_no_content) simp_all

theorem status_rule_agrees_at_both_ends_witness:
  "\<forall>c t. fst (sendStatus True (replicate 257 CHR ''x'') (c\<lparr>cl_sess := Some 0\<rparr>)) \<noteq> Ok ()
     \<and> fst (SetStatus False 0 ''ann'' (replicate 257 CHR ''x'') (t\<lparr>tr_closed := False\<rparr>)) \<noteq> Ok ()"
proof (intro allI)
  fix c :: client and t :: tracker
  have "fst (sendStatus True (replicate 257 CHR ''x'') (c\<lparr>cl_sess := Some 0\<rparr>)) \<noteq> Ok ()"
    by (simp add: sendStatus_def maxStatusBytes_def)
  then show "fst (sendStatus True (replicate 257 CHR ''x'') (c\<lparr>cl_sess := Some 0\<rparr>)) \<noteq> Ok ()
     \<and> fst (SetStatus False 0 ''ann'' (replicate 257 CHR ''x'') (t\<lparr>tr_closed := False\<rparr>)) \<noteq> Ok ()"
    using status_rule_agrees_at_both_ends [where status = "replicate 257 CHR ''x''" and c = c and s = 0 and now = 0 and device = "''ann''" and t = t] by blast
qed

end
