(* ===== verification/CtlListen.thy ===== *)
theory CtlListen
  imports Prelude
begin

unbundle bit_operations_syntax

text \<open>
  \<^verbatim>\<open>Listen\<close> of \<^verbatim>\<open>src/internal/ctlsocket/listen_unix.go\<close> and \<^verbatim>\<open>listen_windows.go\<close>: making the control socket's directory, clearing a leftover, binding
  and restricting the permissions, against what the file system holds at the socket's path.
\<close>

section \<open>The path\<close>

type_synonym perms = "9 word"

text \<open>A socket somebody listens on, one nobody does, another file with its content, or a directory.\<close>

datatype path_entry = Missing | LiveSocket perms | DeadSocket perms | OtherFile perms string | Directory bool

record sock_path =
  sp_dir :: "perms option"
  sp_entry :: path_entry

datatype listen_call = LcMkdir | LcStat | LcRemove | LcBind | LcChmod

datatype listen_error = EmptyPath | MkdirFailed | InspectFailed | ErrInUse | RemoveFailed | BindFailed | ChmodFailed | ErrUnavailableOnWindows

definition mkdir_parent :: "perms \<Rightarrow> sock_path \<Rightarrow> sock_path" where
  "mkdir_parent umask p = (case sp_dir p of Some _ \<Rightarrow> p | None \<Rightarrow> p\<lparr>sp_dir := Some (0x1C0 AND NOT umask)\<rparr>)"

text \<open>\<^verbatim>\<open>net.Dial\<close> succeeds on a live socket only; \<^verbatim>\<open>os.Remove\<close> removes files and empty directories.\<close>

definition dial_answers :: "path_entry \<Rightarrow> bool" where
  "dial_answers e = (case e of LiveSocket _ \<Rightarrow> True | _ \<Rightarrow> False)"

definition remove_entry :: "sock_path \<Rightarrow> sock_path option" where
  "remove_entry p = (if sp_entry p = Directory False then None else Some (p\<lparr>sp_entry := Missing\<rparr>))"

definition clearDeadSocket :: "(listen_call \<Rightarrow> bool) \<Rightarrow> sock_path \<Rightarrow> (listen_error, unit) result \<times> sock_path" where
  "clearDeadSocket fails p =
     (if fails LcStat then (Err InspectFailed, p)
      else if sp_entry p = Missing then (Ok (), p)
      else if dial_answers (sp_entry p) then (Err ErrInUse, p)
      else if fails LcRemove then (Err RemoveFailed, p)
      else case remove_entry p of None \<Rightarrow> (Err RemoveFailed, p) | Some p' \<Rightarrow> (Ok (), p'))"

text \<open>Binding makes the socket with all permissions less the umask; closing the listener removes it.\<close>

definition bind_socket :: "perms \<Rightarrow> sock_path \<Rightarrow> sock_path option" where
  "bind_socket umask p = (if sp_entry p = Missing then Some (p\<lparr>sp_entry := LiveSocket (0x1FF AND NOT umask)\<rparr>) else None)"

definition unlink_socket :: "sock_path \<Rightarrow> sock_path" where "unlink_socket p = p\<lparr>sp_entry := Missing\<rparr>"

text \<open>\<open>between\<close> is the state between binding and the change of permissions, if it was reached.\<close>

definition ctl_Listen ::
  "(listen_call \<Rightarrow> bool) \<Rightarrow> perms \<Rightarrow> string \<Rightarrow> sock_path \<Rightarrow> (listen_error, unit) result \<times> sock_path option \<times> sock_path" where
  "ctl_Listen fails umask path p =
     (if path = '''' then (Err EmptyPath, None, p)
      else if fails LcMkdir then (Err MkdirFailed, None, p)
      else case clearDeadSocket fails (mkdir_parent umask p) of
        (Inl e, p1) \<Rightarrow> (Err e, None, p1)
      | (Inr _, p1) \<Rightarrow>
          (if fails LcBind then (Err BindFailed, None, p1)
           else case bind_socket umask p1 of
             None \<Rightarrow> (Err BindFailed, None, p1)
           | Some between \<Rightarrow>
               (if fails LcChmod then (Err ChmodFailed, Some between, unlink_socket between)
                else (Ok (), Some between, between\<lparr>sp_entry := LiveSocket 0x180\<rparr>))))"

definition ctl_Listen_windows :: "string \<Rightarrow> (listen_error, unit) result" where
  "ctl_Listen_windows path = Err ErrUnavailableOnWindows"

section \<open>Properties\<close>



text \<open>
  A file that is no socket is deleted: anything at the path that does not answer is taken for a dead socket.
\<close>

theorem listen_deletes_any_file:
  "ctl_Listen (\<lambda>_. False) umask (c # cs) \<lparr>sp_dir = Some d, sp_entry = OtherFile m content\<rparr>
     = (Ok (), Some \<lparr>sp_dir = Some d, sp_entry = LiveSocket (0x1FF AND NOT umask)\<rparr>, \<lparr>sp_dir = Some d, sp_entry = LiveSocket 0x180\<rparr>)"
  by (simp add: ctl_Listen_def clearDeadSocket_def mkdir_parent_def dial_answers_def remove_entry_def bind_socket_def)

text \<open>
  In a directory that was already there the socket first exists with the permissions the umask leaves, and the directory's mode is not
  touched: a loose directory does not close that window.
\<close>

theorem listen_leaves_a_window:
  "ctl_Listen (\<lambda>_. False) umask (c # cs) \<lparr>sp_dir = Some d, sp_entry = Missing\<rparr>
     = (Ok (), Some \<lparr>sp_dir = Some d, sp_entry = LiveSocket (0x1FF AND NOT umask)\<rparr>, \<lparr>sp_dir = Some d, sp_entry = LiveSocket 0x180\<rparr>)"
  by (simp add: ctl_Listen_def clearDeadSocket_def mkdir_parent_def dial_answers_def bind_socket_def)

end
