(* ===== verification/FakeClock.thy ===== *)
theory FakeClock
  imports Prelude
begin

text \<open>
  \<^verbatim>\<open>src/internal/clock/fake.go\<close>: the clock every timing test runs on.  Channels and timers are
  numbered; a channel is its buffer, of capacity one.  \<^verbatim>\<open>Advance\<close> claims the due
  waiters under the lock and delivers afterwards; a send to a full channel blocks,
  which \<open>deliver\<close> answers with the deliveries still to make.
\<close>

section \<open>Operations\<close>

datatype timer_state = TimerStopped | TimerPending | TimerFired

record waiter =
  wt_at :: time
  wt_ch :: nat
  wt_owner :: "nat option"

record fake_timer =
  ft_ch :: nat
  ft_st :: timer_state

record fake =
  fk_now :: time
  fk_waiters :: "waiter list"
  fk_chans :: "time list list"
  fk_timers :: "fake_timer list"

definition NewFake :: "time \<Rightarrow> fake" where
  "NewFake start = \<lparr>fk_now = start, fk_waiters = [], fk_chans = [], fk_timers = []\<rparr>"

definition fake_Now :: "fake \<Rightarrow> time" where "fake_Now f = fk_now f"

definition fake_Since :: "time \<Rightarrow> fake \<Rightarrow> duration" where "fake_Since t f = fake_Now f - t"

definition new_chan :: "time list \<Rightarrow> fake \<Rightarrow> nat \<times> fake" where
  "new_chan buf f = (length (fk_chans f), f\<lparr>fk_chans := fk_chans f @ [buf]\<rparr>)"

definition add_waiter :: "time \<Rightarrow> nat \<Rightarrow> nat option \<Rightarrow> fake \<Rightarrow> fake" where
  "add_waiter at ch owner f = f\<lparr>fk_waiters := fk_waiters f @ [\<lparr>wt_at = at, wt_ch = ch, wt_owner = owner\<rparr>]\<rparr>"

definition fake_Until :: "time \<Rightarrow> fake \<Rightarrow> nat \<times> fake" where
  "fake_Until t f =
     (if \<not> t > fk_now f then new_chan [fk_now f] f
      else case new_chan [] f of (ch, f1) \<Rightarrow> (ch, add_waiter t ch None f1))"

definition fake_After :: "duration \<Rightarrow> fake \<Rightarrow> nat \<times> fake" where
  "fake_After d f =
     (if d \<le> 0 then new_chan [fk_now f] f
      else case new_chan [] f of (ch, f1) \<Rightarrow> (ch, add_waiter (fk_now f + d) ch None f1))"

definition fake_NewTimer :: "duration \<Rightarrow> fake \<Rightarrow> nat \<times> fake" where
  "fake_NewTimer d f =
     (let t = length (fk_timers f) in
      if d \<le> 0 then
        (case new_chan [fk_now f] f of (ch, f1) \<Rightarrow> (t, f1\<lparr>fk_timers := fk_timers f1 @ [\<lparr>ft_ch = ch, ft_st = TimerFired\<rparr>]\<rparr>))
      else
        (case new_chan [] f of (ch, f1) \<Rightarrow>
           (t, add_waiter (fk_now f + d) ch (Some t) (f1\<lparr>fk_timers := fk_timers f1 @ [\<lparr>ft_ch = ch, ft_st = TimerPending\<rparr>]\<rparr>))))"

fun removeWaiter :: "nat \<Rightarrow> waiter list \<Rightarrow> waiter list" where
  "removeWaiter t [] = []"
| "removeWaiter t (w # ws) = (if wt_owner w = Some t then ws else w # removeWaiter t ws)"

definition set_timer :: "nat \<Rightarrow> timer_state \<Rightarrow> fake \<Rightarrow> fake" where
  "set_timer t st f = f\<lparr>fk_timers := (fk_timers f)[t := (fk_timers f ! t)\<lparr>ft_st := st\<rparr>]\<rparr>"

definition timer_Stop :: "nat \<Rightarrow> fake \<Rightarrow> bool \<times> fake" where
  "timer_Stop t f =
     (if ft_st (fk_timers f ! t) = TimerPending
      then (True, (set_timer t TimerStopped f)\<lparr>fk_waiters := removeWaiter t (fk_waiters f)\<rparr>)
      else (False, f))"

definition timer_Reset :: "duration \<Rightarrow> nat \<Rightarrow> fake \<Rightarrow> bool \<times> fake" where
  "timer_Reset d t f =
     (let wasPending = (ft_st (fk_timers f ! t) = TimerPending);
          ch = ft_ch (fk_timers f ! t);
          f1 = (if wasPending then f\<lparr>fk_waiters := removeWaiter t (fk_waiters f)\<rparr> else f)
      in if d \<le> 0
         then (let f2 = set_timer t TimerFired f1 in
               (wasPending, if fk_chans f2 ! ch = [] then f2\<lparr>fk_chans := (fk_chans f2)[ch := [fk_now f]]\<rparr> else f2))
         else (wasPending, add_waiter (fk_now f + d) ch (Some t) (set_timer t TimerPending f1)))"

definition is_due :: "time \<Rightarrow> waiter \<Rightarrow> bool" where "is_due now w \<longleftrightarrow> \<not> wt_at w > now"

definition claim_timer :: "waiter \<Rightarrow> fake \<Rightarrow> fake" where
  "claim_timer w f = (case wt_owner w of None \<Rightarrow> f | Some t \<Rightarrow> set_timer t TimerFired f)"

definition advance_claim :: "duration \<Rightarrow> fake \<Rightarrow> waiter list \<times> fake" where
  "advance_claim d f =
     (let now = fk_now f + d;
          due = filter (is_due now) (fk_waiters f);
          f1 = f\<lparr>fk_now := now, fk_waiters := filter (\<lambda>w. \<not> is_due now w) (fk_waiters f)\<rparr>
      in (due, fold claim_timer due f1))"

fun deliver :: "waiter list \<Rightarrow> fake \<Rightarrow> waiter list \<times> fake" where
  "deliver [] f = ([], f)"
| "deliver (w # ws) f =
     (if fk_chans f ! wt_ch w = [] then deliver ws (f\<lparr>fk_chans := (fk_chans f)[wt_ch w := [fk_now f]]\<rparr>)
      else (w # ws, f))"

definition fake_Advance :: "duration \<Rightarrow> fake \<Rightarrow> waiter list \<times> fake" where
  "fake_Advance d f = (case advance_claim d f of (due, f1) \<Rightarrow> deliver due f1)"

definition fake_Waiters :: "fake \<Rightarrow> nat" where "fake_Waiters f = length (fk_waiters f)"

text \<open>A receive from a channel that holds a value.\<close>

definition fake_recv :: "nat \<Rightarrow> fake \<Rightarrow> fake" where
  "fake_recv ch f = f\<lparr>fk_chans := (fk_chans f)[ch := []]\<rparr>"

section \<open>Invariant\<close>

text \<open>Every waiter has its own channel, which is empty; a timer's waiter uses the timer's channel,
  which no other waiter or timer uses, and the timer is pending exactly while it has one.\<close>

definition owner_ok :: "fake_timer list \<Rightarrow> waiter \<Rightarrow> bool" where
  "owner_ok ts w \<longleftrightarrow> (case wt_owner w of None \<Rightarrow> wt_ch w \<notin> ft_ch ` set ts
     | Some t \<Rightarrow> t < length ts \<and> ft_ch (ts ! t) = wt_ch w)"

definition fake_inv :: "fake \<Rightarrow> bool" where
  "fake_inv f \<longleftrightarrow> distinct (map wt_ch (fk_waiters f)) \<and> distinct (map ft_ch (fk_timers f))
     \<and> (\<forall>w \<in> set (fk_waiters f).
         wt_ch w < length (fk_chans f) \<and> fk_chans f ! wt_ch w = [] \<and> fk_now f < wt_at w \<and> owner_ok (fk_timers f) w)
     \<and> (\<forall>t < length (fk_timers f). ft_ch (fk_timers f ! t) < length (fk_chans f)
         \<and> (ft_st (fk_timers f ! t) = TimerPending \<longleftrightarrow> Some t \<in> wt_owner ` set (fk_waiters f)))"

lemma fake_invD:
  assumes "fake_inv f"
  shows "w \<in> set (fk_waiters f) \<Longrightarrow> wt_ch w < length (fk_chans f)" "w \<in> set (fk_waiters f) \<Longrightarrow> fk_chans f ! wt_ch w = []"
    "w \<in> set (fk_waiters f) \<Longrightarrow> fk_now f < wt_at w" "distinct (map wt_ch (fk_waiters f))" "distinct (map ft_ch (fk_timers f))"
    "w \<in> set (fk_waiters f) \<Longrightarrow> wt_owner w = Some t \<Longrightarrow> t < length (fk_timers f) \<and> ft_ch (fk_timers f ! t) = wt_ch w"
    "w \<in> set (fk_waiters f) \<Longrightarrow> wt_owner w = None \<Longrightarrow> wt_ch w \<notin> ft_ch ` set (fk_timers f)"
    "t < length (fk_timers f) \<Longrightarrow> ft_ch (fk_timers f ! t) < length (fk_chans f)"
    "t < length (fk_timers f) \<Longrightarrow> ft_st (fk_timers f ! t) = TimerPending \<longleftrightarrow> Some t \<in> wt_owner ` set (fk_waiters f)"
  using assms by (auto simp: fake_inv_def owner_ok_def)

lemma waiter_unique:
  "fake_inv f \<Longrightarrow> w \<in> set (fk_waiters f) \<Longrightarrow> v \<in> set (fk_waiters f) \<Longrightarrow> wt_ch w = wt_ch v \<Longrightarrow> w = v"
  using fake_invD(4) by (auto simp: distinct_map dest: inj_onD)

lemma owner_unique:
  "fake_inv f \<Longrightarrow> w \<in> set (fk_waiters f) \<Longrightarrow> v \<in> set (fk_waiters f) \<Longrightarrow> wt_owner w = Some t \<Longrightarrow> wt_owner v = Some t \<Longrightarrow> w = v"
  by (metis fake_invD(6) waiter_unique)

lemma timer_channel_free:
  assumes inv: "fake_inv f" and t: "t < length (fk_timers f)" and w: "w \<in> set (fk_waiters f)" "wt_ch w = ft_ch (fk_timers f ! t)"
  shows "wt_owner w = Some t"
proof (cases "wt_owner w")
  case None
  then show ?thesis using fake_invD(7) [OF inv w(1)] w(2) t by (metis imageI nth_mem)
next
  case (Some s)
  then have "s < length (fk_timers f)" "ft_ch (fk_timers f ! s) = ft_ch (fk_timers f ! t)"
    using fake_invD(6) [OF inv w(1)] w(2) by auto
  then have "s = t" using fake_invD(5) [OF inv] t by (simp add: distinct_conv_nth) (metis nth_map)
  then show ?thesis using Some by simp
qed

lemma fake_inv_new: "fake_inv (NewFake start)"
  by (simp add: fake_inv_def NewFake_def)

text \<open>A new channel, a new waiter on an unused empty channel, a read channel.\<close>

lemma fake_inv_chan: "fake_inv f \<Longrightarrow> fake_inv (f\<lparr>fk_chans := fk_chans f @ [b]\<rparr>)"
  by (auto simp: fake_inv_def nth_append less_Suc_eq)

lemma fake_inv_waiter:
  assumes "fake_inv f" "ch < length (fk_chans f)" "fk_chans f ! ch = []" "fk_now f < at" "ch \<notin> wt_ch ` set (fk_waiters f)"
    and "ch \<notin> ft_ch ` set (fk_timers f)"
  shows "fake_inv (add_waiter at ch None f)"
  using assms by (auto simp: fake_inv_def add_waiter_def owner_ok_def)

lemma fresh_channel:
  assumes "fake_inv f" shows "length (fk_chans f) \<notin> wt_ch ` set (fk_waiters f)" "length (fk_chans f) \<notin> ft_ch ` set (fk_timers f)"
  using fake_invD(1,8) [OF assms] by (auto simp: in_set_conv_nth) (metis less_irrefl)+

lemma fake_recv_inv: "fake_inv f \<Longrightarrow> fake_inv (fake_recv ch f)"
proof -
  assume inv: "fake_inv f"
  have "(fk_chans f)[ch := []] ! wt_ch w = []" if "w \<in> set (fk_waiters f)" for w
    using fake_invD(1,2) [OF inv that] by (cases "wt_ch w = ch") simp_all
  then show ?thesis using inv by (simp add: fake_inv_def fake_recv_def)
qed

lemma fake_Until_fields:
  assumes "fake_Until t f = (ch, f')"
  shows "ch = length (fk_chans f)" "fk_now f' = fk_now f" "fk_chans f' = fk_chans f @ [if t \<le> fk_now f then [fk_now f] else []]"
    "fk_waiters f' = fk_waiters f @ (if t \<le> fk_now f then [] else [\<lparr>wt_at = t, wt_ch = ch, wt_owner = None\<rparr>])"
  using assms by (auto simp: fake_Until_def new_chan_def add_waiter_def split: if_splits)

lemma fake_Until_inv:
  assumes inv: "fake_inv f" shows "fake_inv (snd (fake_Until t f))"
proof (cases "t \<le> fk_now f")
  case True
  then show ?thesis using fake_inv_chan [OF inv] by (simp add: fake_Until_def new_chan_def)
next
  case False
  then show ?thesis
    using fake_inv_waiter [OF fake_inv_chan [OF inv, of "[]"], of "length (fk_chans f)" t] fresh_channel [OF inv]
    by (simp add: fake_Until_def new_chan_def)
qed

lemma fake_After_Until: "fake_After d f = fake_Until (fk_now f + d) f"
  by (simp add: fake_After_def fake_Until_def)

lemma fold_claim [simp]:
  "fk_now (fold claim_timer ws f) = fk_now f" "fk_chans (fold claim_timer ws f) = fk_chans f"
  "fk_waiters (fold claim_timer ws f) = fk_waiters f"
  by (induction ws arbitrary: f) (auto simp: claim_timer_def set_timer_def split: option.split)

lemma claim_fields:
  "fst (advance_claim d f) = filter (is_due (fk_now f + d)) (fk_waiters f)"
  "fk_now (snd (advance_claim d f)) = fk_now f + d" "fk_chans (snd (advance_claim d f)) = fk_chans f"
  "fk_waiters (snd (advance_claim d f)) = filter (\<lambda>w. \<not> is_due (fk_now f + d) w) (fk_waiters f)"
  by (simp_all add: advance_claim_def Let_def)

lemma deliver_all:
  assumes "distinct (map wt_ch ws)" "\<forall>w \<in> set ws. wt_ch w < length (fk_chans f) \<and> fk_chans f ! wt_ch w = []"
  shows "fst (deliver ws f) = [] \<and> fk_waiters (snd (deliver ws f)) = fk_waiters f \<and> fk_now (snd (deliver ws f)) = fk_now f
       \<and> length (fk_chans (snd (deliver ws f))) = length (fk_chans f) \<and> fk_timers (snd (deliver ws f)) = fk_timers f
       \<and> (\<forall>c < length (fk_chans f). fk_chans (snd (deliver ws f)) ! c = (if c \<in> wt_ch ` set ws then [fk_now f] else fk_chans f ! c))"
  using assms
proof (induction ws arbitrary: f)
  case (Cons w ws)
  let ?f = "f\<lparr>fk_chans := (fk_chans f)[wt_ch w := [fk_now f]]\<rparr>"
  have "\<forall>v \<in> set ws. wt_ch v < length (fk_chans ?f) \<and> fk_chans ?f ! wt_ch v = []"
    using Cons.prems by (auto simp: nth_list_update)
  with Cons.IH [of ?f] Cons.prems show ?case by (auto simp: nth_list_update)
qed simp

lemma fold_claim_timers:
  "length (fk_timers (fold claim_timer ws f)) = length (fk_timers f)
   \<and> (\<forall>t < length (fk_timers f). ft_ch (fk_timers (fold claim_timer ws f) ! t) = ft_ch (fk_timers f ! t)
       \<and> ft_st (fk_timers (fold claim_timer ws f) ! t) = (if Some t \<in> wt_owner ` set ws then TimerFired else ft_st (fk_timers f ! t)))"
proof (induction ws arbitrary: f)
  case (Cons w ws)
  have "length (fk_timers (claim_timer w f)) = length (fk_timers f)"
    "\<forall>t < length (fk_timers f). ft_ch (fk_timers (claim_timer w f) ! t) = ft_ch (fk_timers f ! t)
       \<and> ft_st (fk_timers (claim_timer w f) ! t) = (if wt_owner w = Some t then TimerFired else ft_st (fk_timers f ! t))"
    by (auto simp: claim_timer_def set_timer_def nth_list_update split: option.split)
  with Cons.IH [of "claim_timer w f"] show ?case by auto
qed simp

lemma fake_Advance_fires:
  fixes d :: duration
  assumes inv: "fake_inv f"
  defines "f' \<equiv> snd (fake_Advance d f)"
  shows "fst (fake_Advance d f) = []" "fk_now f' = fk_now f + d" "fk_waiters f' = filter (\<lambda>w. fk_now f + d < wt_at w) (fk_waiters f)"
    "length (fk_chans f') = length (fk_chans f)"
    "k < length (fk_chans f) \<Longrightarrow> fk_chans f' ! k =
       (if k \<in> wt_ch ` {w \<in> set (fk_waiters f). wt_at w \<le> fk_now f + d} then [fk_now f + d] else fk_chans f ! k)"
    "fk_timers f' = fk_timers (fold claim_timer (filter (is_due (fk_now f + d)) (fk_waiters f)) f)"
proof -
  let ?due = "filter (is_due (fk_now f + d)) (fk_waiters f)" and ?g = "snd (advance_claim d f)"
  have e: "fake_Advance d f = deliver ?due ?g" using claim_fields(1) [of d f] by (simp add: fake_Advance_def split_beta)
  have pre: "distinct (map wt_ch ?due)" "\<forall>w \<in> set ?due. wt_ch w < length (fk_chans ?g) \<and> fk_chans ?g ! wt_ch w = []"
    using fake_invD(1,2,4) [OF inv] by (simp_all add: distinct_map_filter claim_fields)
  note del = deliver_all [OF pre]
  show "fst (fake_Advance d f) = []" using del by (simp add: e)
  show "fk_now f' = fk_now f + d" "length (fk_chans f') = length (fk_chans f)" using del by (simp_all add: f'_def e claim_fields)
  show "fk_waiters f' = filter (\<lambda>w. fk_now f + d < wt_at w) (fk_waiters f)" using del by (simp add: f'_def e claim_fields is_due_def)
  have "wt_ch ` set ?due = wt_ch ` {w \<in> set (fk_waiters f). wt_at w \<le> fk_now f + d}" by (auto simp: is_due_def not_less)
  then show "k < length (fk_chans f) \<Longrightarrow> fk_chans f' ! k =
       (if k \<in> wt_ch ` {w \<in> set (fk_waiters f). wt_at w \<le> fk_now f + d} then [fk_now f + d] else fk_chans f ! k)"
    using del by (simp add: f'_def e claim_fields)
  have "fk_timers (fold claim_timer ws (h\<lparr>fk_now := n, fk_waiters := v\<rparr>)) = fk_timers (fold claim_timer ws h)" for ws h n v
  proof (induction ws arbitrary: h)
    case (Cons w ws)
    have "claim_timer w (h\<lparr>fk_now := n, fk_waiters := v\<rparr>) = (claim_timer w h)\<lparr>fk_now := n, fk_waiters := v\<rparr>"
      by (simp add: claim_timer_def set_timer_def split: option.split)
    then show ?case using Cons.IH [of "claim_timer w h"] by simp
  qed simp
  then show "fk_timers f' = fk_timers (fold claim_timer ?due f)"
    using del by (simp add: f'_def e advance_claim_def Let_def)
qed

lemma map_ft_ch_claimed: "map ft_ch (fk_timers (fold claim_timer ws f)) = map ft_ch (fk_timers f)"
  using fold_claim_timers [of ws f] by (intro nth_equalityI) auto

lemma owner_ok_cong: "map ft_ch ts' = map ft_ch ts \<Longrightarrow> owner_ok ts' w = owner_ok ts w"
proof -
  assume m: "map ft_ch ts' = map ft_ch ts"
  then have "length ts' = length ts" by (metis length_map)
  moreover from m this have "t < length ts \<Longrightarrow> ft_ch (ts' ! t) = ft_ch (ts ! t)" for t by (metis nth_map)
  moreover from m have "ft_ch ` set ts' = ft_ch ` set ts" by (metis list.set_map)
  ultimately show ?thesis by (auto simp: owner_ok_def split: option.split)
qed

lemma fake_Advance_inv:
  assumes inv: "fake_inv f" and d: "0 \<le> d" shows "fake_inv (snd (fake_Advance d f))"
proof -
  let ?f = "snd (fake_Advance d f)" and ?due = "filter (is_due (fk_now f + d)) (fk_waiters f)"
  note fires = fake_Advance_fires [OF inv, where d = d] and claimed = fold_claim_timers [of ?due f]
  have ch: "map ft_ch (fk_timers ?f) = map ft_ch (fk_timers f)" by (simp add: fires map_ft_ch_claimed)
  have kept: "fk_chans ?f ! wt_ch w = []" if "w \<in> set (fk_waiters ?f)" for w
  proof -
    have w: "w \<in> set (fk_waiters f)" "fk_now f + d < wt_at w" using that by (simp_all add: fires)
    have "wt_ch w \<noteq> wt_ch v" if "v \<in> set (fk_waiters f)" "wt_at v \<le> fk_now f + d" for v
      using waiter_unique [OF inv w(1) that(1)] that(2) w(2) by auto
    then have "wt_ch w \<notin> wt_ch ` {v \<in> set (fk_waiters f). wt_at v \<le> fk_now f + d}" by blast
    then show ?thesis using fake_invD(1,2) [OF inv w(1)] by (simp add: fires)
  qed
  have pending: "ft_st (fk_timers ?f ! t) = TimerPending \<longleftrightarrow> Some t \<in> wt_owner ` set (fk_waiters ?f)" if t: "t < length (fk_timers f)" for t
  proof (cases "Some t \<in> wt_owner ` set ?due")
    case True
    then obtain w where w: "w \<in> set (fk_waiters f)" "wt_at w \<le> fk_now f + d" "wt_owner w = Some t" by (auto simp: is_due_def not_less)
    have "wt_owner v \<noteq> Some t" if "v \<in> set (fk_waiters ?f)" for v
      using owner_unique [OF inv w(1) _ w(3), of v] that w(2) by (auto simp: fires(3))
    then have "Some t \<notin> wt_owner ` set (fk_waiters ?f)" by (metis imageE)
    moreover have "ft_st (fk_timers ?f ! t) = TimerFired" using True claimed t by (simp add: fires)
    ultimately show ?thesis by simp
  next
    case False
    then have "Some t \<in> wt_owner ` set (fk_waiters ?f) \<longleftrightarrow> Some t \<in> wt_owner ` set (fk_waiters f)"
      by (auto simp: fires(3) is_due_def image_iff not_less not_le)
    then show ?thesis using False claimed t fake_invD(9) [OF inv t] by (simp add: fires)
  qed
  have len: "length (fk_timers ?f) = length (fk_timers f)" using ch by (metis length_map)
  have chan: "ft_ch (fk_timers ?f ! t) < length (fk_chans f)" if "t < length (fk_timers f)" for t
    using fake_invD(8) [OF inv that] ch len that by (metis nth_map)
  have "owner_ok (fk_timers ?f) w" if "w \<in> set (fk_waiters f)" for w
    using inv that owner_ok_cong [OF ch] by (simp add: fake_inv_def)
  moreover have "distinct (map wt_ch (fk_waiters ?f))" "distinct (map ft_ch (fk_timers ?f))"
    using fake_invD(4,5) [OF inv] ch by (simp_all add: fires(3) distinct_map_filter)
  ultimately show ?thesis
    using kept pending chan len fake_invD(1) [OF inv] by (simp add: fake_inv_def fires(2,3,4))
qed

lemma fake_NewTimer_inv:
  assumes inv: "fake_inv f" shows "fake_inv (snd (fake_NewTimer d f))"
proof -
  have owners: "owner_ok (fk_timers f @ [\<lparr>ft_ch = length (fk_chans f), ft_st = st\<rparr>]) w" if "w \<in> set (fk_waiters f)" for w st
    using inv that fake_invD(1) [OF inv that] by (auto simp: fake_inv_def owner_ok_def nth_append split: option.splits)
  have none: "Some (length (fk_timers f)) \<notin> wt_owner ` set (fk_waiters f)"
    using fake_invD(6) [OF inv] by (metis imageE less_irrefl)
  let ?n = "length (fk_chans f)"
  have fired: "fake_inv (f\<lparr>fk_chans := fk_chans f @ [b], fk_timers := fk_timers f @ [\<lparr>ft_ch = ?n, ft_st = TimerFired\<rparr>]\<rparr>)" for b
    using inv owners none fresh_channel [OF inv] by (auto simp: fake_inv_def nth_append less_Suc_eq)
  have "fake_inv (f\<lparr>fk_chans := fk_chans f @ [[]], fk_timers := fk_timers f @ [\<lparr>ft_ch = ?n, ft_st = TimerPending\<rparr>],
      fk_waiters := fk_waiters f @ [\<lparr>wt_at = fk_now f + d, wt_ch = ?n, wt_owner = Some (length (fk_timers f))\<rparr>]\<rparr>)" if "0 < d"
    using inv owners none fresh_channel [OF inv] that by (auto simp: fake_inv_def nth_append less_Suc_eq owner_ok_def [of _ "\<lparr>wt_at = a, wt_ch = c, wt_owner = w\<rparr>" for a c w])
  then show ?thesis using fired by (simp add: fake_NewTimer_def new_chan_def add_waiter_def Let_def)
qed

lemma removeWaiter_filter:
  "distinct ws \<Longrightarrow> (\<And>w v. w \<in> set ws \<Longrightarrow> v \<in> set ws \<Longrightarrow> wt_owner w = Some t \<Longrightarrow> wt_owner v = Some t \<Longrightarrow> w = v) \<Longrightarrow>
     removeWaiter t ws = filter (\<lambda>w. wt_owner w \<noteq> Some t) ws"
proof (induction ws)
  case (Cons w ws)
  show ?case
  proof (cases "wt_owner w = Some t")
    case True
    then have "wt_owner v \<noteq> Some t" if "v \<in> set ws" for v using Cons.prems that by fastforce
    then show ?thesis using True by simp
  next
    case False
    then show ?thesis using Cons by auto
  qed
qed simp

lemma removeWaiter_inv:
  assumes inv: "fake_inv f" shows "removeWaiter t (fk_waiters f) = filter (\<lambda>w. wt_owner w \<noteq> Some t) (fk_waiters f)"
  using fake_invD(4) [OF inv] owner_unique [OF inv] by (intro removeWaiter_filter) (auto simp: distinct_map)

text \<open>The timer without its waiter.\<close>

definition idle_timer :: "nat \<Rightarrow> timer_state \<Rightarrow> fake \<Rightarrow> fake" where
  "idle_timer t st f = (set_timer t st f)\<lparr>fk_waiters := filter (\<lambda>w. wt_owner w \<noteq> Some t) (fk_waiters f)\<rparr>"

lemma map_ft_ch_set_timer: "t < length (fk_timers f) \<Longrightarrow> map ft_ch (fk_timers (set_timer t st f)) = map ft_ch (fk_timers f)"
  by (simp add: set_timer_def map_update) (metis length_map list_update_id nth_map)

lemma idle_timer_inv:
  assumes inv: "fake_inv f" and t: "t < length (fk_timers f)" and st: "st \<noteq> TimerPending"
  shows "fake_inv (idle_timer t st f)" "ft_ch (fk_timers f ! t) \<notin> wt_ch ` set (fk_waiters (idle_timer t st f))"
proof -
  let ?g = "idle_timer t st f"
  have ch: "map ft_ch (fk_timers ?g) = map ft_ch (fk_timers f)" using map_ft_ch_set_timer [OF t] by (simp add: idle_timer_def)
  have "owner_ok (fk_timers ?g) w" if "w \<in> set (fk_waiters f)" for w
    using inv that owner_ok_cong [OF ch] by (simp add: fake_inv_def)
  moreover have "ft_st (fk_timers ?g ! s) = TimerPending \<longleftrightarrow> Some s \<in> wt_owner ` set (fk_waiters ?g)" if "s < length (fk_timers f)" for s
    using fake_invD(9) [OF inv that] st t that by (cases "s = t") (force simp: idle_timer_def set_timer_def)+
  moreover have "ft_ch (fk_timers ?g ! s) < length (fk_chans f)" if "s < length (fk_timers f)" for s
    using fake_invD(8) [OF inv that] ch that by (metis length_map nth_map)
  moreover have "distinct (map wt_ch (fk_waiters ?g))" "distinct (map ft_ch (fk_timers ?g))"
    using fake_invD(4,5) [OF inv] ch by (simp_all add: idle_timer_def distinct_map_filter)
  ultimately show "fake_inv ?g"
    using fake_invD(1,2,3) [OF inv] by (auto simp: fake_inv_def idle_timer_def set_timer_def)
  show "ft_ch (fk_timers f ! t) \<notin> wt_ch ` set (fk_waiters ?g)"
    using timer_channel_free [OF inv t] by (auto simp: idle_timer_def)
qed

lemma timer_Stop_inv:
  assumes inv: "fake_inv f" and t: "t < length (fk_timers f)" shows "fake_inv (snd (timer_Stop t f))"
  using idle_timer_inv(1) [OF inv t, of TimerStopped] inv removeWaiter_inv [OF inv, of t]
  by (simp add: timer_Stop_def idle_timer_def set_timer_def)

lemma timer_Reset_inv:
  assumes inv: "fake_inv f" and t: "t < length (fk_timers f)" and drained: "fk_chans f ! ft_ch (fk_timers f ! t) = []"
  shows "fake_inv (snd (timer_Reset d t f))"
proof -
  let ?ch = "ft_ch (fk_timers f ! t)"
  have none: "filter (\<lambda>w. wt_owner w \<noteq> Some t) (fk_waiters f) = fk_waiters f" if "ft_st (fk_timers f ! t) \<noteq> TimerPending"
    using fake_invD(9) [OF inv t] that by (force simp: filter_id_conv)
  have free: "(if ft_st (fk_timers f ! t) = TimerPending then f\<lparr>fk_waiters := removeWaiter t (fk_waiters f)\<rparr> else f)
      = f\<lparr>fk_waiters := filter (\<lambda>w. wt_owner w \<noteq> Some t) (fk_waiters f)\<rparr>"
    using none removeWaiter_inv [OF inv, of t] by simp
  note idle = idle_timer_inv [OF inv t, of TimerFired]
  show ?thesis
  proof (cases "d \<le> 0")
    case True
    then have r: "snd (timer_Reset d t f) = (idle_timer t TimerFired f)\<lparr>fk_chans := (fk_chans f)[?ch := [fk_now f]]\<rparr>"
      using drained unfolding timer_Reset_def Let_def free by (simp add: idle_timer_def set_timer_def)
    have "(fk_chans f)[?ch := [fk_now f]] ! wt_ch w = []" if "w \<in> set (fk_waiters (idle_timer t TimerFired f))" for w
    proof -
      have "w \<in> set (fk_waiters f)" "wt_ch w \<noteq> ?ch" using that idle(2) by (auto simp: idle_timer_def image_iff)
      then show ?thesis using fake_invD(2) [OF inv] by (metis nth_list_update_neq)
    qed
    then show ?thesis unfolding r using idle(1) by (simp add: fake_inv_def) (simp add: idle_timer_def set_timer_def)
  next
    case False
    let ?g = "idle_timer t TimerPending f" and ?w = "\<lparr>wt_at = fk_now f + d, wt_ch = ?ch, wt_owner = Some t\<rparr>"
    have r: "snd (timer_Reset d t f) = ?g\<lparr>fk_waiters := fk_waiters ?g @ [?w]\<rparr>"
      using False unfolding timer_Reset_def Let_def free by (simp add: idle_timer_def set_timer_def add_waiter_def)
    have same: "fk_waiters ?g = fk_waiters (idle_timer t TimerFired f)" by (simp add: idle_timer_def)
    have ch: "map ft_ch (fk_timers ?g) = map ft_ch (fk_timers f)" using map_ft_ch_set_timer [OF t] by (simp add: idle_timer_def)
    have "owner_ok (fk_timers ?g) w" if "w \<in> set (fk_waiters f)" for w
      using inv that owner_ok_cong [OF ch] by (simp add: fake_inv_def)
    moreover have "owner_ok (fk_timers ?g) ?w" using t by (simp add: owner_ok_def idle_timer_def set_timer_def)
    moreover have "ft_st (fk_timers ?g ! s) = TimerPending \<longleftrightarrow> Some s \<in> wt_owner ` set (fk_waiters ?g @ [?w])" if "s < length (fk_timers f)" for s
      using fake_invD(9) [OF inv that] t that by (cases "s = t") (force simp: idle_timer_def set_timer_def)+
    moreover have "ft_ch (fk_timers ?g ! s) < length (fk_chans f)" if "s < length (fk_timers f)" for s
      using fake_invD(8) [OF inv that] ch that by (metis length_map nth_map)
    moreover have "distinct (map wt_ch (fk_waiters ?g @ [?w]))" "distinct (map ft_ch (fk_timers ?g))"
      using fake_invD(4,5) [OF inv] idle(2) ch unfolding same by (auto simp: idle_timer_def distinct_map_filter)
    ultimately show ?thesis
      unfolding r using fake_invD(1,2,3) [OF inv] fake_invD(8) [OF inv t] drained False
      by (auto simp: fake_inv_def idle_timer_def set_timer_def)
  qed
qed

section \<open>Properties\<close>

text \<open>The clock as its users may drive it: a timer whose fire was not read is not reset.\<close>

inductive fake_reach :: "fake \<Rightarrow> bool" where
  fr_new: "fake_reach (NewFake start)"
| fr_until: "fake_reach f \<Longrightarrow> fake_reach (snd (fake_Until t f))"
| fr_after: "fake_reach f \<Longrightarrow> fake_reach (snd (fake_After d f))"
| fr_timer: "fake_reach f \<Longrightarrow> fake_reach (snd (fake_NewTimer d f))"
| fr_stop: "fake_reach f \<Longrightarrow> t < length (fk_timers f) \<Longrightarrow> fake_reach (snd (timer_Stop t f))"
| fr_reset: "fake_reach f \<Longrightarrow> t < length (fk_timers f) \<Longrightarrow> fk_chans f ! ft_ch (fk_timers f ! t) = [] \<Longrightarrow>
    fake_reach (snd (timer_Reset d t f))"
| fr_recv: "fake_reach f \<Longrightarrow> fake_reach (fake_recv ch f)"
| fr_advance: "fake_reach f \<Longrightarrow> 0 \<le> d \<Longrightarrow> fake_reach (snd (fake_Advance d f))"

lemma fake_reach_inv: "fake_reach f \<Longrightarrow> fake_inv f"
  by (induction rule: fake_reach.induct)
    (simp_all add: fake_inv_new fake_Until_inv fake_After_Until fake_NewTimer_inv timer_Stop_inv timer_Reset_inv fake_recv_inv fake_Advance_inv)

text \<open>
  Advancing the fake clock fires exactly the waiters that are due, once each
  and with the new time, never blocks, and keeps every other waiter: in every state
  users can drive the clock to without resetting a timer whose fire is unread, every
  due channel gets one value, every other channel is untouched, what stays registered
  lies in the future, and a timer is pending exactly while it has a registered fire.
\<close>

theorem advance_fires_exactly_the_due:
  assumes "fake_reach f" "0 \<le> d" "fake_Advance d f = (blocked, f')"
  shows "blocked = [] \<and> fk_now f' = fk_now f + d
       \<and> fk_waiters f' = filter (\<lambda>w. fk_now f' < wt_at w) (fk_waiters f)
       \<and> (\<forall>c < length (fk_chans f). fk_chans f' ! c =
            (if \<exists>w \<in> set (fk_waiters f). wt_ch w = c \<and> wt_at w \<le> fk_now f' then [fk_now f'] else fk_chans f ! c))
       \<and> (\<forall>t < length (fk_timers f'). ft_st (fk_timers f' ! t) = TimerPending \<longleftrightarrow> Some t \<in> wt_owner ` set (fk_waiters f'))"
proof -
  have inv: "fake_inv f" using fake_reach_inv assms(1) .
  note fires = fake_Advance_fires [OF inv, where d = d, unfolded assms(3) fst_conv snd_conv]
  have "fake_inv f'" using fake_Advance_inv [OF inv assms(2)] assms(3) by simp
  then have pending: "\<forall>t < length (fk_timers f'). ft_st (fk_timers f' ! t) = TimerPending \<longleftrightarrow> Some t \<in> wt_owner ` set (fk_waiters f')"
    using fake_invD(9) by blast
  have "(\<exists>w \<in> set (fk_waiters f). wt_ch w = c \<and> wt_at w \<le> fk_now f + d) \<longleftrightarrow> c \<in> wt_ch ` {w \<in> set (fk_waiters f). wt_at w \<le> fk_now f + d}" for c
    by auto
  then show ?thesis using fires(1-5) pending by simp
qed

text \<open>
  The invariant does not survive a reset of a fired timer whose value was not
  read: the next fire finds the channel full and \<^verbatim>\<open>Advance\<close> blocks, although the
  reset is documented as safe on any timer.
\<close>

theorem reset_after_unread_fire_blocks_advance:
  "let (t, f1) = fake_NewTimer 5 (NewFake 0);
       (b1, f2) = fake_Advance 5 f1;
       (p, f3) = timer_Reset 5 t f2;
       (b2, f4) = fake_Advance 5 f3
   in b1 = [] \<and> \<not> p \<and> b2 \<noteq> []"
  by code_simp

theorem advance_fires_exactly_the_due_witness:
  "let f = snd (fake_After 7 (snd (fake_NewTimer 5 (NewFake 0)))) in
     fake_reach f \<and> fst (fake_Advance 6 f) = [] \<and> fk_chans (snd (fake_Advance 6 f)) ! 0 = [6]
     \<and> fk_chans (snd (fake_Advance 6 f)) ! 1 = []"
proof -
  let ?f = "snd (fake_After 7 (snd (fake_NewTimer 5 (NewFake 0))))"
  have reach: "fake_reach ?f" by (intro fake_reach.intros)
  have f: "?f = \<lparr>fk_now = 0, fk_waiters = [\<lparr>wt_at = 5, wt_ch = 0, wt_owner = Some 0\<rparr>, \<lparr>wt_at = 7, wt_ch = 1, wt_owner = None\<rparr>],
      fk_chans = [[], []], fk_timers = [\<lparr>ft_ch = 0, ft_st = TimerPending\<rparr>]\<rparr>" by code_simp
  have "(0 :: int) \<le> 6" by simp
  from advance_fires_exactly_the_due [OF reach this, of "fst (fake_Advance 6 ?f)" "snd (fake_Advance 6 ?f)"] reach show ?thesis
    unfolding Let_def f by simp
qed

end
