(* ===== verification/Fleet.thy ===== *)
theory Fleet
  imports FakeClock "HOL-Library.Multiset"
begin

text \<open>
  \<^verbatim>\<open>src/internal/testnet/testnet.go\<close> and \<^verbatim>\<open>fleet.go\<close>: the stream link of the test network and the
  simulated fleet on the deterministic clock.  A reactor goroutine is its program
  counter, \<^verbatim>\<open>Schedule\<close> is in progress between counting an event and offering it, the
  driver \<^verbatim>\<open>advanceUntilQuiescent\<close> is a program counter too, so that every interleaving of
  reactors, schedulers and driver is a run.  The handler is arbitrary code: while a
  reactor is in it, events may be scheduled and logged.  \<open>fl_scheduled\<close>, \<open>fl_handled\<close> and
  \<open>fl_abandoned\<close> are history variables.
\<close>

section \<open>The stream link (testnet.go)\<close>

record stream_link =
  sl_latency :: duration
  sl_partitioned :: bool

definition ErrPartitioned :: string where "ErrPartitioned = ''testnet: link is partitioned''"

definition NewLink :: "duration \<Rightarrow> stream_link" where "NewLink d = \<lparr>sl_latency = d, sl_partitioned = False\<rparr>"
definition link_Partition :: "stream_link \<Rightarrow> stream_link" where "link_Partition l = l\<lparr>sl_partitioned := True\<rparr>"
definition link_Heal :: "stream_link \<Rightarrow> stream_link" where "link_Heal l = l\<lparr>sl_partitioned := False\<rparr>"
definition link_Partitioned :: "stream_link \<Rightarrow> bool" where "link_Partitioned l = sl_partitioned l"
definition link_SetLatency :: "duration \<Rightarrow> stream_link \<Rightarrow> stream_link" where "link_SetLatency d l = l\<lparr>sl_latency := d\<rparr>"
definition link_latency :: "stream_link \<Rightarrow> duration" where "link_latency l = sl_latency l"

text \<open>The calls of a link's connection over those of the pipe below; a write sees the link when it
  is called and again, \<open>later\<close>, after its wait, which it makes only for a positive latency.\<close>

definition linkConn_Read :: "(string, 'n) result \<Rightarrow> stream_link \<Rightarrow> (string, 'n) result" where
  "linkConn_Read pipe l = (if link_Partitioned l then Err ErrPartitioned else pipe)"

definition linkConn_Write :: "(string, 'n) result \<Rightarrow> stream_link \<Rightarrow> stream_link \<Rightarrow> duration \<times> (string, 'n) result" where
  "linkConn_Write pipe l later =
     (if link_Partitioned l then (0, Err ErrPartitioned)
      else (if 0 < link_latency l then link_latency l else 0,
            if link_Partitioned later then Err ErrPartitioned else pipe))"

section \<open>The fleet (fleet.go)\<close>

record fleet_event =
  fe_At :: time
  fe_Client :: nat
  fe_Kind :: string

datatype reactor = RtNone | RtEntering | RtIdle | RtOpen fleet_event | RtParked fleet_event nat
  | RtHandling fleet_event | RtGone

datatype driver = DrvOff | DrvTop duration int int int | DrvZero duration int int int | DrvClock duration int int int | DrvNil | DrvErr

record fleet =
  fl_clk :: fake
  fl_started :: bool
  fl_entered :: int
  fl_pending :: int
  fl_log :: "fleet_event list"
  fl_links :: "stream_link list"
  fl_serverOpen :: "bool list"
  fl_clientOpen :: "bool list"
  fl_queues :: "fleet_event list list"
  fl_reactors :: "reactor list"
  fl_quit :: bool
  fl_offers :: "fleet_event list"
  fl_driver :: driver
  fl_scheduled :: "fleet_event list"
  fl_handled :: "fleet_event list"
  fl_abandoned :: "fleet_event list"

definition clientQueueCapacity :: nat where "clientQueueCapacity = 16"
definition maxIdleIterations :: int where "maxIdleIterations = 10000"

definition NewFleet :: "fake \<Rightarrow> int \<Rightarrow> (string, fleet) result" where
  "NewFleet clk n =
     (if n \<le> 0 then Err ''testnet: NewFleet requires at least one client''
      else Ok \<lparr>fl_clk = clk, fl_started = False, fl_entered = 0, fl_pending = 0, fl_log = [],
        fl_links = replicate (nat n) (NewLink 0), fl_serverOpen = replicate (nat n) True, fl_clientOpen = replicate (nat n) True,
        fl_queues = replicate (nat n) [], fl_reactors = replicate (nat n) RtNone, fl_quit = False, fl_offers = [],
        fl_driver = DrvOff, fl_scheduled = [], fl_handled = [], fl_abandoned = []\<rparr>)"

definition fleet_Size :: "fleet \<Rightarrow> nat" where "fleet_Size f = length (fl_reactors f)"
definition PartitionAll :: "fleet \<Rightarrow> fleet" where "PartitionAll f = f\<lparr>fl_links := map link_Partition (fl_links f)\<rparr>"
definition HealAll :: "fleet \<Rightarrow> fleet" where "HealAll f = f\<lparr>fl_links := map link_Heal (fl_links f)\<rparr>"
definition DropAll :: "fleet \<Rightarrow> fleet" where "DropAll f = f\<lparr>fl_serverOpen := map (\<lambda>_. False) (fl_serverOpen f)\<rparr>"

text \<open>\<^verbatim>\<open>Start\<close> is given whether its handler is not nil.  \<^verbatim>\<open>Schedule\<close>: counted first, then offered; a full queue takes the count back and panics.\<close>

definition schedule_count :: "fleet_event \<Rightarrow> fleet \<Rightarrow> fleet" where
  "schedule_count ev f =
     (if fl_quit f then f else f\<lparr>fl_pending := fl_pending f + 1, fl_offers := fl_offers f @ [ev]\<rparr>)"

definition schedule_offer :: "fleet_event list \<Rightarrow> fleet_event \<Rightarrow> fleet_event list \<Rightarrow> fleet \<Rightarrow> (string, unit) result \<times> fleet" where
  "schedule_offer us ev vs f =
     (let i = fe_Client ev; q = fl_queues f ! i
      in if length q < clientQueueCapacity
         then (Ok (), f\<lparr>fl_offers := us @ vs, fl_queues := (fl_queues f)[i := q @ [ev]], fl_scheduled := fl_scheduled f @ [ev]\<rparr>)
         else (Err ''testnet: client has too many queued events'', f\<lparr>fl_offers := us @ vs, fl_pending := fl_pending f - 1\<rparr>))"

definition fleet_Start :: "bool \<Rightarrow> fleet \<Rightarrow> (string, fleet) result" where
  "fleet_Start handler f =
     (if \<not> handler then Err ''testnet: Fleet.Start requires a handler''
      else if fl_started f then Err ''testnet: Fleet.Start called twice''
      else Ok (f\<lparr>fl_started := True, fl_reactors := map (\<lambda>_. RtEntering) (fl_reactors f)\<rparr>))"

definition set_reactor :: "nat \<Rightarrow> reactor \<Rightarrow> fleet \<Rightarrow> fleet" where
  "set_reactor i r f = f\<lparr>fl_reactors := (fl_reactors f)[i := r]\<rparr>"

text \<open>One step of \<^verbatim>\<open>run(i)\<close>; where both cases of a \<^verbatim>\<open>select\<close> are ready, \<open>leave\<close> takes the quit case.
  \<^term>\<open>None\<close> means that the goroutine is blocked or has returned.\<close>

definition reactor_step :: "bool \<Rightarrow> nat \<Rightarrow> fleet \<Rightarrow> fleet option" where
  "reactor_step leave i f =
     (case fl_reactors f ! i of
        RtEntering \<Rightarrow> Some (set_reactor i RtIdle (f\<lparr>fl_entered := fl_entered f + 1\<rparr>))
      | RtIdle \<Rightarrow>
          (if fl_quit f \<and> (leave \<or> fl_queues f ! i = []) then Some (set_reactor i RtGone f)
           else case fl_queues f ! i of
             [] \<Rightarrow> None
           | ev # q \<Rightarrow> Some (set_reactor i (RtOpen ev) (f\<lparr>fl_queues := (fl_queues f)[i := q]\<rparr>)))
      | RtOpen ev \<Rightarrow>
          (case fake_Until (fe_At ev) (fl_clk f) of
             (ch, clk) \<Rightarrow> Some (set_reactor i (RtParked ev ch) (f\<lparr>fl_clk := clk\<rparr>)))
      | RtParked ev ch \<Rightarrow>
          (if fl_quit f \<and> (leave \<or> fk_chans (fl_clk f) ! ch = [])
           then Some (set_reactor i RtGone (f\<lparr>fl_pending := fl_pending f - 1, fl_abandoned := fl_abandoned f @ [ev]\<rparr>))
           else if fk_chans (fl_clk f) ! ch = [] then None
           else Some (set_reactor i (RtHandling ev) (f\<lparr>fl_clk := fake_recv ch (fl_clk f)\<rparr>)))
      | RtHandling ev \<Rightarrow> Some (set_reactor i RtIdle (f\<lparr>fl_pending := fl_pending f - 1, fl_handled := fl_handled f @ [ev]\<rparr>))
      | _ \<Rightarrow> None)"

definition fleet_Log :: "fleet_event \<Rightarrow> fleet \<Rightarrow> fleet" where "fleet_Log ev f = f\<lparr>fl_log := fl_log f @ [ev]\<rparr>"
definition fleet_Events :: "fleet \<Rightarrow> fleet_event list" where "fleet_Events f = fl_log f"

text \<open>The driver: its call, and one step between two points where others can run.\<close>

definition AdvanceUntilQuiescent :: "duration \<Rightarrow> int \<Rightarrow> fleet \<Rightarrow> fleet" where
  "AdvanceUntilQuiescent d maxSteps f = f\<lparr>fl_driver := (if d \<le> 0 then DrvErr else DrvTop d maxSteps 0 0)\<rparr>"

definition driver_step :: "fleet \<Rightarrow> fleet" where
  "driver_step f =
     (case fl_driver f of
        DrvTop d maxSteps advances idle \<Rightarrow>
          f\<lparr>fl_driver := (if advances < maxSteps
              then (if fl_pending f = 0 then DrvZero d maxSteps advances idle else DrvClock d maxSteps advances idle)
              else DrvErr)\<rparr>
      | DrvZero d maxSteps advances idle \<Rightarrow>
          f\<lparr>fl_driver := (if fl_entered f = int (length (fl_reactors f)) then DrvNil else DrvClock d maxSteps advances idle)\<rparr>
      | DrvClock d maxSteps advances idle \<Rightarrow>
          (if fake_Waiters (fl_clk f) > 0
           then f\<lparr>fl_clk := snd (fake_Advance d (fl_clk f)), fl_driver := DrvTop d maxSteps (advances + 1) 0\<rparr>
           else f\<lparr>fl_driver := (if idle + 1 > maxIdleIterations then DrvErr else DrvTop d maxSteps advances (idle + 1))\<rparr>)
      | _ \<Rightarrow> f)"

text \<open>\<^verbatim>\<open>Shutdown\<close> up to its wait for the reactors.\<close>

definition fleet_Shutdown :: "fleet \<Rightarrow> fleet" where
  "fleet_Shutdown f = f\<lparr>fl_serverOpen := map (\<lambda>_. False) (fl_serverOpen f), fl_clientOpen := map (\<lambda>_. False) (fl_clientOpen f), fl_quit := True\<rparr>"

section \<open>Interleavings\<close>

definition in_handler :: "fleet \<Rightarrow> bool" where "in_handler f \<longleftrightarrow> (\<exists>ev. RtHandling ev \<in> set (fl_reactors f))"

text \<open>With \<open>test\<close>, the test that owns the fleet may act too; without, only handlers schedule and
  nobody shuts the fleet down.\<close>

inductive fleet_step :: "bool \<Rightarrow> fleet \<Rightarrow> fleet \<Rightarrow> bool" for test :: bool where
  fs_count: "test \<or> in_handler f \<Longrightarrow> fe_Client ev < length (fl_queues f) \<Longrightarrow> fleet_step test f (schedule_count ev f)"
| fs_offer: "fl_offers f = us @ ev # vs \<Longrightarrow> schedule_offer us ev vs f = (r, f') \<Longrightarrow> fleet_step test f f'"
| fs_log: "fleet_step test f (fleet_Log ev f)"
| fs_link: "fleet_step test f (f\<lparr>fl_links := (fl_links f)[i := l]\<rparr>)"
| fs_partition: "fleet_step test f (PartitionAll f)"
| fs_heal: "fleet_step test f (HealAll f)"
| fs_drop: "fleet_step test f (DropAll f)"
| fs_start: "test \<Longrightarrow> fleet_Start h f = Ok f' \<Longrightarrow> fleet_step test f f'"
| fs_run: "i < length (fl_reactors f) \<Longrightarrow> reactor_step leave i f = Some f' \<Longrightarrow> fleet_step test f f'"
| fs_drive: "fleet_step test f (driver_step f)"
| fs_advance: "test \<Longrightarrow> fl_driver f \<in> {DrvOff, DrvNil, DrvErr} \<Longrightarrow> fleet_step test f (AdvanceUntilQuiescent d m f)"
| fs_shutdown: "test \<Longrightarrow> fleet_step test f (fleet_Shutdown f)"

inductive fleet_reach :: "bool \<Rightarrow> fleet \<Rightarrow> fleet \<Rightarrow> bool" for test :: bool where
  fleet_here: "fleet_reach test f f"
| fleet_next: "fleet_reach test f f1 \<Longrightarrow> fleet_step test f1 f2 \<Longrightarrow> fleet_reach test f f2"

section \<open>Accounting\<close>

fun turn :: "reactor \<Rightarrow> fleet_event multiset" where
  "turn (RtOpen ev) = {#ev#}"
| "turn (RtParked ev ch) = {#ev#}"
| "turn (RtHandling ev) = {#ev#}"
| "turn r = {#}"

definition unfinished :: "fleet \<Rightarrow> fleet_event multiset" where
  "unfinished f = sum_list (map mset (fl_queues f)) + sum_list (map turn (fl_reactors f))"

definition accounted :: "fleet \<Rightarrow> bool" where
  "accounted f \<longleftrightarrow> length (fl_queues f) = length (fl_reactors f) \<and> (\<forall>ev \<in> set (fl_offers f). fe_Client ev < length (fl_queues f))
     \<and> fl_pending f = int (length (fl_offers f) + size (unfinished f))
     \<and> mset (fl_scheduled f) = mset (fl_handled f) + mset (fl_abandoned f) + unfinished f
     \<and> (\<not> fl_quit f \<longrightarrow> fl_abandoned f = [])
     \<and> (\<not> fl_started f \<longrightarrow> fl_reactors f = replicate (length (fl_reactors f)) RtNone)"

lemma unfinished_queue:
  assumes "i < length (fl_queues f)"
  shows "unfinished (f\<lparr>fl_queues := (fl_queues f)[i := q]\<rparr>) + mset (fl_queues f ! i) = unfinished f + mset q"
  using sum_list_exchange [OF assms, of mset q] by (simp add: unfinished_def ac_simps)

lemma unfinished_reactor:
  assumes "i < length (fl_reactors f)"
  shows "unfinished (set_reactor i r f) + turn (fl_reactors f ! i) = unfinished f + turn r"
  using sum_list_exchange [OF assms, of turn r] by (simp add: unfinished_def set_reactor_def ac_simps)

lemma unfinished_cong: "fl_queues f' = fl_queues f \<Longrightarrow> fl_reactors f' = fl_reactors f \<Longrightarrow> unfinished f' = unfinished f"
  by (simp add: unfinished_def)

lemma accounted_frame:
  assumes "accounted f" "fl_queues f' = fl_queues f" "fl_reactors f' = fl_reactors f" "fl_offers f' = fl_offers f"
    and "fl_pending f' = fl_pending f" "fl_scheduled f' = fl_scheduled f" "fl_handled f' = fl_handled f"
    and "fl_abandoned f' = fl_abandoned f" "fl_quit f \<Longrightarrow> fl_quit f'" "fl_started f' = fl_started f"
  shows "accounted f'"
  using assms unfinished_cong [of f' f] by (auto simp: accounted_def)

text \<open>A reactor that moves an event from its queue to its turn, or on within the turn.\<close>

lemma accounted_turn:
  assumes "accounted f" "i < length (fl_reactors f)" "fl_started f" "unfinished f' = unfinished f"
    and "length (fl_queues f') = length (fl_queues f)" "length (fl_reactors f') = length (fl_reactors f)"
    and "fl_offers f' = fl_offers f" "fl_pending f' = fl_pending f" "fl_scheduled f' = fl_scheduled f"
    and "fl_handled f' = fl_handled f" "fl_abandoned f' = fl_abandoned f" "fl_quit f' = fl_quit f" "fl_started f'"
  shows "accounted f'"
  using assms by (auto simp: accounted_def)

lemma reactor_started: "accounted f \<Longrightarrow> i < length (fl_reactors f) \<Longrightarrow> fl_reactors f ! i \<noteq> RtNone \<Longrightarrow> fl_started f"
  by (metis accounted_def nth_replicate)

lemma reactor_step_accounted:
  assumes acc: "accounted f" and i: "i < length (fl_reactors f)" and step: "reactor_step leave i f = Some f'"
  shows "accounted f'"
proof -
  have ne: "fl_reactors f ! i \<noteq> RtNone" using step by (auto simp: reactor_step_def)
  note st = reactor_started [OF acc i ne]
  have iq: "i < length (fl_queues f)" using acc i by (simp add: accounted_def)
  note re = unfinished_reactor [OF i] and turned = accounted_turn [OF acc i st]
  show ?thesis
  proof (cases "fl_reactors f ! i")
    case RtEntering
    have "unfinished (set_reactor i RtIdle (f\<lparr>fl_entered := fl_entered f + 1\<rparr>)) = unfinished f"
      using re [of RtIdle] RtEntering by (simp add: unfinished_def set_reactor_def)
    moreover have "f' = set_reactor i RtIdle (f\<lparr>fl_entered := fl_entered f + 1\<rparr>)" using step RtEntering by (simp add: reactor_step_def)
    ultimately have "unfinished f' = unfinished f" "f' = set_reactor i RtIdle (f\<lparr>fl_entered := fl_entered f + 1\<rparr>)" by simp_all
    then show ?thesis by (elim turned) (simp_all add: set_reactor_def st)
  next
    case RtIdle
    consider (gone) "f' = set_reactor i RtGone f"
      | (took) ev q where "fl_queues f ! i = ev # q" "f' = set_reactor i (RtOpen ev) (f\<lparr>fl_queues := (fl_queues f)[i := q]\<rparr>)"
      using step RtIdle by (auto simp: reactor_step_def split: if_splits list.splits)
    then show ?thesis
    proof cases
      case gone
      have "unfinished f' = unfinished f" using re [of RtGone] RtIdle gone by simp
      then show ?thesis using gone by (elim turned) (simp_all add: set_reactor_def st)
    next
      case (took ev q)
      have "unfinished f' = unfinished (f\<lparr>fl_queues := (fl_queues f)[i := q]\<rparr>) + {#ev#}"
        using unfinished_reactor [of i "f\<lparr>fl_queues := (fl_queues f)[i := q]\<rparr>" "RtOpen ev"] i RtIdle took(2) by simp
      also have "\<dots> + mset q = unfinished f + mset q" using unfinished_queue [OF iq, of q] took(1) by simp
      then have "unfinished (f\<lparr>fl_queues := (fl_queues f)[i := q]\<rparr>) + {#ev#} = unfinished f" by (simp only: add_right_cancel)
      finally show ?thesis using took(2) by (elim turned) (simp_all add: set_reactor_def st)
    qed
  next
    case (RtOpen ev)
    obtain ch clk where u: "fake_Until (fe_At ev) (fl_clk f) = (ch, clk)" by fastforce
    have f': "f' = set_reactor i (RtParked ev ch) (f\<lparr>fl_clk := clk\<rparr>)" using RtOpen step u by (simp add: reactor_step_def)
    then have "unfinished f' = unfinished f"
      using re [of "RtParked ev ch"] RtOpen by (simp add: unfinished_def set_reactor_def)
    then show ?thesis using f' by (elim turned) (simp_all add: set_reactor_def st)
  next
    case (RtParked ev ch)
    show ?thesis
    proof (cases "f' = set_reactor i (RtHandling ev) (f\<lparr>fl_clk := fake_recv ch (fl_clk f)\<rparr>)")
      case True
      have "unfinished f' = unfinished f"
        using re [of "RtHandling ev"] RtParked True by (auto simp: unfinished_def set_reactor_def)
      then show ?thesis using True by (elim turned) (simp_all add: set_reactor_def st)
    next
      case False
      then have f': "fl_quit f" "f' = set_reactor i RtGone (f\<lparr>fl_pending := fl_pending f - 1, fl_abandoned := fl_abandoned f @ [ev]\<rparr>)"
        using step RtParked by (auto simp: reactor_step_def split: if_splits)
      have "unfinished f = unfinished f' + {#ev#}"
        using re [of RtGone] RtParked f'(2) by (auto simp: unfinished_def set_reactor_def)
      then show ?thesis using acc f' st by (auto simp: accounted_def set_reactor_def)
    qed
  next
    case (RtHandling ev)
    then have f': "f' = set_reactor i RtIdle (f\<lparr>fl_pending := fl_pending f - 1, fl_handled := fl_handled f @ [ev]\<rparr>)"
      using step by (simp add: reactor_step_def)
    have "unfinished f = unfinished f' + {#ev#}"
      using re [of RtIdle] RtHandling f' by (auto simp: unfinished_def set_reactor_def)
    then show ?thesis using acc f' st by (auto simp: accounted_def set_reactor_def)
  qed (use step in \<open>simp_all add: reactor_step_def\<close>)
qed

lemma offer_accounted:
  assumes acc: "accounted f" and off: "fl_offers f = us @ ev # vs" and s: "schedule_offer us ev vs f = (r, f')"
  shows "accounted f'"
proof -
  have i: "fe_Client ev < length (fl_queues f)" using acc off by (simp add: accounted_def)
  let ?q = "fl_queues f ! fe_Client ev"
  show ?thesis
  proof (cases "length ?q < clientQueueCapacity")
    case True
    then have f': "f' = f\<lparr>fl_offers := us @ vs, fl_queues := (fl_queues f)[fe_Client ev := ?q @ [ev]], fl_scheduled := fl_scheduled f @ [ev]\<rparr>"
      using s by (simp add: schedule_offer_def Let_def)
    have "unfinished f' = unfinished f + {#ev#}"
      using unfinished_queue [OF i, of "?q @ [ev]"] f' by (simp add: unfinished_def ac_simps)
    then show ?thesis using acc off i f' by (auto simp: accounted_def)
  next
    case False
    then have f': "f' = f\<lparr>fl_offers := us @ vs, fl_pending := fl_pending f - 1\<rparr>"
      using s by (simp add: schedule_offer_def Let_def)
    then have "unfinished f' = unfinished f" by (simp add: unfinished_def)
    then show ?thesis using acc off f' by (auto simp: accounted_def)
  qed
qed

lemma driver_step_frame:
  "fl_queues (driver_step f) = fl_queues f" "fl_reactors (driver_step f) = fl_reactors f" "fl_offers (driver_step f) = fl_offers f"
  "fl_pending (driver_step f) = fl_pending f" "fl_scheduled (driver_step f) = fl_scheduled f" "fl_handled (driver_step f) = fl_handled f"
  "fl_abandoned (driver_step f) = fl_abandoned f" "fl_quit (driver_step f) = fl_quit f" "fl_started (driver_step f) = fl_started f"
  by (simp_all add: driver_step_def split: driver.split)

lemma no_turns: "(\<And>r. r \<in> set rs \<Longrightarrow> turn r = {#}) \<Longrightarrow> sum_list (map turn rs) = {#}"
  by (induction rs) auto

lemma fleet_step_accounted: "fleet_step test f f' \<Longrightarrow> accounted f \<Longrightarrow> accounted f'"
proof (induction rule: fleet_step.induct)
  case (fs_count f ev)
  have "unfinished (schedule_count ev f) = unfinished f" by (simp add: unfinished_def schedule_count_def)
  then show ?case using fs_count by (auto simp: accounted_def schedule_count_def)
next
  case (fs_start h f f')
  then have f': "\<not> fl_started f" "f' = f\<lparr>fl_started := True, fl_reactors := map (\<lambda>_. RtEntering) (fl_reactors f)\<rparr>"
    by (auto simp: fleet_Start_def split: if_splits)
  then have "fl_reactors f = replicate (length (fl_reactors f)) RtNone" using fs_start by (simp add: accounted_def)
  then have "sum_list (map turn (fl_reactors f)) = {#}" by (intro no_turns) (metis in_set_replicate turn.simps(4))
  moreover have "sum_list (map turn (fl_reactors f')) = {#}" using f'(2) by (intro no_turns) auto
  ultimately have "unfinished f' = unfinished f" using f'(2) by (simp add: unfinished_def)
  then show ?case using fs_start f' by (auto simp: accounted_def)
next
  case (fs_offer f us ev vs r f')
  then show ?case using offer_accounted by blast
next
  case (fs_run i f leave f')
  then show ?case using reactor_step_accounted by blast
next
  case (fs_drive f)
  then show ?case using driver_step_frame [of f] by (intro accounted_frame [OF fs_drive]) simp_all
next
  case (fs_advance f d m)
  show ?case by (rule accounted_frame [OF fs_advance.prems]) (simp_all add: AdvanceUntilQuiescent_def)
next
  case (fs_shutdown f)
  show ?case by (rule accounted_frame [OF fs_shutdown.prems]) (simp_all add: fleet_Shutdown_def)
qed (erule accounted_frame, simp_all add: fleet_Log_def PartitionAll_def HealAll_def DropAll_def)+

section \<open>The clock\<close>

definition parked_ok :: "fake \<Rightarrow> fleet_event \<Rightarrow> nat \<Rightarrow> bool" where
  "parked_ok clk ev ch \<longleftrightarrow> ch < length (fk_chans clk) \<and> (fk_chans clk ! ch \<noteq> [] \<longrightarrow> fe_At ev \<le> fk_now clk)
     \<and> (fk_chans clk ! ch = [] \<longrightarrow> (\<exists>w \<in> set (fk_waiters clk). wt_ch w = ch \<and> wt_at w = fe_At ev))"

definition chan_of :: "reactor \<Rightarrow> nat list" where
  "chan_of r = (case r of RtParked ev ch \<Rightarrow> [ch] | _ \<Rightarrow> [])"

text \<open>The reactors one by one, against the clock.\<close>

definition timely :: "fake \<Rightarrow> reactor \<Rightarrow> bool" where
  "timely c r \<longleftrightarrow> (case r of RtParked ev ch \<Rightarrow> parked_ok c ev ch | RtHandling ev \<Rightarrow> fe_At ev \<le> fk_now c | _ \<Rightarrow> True)"

lemma timely_simps [simp]:
  "timely c RtNone" "timely c RtEntering" "timely c RtIdle" "timely c RtGone" "timely c (RtOpen ev)"
  "timely c (RtParked ev ch) = parked_ok c ev ch" "timely c (RtHandling ev) \<longleftrightarrow> fe_At ev \<le> fk_now c"
  by (simp_all add: timely_def)

definition apart :: "reactor list \<Rightarrow> bool" where
  "apart rs \<longleftrightarrow> (\<forall>i < length rs. \<forall>j < length rs. i \<noteq> j \<longrightarrow> set (chan_of (rs ! i)) \<inter> set (chan_of (rs ! j)) = {})"

definition punctual :: "fleet \<Rightarrow> bool" where
  "punctual f \<longleftrightarrow> fake_inv (fl_clk f) \<and> apart (fl_reactors f)
     \<and> (\<forall>r \<in> set (fl_reactors f). timely (fl_clk f) r)
     \<and> (case fl_driver f of DrvTop d m a k \<Rightarrow> 0 < d | DrvZero d m a k \<Rightarrow> 0 < d | DrvClock d m a k \<Rightarrow> 0 < d | _ \<Rightarrow> True)"

lemma Advance_parked:
  assumes inv: "fake_inv c" and d: "0 \<le> d" and p: "parked_ok c ev ch"
  shows "parked_ok (snd (fake_Advance d c)) ev ch"
proof (cases "fk_chans c ! ch = []")
  note fires = fake_Advance_fires [OF inv, where d = d]
  case True
  then obtain w where w: "w \<in> set (fk_waiters c)" "wt_ch w = ch" "wt_at w = fe_At ev" "ch < length (fk_chans c)"
    using p by (auto simp: parked_ok_def)
  show ?thesis
  proof (cases "wt_at w \<le> fk_now c + d")
    case True
    then have "ch \<in> wt_ch ` {w \<in> set (fk_waiters c). wt_at w \<le> fk_now c + d}" using w by blast
    then show ?thesis using w(3,4) True by (simp add: parked_ok_def fires)
  next
    case False
    have "ch \<noteq> wt_ch v" if "v \<in> set (fk_waiters c)" "wt_at v \<le> fk_now c + d" for v
      using waiter_unique [OF inv w(1) that(1)] that(2) False w(2) by auto
    then have "ch \<notin> wt_ch ` {w \<in> set (fk_waiters c). wt_at w \<le> fk_now c + d}" by blast
    moreover have "\<exists>v \<in> set (fk_waiters (snd (fake_Advance d c))). wt_ch v = ch \<and> wt_at v = fe_At ev"
      using w False by (auto simp: fires)
    ultimately show ?thesis using w(4) True unfolding parked_ok_def by (simp add: fires)
  qed
next
  note fires = fake_Advance_fires [OF inv, where d = d]
  case False
  then have "ch \<notin> wt_ch ` {w \<in> set (fk_waiters c). wt_at w \<le> fk_now c + d}" using fake_invD(2) [OF inv] by auto
  then show ?thesis using p False d unfolding parked_ok_def by (auto simp: fires)
qed

lemma Until_parked:
  assumes "fake_Until t c = (ch, c')" "parked_ok c ev ch'"
  shows "parked_ok c' ev ch'"
  using assms(2) fake_Until_fields [OF assms(1)] by (auto simp: parked_ok_def nth_append)

lemma Until_parks:
  assumes "fake_Until (fe_At ev) c = (ch, c')" shows "parked_ok c' ev ch"
  using fake_Until_fields [OF assms] by (auto simp: parked_ok_def nth_append)

lemma recv_parked: "parked_ok c ev ch \<Longrightarrow> ch \<noteq> ch' \<Longrightarrow> parked_ok (fake_recv ch' c) ev ch"
  by (simp add: parked_ok_def fake_recv_def)

lemma chan_of_simps [simp]:
  "chan_of RtNone = []" "chan_of RtEntering = []" "chan_of RtIdle = []" "chan_of RtGone = []" "chan_of (RtOpen ev) = []"
  "chan_of (RtParked ev ch) = [ch]" "chan_of (RtHandling ev) = []"
  by (simp_all add: chan_of_def)

lemma apart_update:
  assumes "apart rs" "i < length rs" "\<And>j. j < length rs \<Longrightarrow> j \<noteq> i \<Longrightarrow> set (chan_of r) \<inter> set (chan_of (rs ! j)) = {}"
  shows "apart (rs[i := r])"
  unfolding apart_def
proof (intro allI impI)
  fix k l assume kl: "k < length (rs[i := r])" "l < length (rs[i := r])" "k \<noteq> l"
  show "set (chan_of (rs[i := r] ! k)) \<inter> set (chan_of (rs[i := r] ! l)) = {}"
    using assms(1,2) assms(3) [of k] assms(3) [of l] kl by (cases "k = i"; cases "l = i") (auto simp: apart_def)
qed

lemma punctual_frame:
  assumes "punctual f" "fl_clk f' = fl_clk f" "fl_reactors f' = fl_reactors f" "fl_driver f' = fl_driver f"
  shows "punctual f'"
  using assms by (simp add: punctual_def)

lemma punctual_reactor:
  assumes p: "punctual f" and i: "i < length (fl_reactors f)" and c: "fake_inv c"
    and others: "\<And>j. j < length (fl_reactors f) \<Longrightarrow> j \<noteq> i \<Longrightarrow> timely c (fl_reactors f ! j)"
    and mine: "timely c r" "\<And>j. j < length (fl_reactors f) \<Longrightarrow> j \<noteq> i \<Longrightarrow> set (chan_of r) \<inter> set (chan_of (fl_reactors f ! j)) = {}"
    and f': "fl_clk f' = c" "fl_reactors f' = (fl_reactors f)[i := r]" "fl_driver f' = fl_driver f"
  shows "punctual f'"
proof -
  have "apart ((fl_reactors f)[i := r])" using p mine(2) i by (intro apart_update) (simp_all add: punctual_def)
  moreover have "timely c x" if "x \<in> set ((fl_reactors f)[i := r])" for x
    using that others mine(1) i by (auto simp: in_set_conv_nth nth_list_update split: if_splits)
  ultimately show ?thesis using p c f' by (simp add: punctual_def)
qed

lemma reactor_step_punctual:
  assumes p: "punctual f" and i: "i < length (fl_reactors f)" and step: "reactor_step leave i f = Some f'"
  shows "punctual f'"
proof -
  let ?c = "fl_clk f" and ?rs = "fl_reactors f"
  have inv: "fake_inv ?c" and each: "\<And>j. j < length ?rs \<Longrightarrow> timely ?c (?rs ! j)" using p by (simp_all add: punctual_def)
  note same = punctual_reactor [OF p i inv each]
  show ?thesis
  proof (cases "?rs ! i")
    case (RtOpen ev)
    obtain ch clk where u: "fake_Until (fe_At ev) ?c = (ch, clk)" by fastforce
    have fresh: "ch \<notin> set (chan_of (?rs ! j))" if "j < length ?rs" for j
      using each [OF that] fake_Until_fields(1) [OF u] by (cases "?rs ! j") (auto simp: parked_ok_def)
    have "timely clk (?rs ! j)" if "j < length ?rs" for j
      using each [OF that] Until_parked [OF u] fake_Until_fields(2) [OF u] by (cases "?rs ! j") simp_all
    moreover have "fake_inv clk" using fake_Until_inv [OF inv, of "fe_At ev"] u by simp
    ultimately show ?thesis
      using step u RtOpen Until_parks [OF u] fresh
      by (intro punctual_reactor [OF p i, where c = clk and r = "RtParked ev ch"]) (auto simp: reactor_step_def set_reactor_def)
  next
    case (RtParked ev ch)
    show ?thesis
    proof (cases "f' = set_reactor i (RtHandling ev) (f\<lparr>fl_clk := fake_recv ch ?c\<rparr>) \<and> fk_chans ?c ! ch \<noteq> []")
      case True
      have other: "ch \<notin> set (chan_of (?rs ! j))" if "j < length ?rs" "j \<noteq> i" for j
        using p i that RtParked by (auto simp: punctual_def apart_def)
      have "timely (fake_recv ch ?c) (?rs ! j)" if "j < length ?rs" "j \<noteq> i" for j
        using each [OF that(1)] other [OF that] recv_parked [of ?c]
          by (cases "?rs ! j") (auto, simp_all add: fake_recv_def)
      moreover have "fe_At ev \<le> fk_now ?c" using each [OF i] RtParked True by (simp add: parked_ok_def)
      ultimately show ?thesis using True fake_recv_inv [OF inv]
        by (intro punctual_reactor [OF p i, where c = "fake_recv ch ?c" and r = "RtHandling ev"])
          (simp_all add: set_reactor_def fake_recv_def)
    next
      case False
      then have "fl_clk f' = ?c" "fl_reactors f' = ?rs[i := RtGone]" "fl_driver f' = fl_driver f"
        using step RtParked by (auto simp: reactor_step_def set_reactor_def split: if_splits)
      then show ?thesis by (intro same [where r = RtGone]) simp_all
    qed
  next
    case RtIdle
    then consider (gone) "f' = set_reactor i RtGone f"
      | (took) ev q where "f' = set_reactor i (RtOpen ev) (f\<lparr>fl_queues := (fl_queues f)[i := q]\<rparr>)"
      using step by (auto simp: reactor_step_def split: if_splits list.splits)
    then show ?thesis
    proof cases
      case gone
      then show ?thesis by (intro same [where r = RtGone]) (simp_all add: set_reactor_def)
    next
      case (took ev q)
      then show ?thesis by (intro same [where r = "RtOpen ev"]) (simp_all add: set_reactor_def)
    qed
  qed (use step in \<open>auto simp: reactor_step_def set_reactor_def intro!: same [where r = RtIdle]\<close>)
qed

lemma driver_step_punctual: "punctual f \<Longrightarrow> punctual (driver_step f)"
proof -
  assume p: "punctual f"
  show ?thesis
  proof (cases "fl_driver f")
    case (DrvClock d m a k)
    have d: "0 < d" using p DrvClock by (simp add: punctual_def)
    let ?c = "snd (fake_Advance d (fl_clk f))"
    have inv: "fake_inv (fl_clk f)" and each: "\<And>r. r \<in> set (fl_reactors f) \<Longrightarrow> timely (fl_clk f) r" using p by (simp_all add: punctual_def)
    have "timely ?c r" if "r \<in> set (fl_reactors f)" for r
      using each [OF that] d Advance_parked [OF inv, of d] fake_Advance_fires(2) [OF inv, where d = d] by (cases r) auto
    moreover have "fake_inv ?c" using fake_Advance_inv [OF inv] d by simp
    ultimately show ?thesis using p d DrvClock by (auto simp: driver_step_def punctual_def)
  qed (use p in \<open>auto simp: driver_step_def punctual_def\<close>)
qed

lemma fleet_step_punctual: "fleet_step test f f' \<Longrightarrow> punctual f \<Longrightarrow> punctual f'"
proof (induction rule: fleet_step.induct)
  case (fs_offer f us ev vs r f')
  then show ?case by (intro punctual_frame [OF fs_offer.prems]) (auto simp: schedule_offer_def Let_def split: if_splits)
next
  case (fs_start h f f')
  then show ?case by (auto simp: fleet_Start_def punctual_def apart_def split: if_splits)
next
  case (fs_run i f leave f')
  then show ?case using reactor_step_punctual by blast
next
  case (fs_drive f)
  then show ?case using driver_step_punctual by blast
next
  case (fs_advance f d m)
  then show ?case by (simp add: punctual_def AdvanceUntilQuiescent_def)
next
  case (fs_count f ev)
  then show ?case by (intro punctual_frame [OF fs_count.prems]) (simp_all add: schedule_count_def)
qed (erule punctual_frame; simp add: fleet_Log_def PartitionAll_def HealAll_def DropAll_def fleet_Shutdown_def)+

section \<open>Properties\<close>

lemma sum_list_mset_empty: "sum_list xs = ({#} :: 'a multiset) \<longleftrightarrow> (\<forall>x \<in> set xs. x = {#})"
  by (induction xs) auto

lemma NewFleet_inv:
  assumes "NewFleet clk n = Ok f" "fake_inv clk" shows "accounted f" "punctual f"
  using assms by (auto simp: NewFleet_def accounted_def punctual_def unfinished_def apart_def sum_list_mset_empty split: if_splits)

lemma fleet_reach_inv: "fleet_reach test f f' \<Longrightarrow> accounted f \<Longrightarrow> punctual f \<Longrightarrow> accounted f' \<and> punctual f'"
  by (induction rule: fleet_reach.induct) (auto intro: fleet_step_accounted fleet_step_punctual)

definition quiet :: "fleet \<Rightarrow> bool" where
  "quiet f \<longleftrightarrow> fl_offers f = [] \<and> (\<forall>q \<in> set (fl_queues f). q = []) \<and> (\<forall>r \<in> set (fl_reactors f). turn r = {#})"

lemma pending_zero_iff: "accounted f \<Longrightarrow> fl_pending f = 0 \<longleftrightarrow> quiet f"
proof -
  assume acc: "accounted f"
  have "fl_pending f = 0 \<longleftrightarrow> length (fl_offers f) + size (unfinished f) = 0" using acc by (simp only: accounted_def) linarith
  also have "\<dots> \<longleftrightarrow> fl_offers f = [] \<and> unfinished f = {#}" by simp
  also have "\<dots> \<longleftrightarrow> quiet f" by (simp add: quiet_def unfinished_def sum_list_mset_empty)
  finally show ?thesis .
qed

text \<open>
  The counter of the fleet is exact and its events are punctual: under every
  interleaving of schedulers, reactors, the driver and a shutdown, the counter is zero
  exactly when no event is being offered, queued or in a turn; without a shutdown every
  event that was scheduled has then been handled exactly once; and no handler runs before its event's
  time.
\<close>

theorem fleet_quiescence_is_exact:
  assumes "NewFleet clk n = Ok f0" "fake_reach clk" "fleet_reach test f0 f"
  shows "(fl_pending f = 0 \<longleftrightarrow> fl_offers f = [] \<and> (\<forall>q \<in> set (fl_queues f). q = []) \<and> (\<forall>r \<in> set (fl_reactors f). turn r = {#}))
       \<and> (fl_pending f = 0 \<and> \<not> fl_quit f \<longrightarrow> mset (fl_handled f) = mset (fl_scheduled f))
       \<and> (\<forall>ev. RtHandling ev \<in> set (fl_reactors f) \<longrightarrow> fe_At ev \<le> fake_Now (fl_clk f))"
proof -
  have inv: "accounted f" "punctual f"
    using fleet_reach_inv [OF assms(3)] NewFleet_inv [OF assms(1) fake_reach_inv [OF assms(2)]] by auto
  have "fl_pending f = 0 \<Longrightarrow> size (unfinished f) = 0" using inv(1) by (simp only: accounted_def) linarith
  then have "fl_pending f = 0 \<Longrightarrow> unfinished f = {#}" by simp
  moreover have "\<forall>ev. RtHandling ev \<in> set (fl_reactors f) \<longrightarrow> fe_At ev \<le> fk_now (fl_clk f)"
    using inv(2) by (auto simp: punctual_def)
  ultimately show ?thesis
    using inv(1) pending_zero_iff [OF inv(1)] by (auto simp: accounted_def quiet_def fake_Now_def)
qed

text \<open>While the driver runs and only handlers schedule, a fleet found quiet stays quiet.\<close>

lemma quiet_stays:
  assumes "fleet_step False f f'" "accounted f" "quiet f" shows "quiet f'"
  using assms
proof (induction rule: fleet_step.induct)
  case (fs_count f ev)
  then show ?case by (auto simp: in_handler_def quiet_def)
next
  case (fs_run i f leave f')
  then have "turn (fl_reactors f ! i) = {#}" "fl_queues f ! i = []" by (simp_all add: quiet_def accounted_def)
  then show ?case using fs_run
    by (cases "fl_reactors f ! i")
      (auto simp: reactor_step_def set_reactor_def quiet_def split: if_splits list.splits dest!: set_update_subset_insert [THEN subsetD])
next
  case (fs_drive f)
  then show ?case using driver_step_frame [of f] by (simp add: quiet_def)
qed (auto simp: quiet_def fleet_Log_def PartitionAll_def HealAll_def DropAll_def fleet_Shutdown_def AdvanceUntilQuiescent_def)

definition saw_quiet :: "fleet \<Rightarrow> bool" where
  "saw_quiet f \<longleftrightarrow> (case fl_driver f of DrvZero d m a k \<Rightarrow> quiet f | DrvNil \<Rightarrow> quiet f | _ \<Rightarrow> True)"

lemma other_driver: "fleet_step False f f' \<Longrightarrow> f' = driver_step f \<or> fl_driver f' = fl_driver f"
proof (induction rule: fleet_step.induct)
  case (fs_run i f leave f')
  then show ?case by (auto simp: reactor_step_def set_reactor_def split: reactor.splits if_splits list.splits prod.splits)
next
  case (fs_offer f us ev vs r f')
  then show ?case by (auto simp: schedule_offer_def Let_def split: if_splits)
qed (auto simp: schedule_count_def fleet_Log_def PartitionAll_def HealAll_def DropAll_def)

lemma saw_quiet_step:
  assumes s: "fleet_step False f f'" and "accounted f" "saw_quiet f"
  shows "saw_quiet f'"
proof (cases "fl_driver f' = fl_driver f")
  case True
  then show ?thesis using assms quiet_stays [OF s] by (auto simp: saw_quiet_def split: driver.splits)
next
  case False
  then have f': "f' = driver_step f" using other_driver [OF s] by blast
  then have "quiet f' = quiet f" using driver_step_frame [of f] by (simp add: quiet_def)
  then show ?thesis using assms pending_zero_iff [of f] f'
    by (auto simp: saw_quiet_def driver_step_def split: driver.splits if_splits)
qed

lemma saw_quiet_reach:
  "fleet_reach test f f' \<Longrightarrow> test = False \<Longrightarrow> accounted f \<Longrightarrow> punctual f \<Longrightarrow> saw_quiet f \<Longrightarrow> saw_quiet f'"
  by (induction rule: fleet_reach.induct) (auto intro: saw_quiet_step dest: fleet_reach_inv)

lemma quit_needs_the_test: "fleet_reach test f f' \<Longrightarrow> test = False \<Longrightarrow> fl_quit f' = fl_quit f"
proof (induction rule: fleet_reach.induct)
  case (fleet_next f f1 f2)
  have "fl_quit f2 = fl_quit f1"
    using fleet_next.hyps(2)
  proof (induction rule: fleet_step.induct)
    case (fs_run i f leave f')
    then show ?case by (auto simp: reactor_step_def set_reactor_def split: reactor.splits if_splits list.splits prod.splits)
  next
    case (fs_offer f us ev vs r f')
    then show ?case by (auto simp: schedule_offer_def Let_def split: if_splits)
  qed (use fleet_next.prems in \<open>auto simp: schedule_count_def fleet_Log_def PartitionAll_def HealAll_def DropAll_def driver_step_frame\<close>)
  then show ?case using fleet_next by simp
qed simp

text \<open>
  The driver's success is a proof of completion: when a test has set a
  fleet up and called the driver, and from then on only handlers schedule, a driver that
  returned without an error left a fleet in which every scheduled event has been handled,
  and it stays that way.
\<close>

theorem driver_success_means_done:
  assumes "NewFleet clk n = Ok f0" "fake_reach clk" "fleet_reach True f0 f1" "\<not> fl_quit f1"
    and "fleet_reach False (AdvanceUntilQuiescent d maxSteps f1) f2" "fl_driver f2 = DrvNil"
  shows "mset (fl_handled f2) = mset (fl_scheduled f2) \<and> fl_pending f2 = 0"
proof -
  let ?f = "AdvanceUntilQuiescent d maxSteps f1"
  have inv: "accounted f1" "punctual f1"
    using fleet_reach_inv [OF assms(3)] NewFleet_inv [OF assms(1) fake_reach_inv [OF assms(2)]] by auto
  have "accounted ?f" by (rule accounted_frame [OF inv(1)]) (simp_all add: AdvanceUntilQuiescent_def)
  moreover have "punctual ?f" using inv(2) by (simp add: punctual_def AdvanceUntilQuiescent_def)
  moreover have "saw_quiet ?f" by (simp add: saw_quiet_def AdvanceUntilQuiescent_def)
  ultimately have "accounted f2" "saw_quiet f2"
    using fleet_reach_inv [OF assms(5)] saw_quiet_reach [OF assms(5)] by auto
  then have "quiet f2" "accounted f2" using assms(6) by (simp_all add: saw_quiet_def)
  moreover have "\<not> fl_quit f2" using quit_needs_the_test [OF assms(5)] assms(4) by (simp add: AdvanceUntilQuiescent_def)
  moreover have "unfinished f2 = {#}" using \<open>quiet f2\<close> by (simp add: quiet_def unfinished_def sum_list_mset_empty)
  moreover have "fl_pending f2 = 0" using pending_zero_iff [OF \<open>accounted f2\<close>] \<open>quiet f2\<close> by simp
  ultimately show ?thesis by (auto simp: accounted_def)
qed

section \<open>Runs by hand\<close>

text \<open>Moves that compute, for runs on concrete fleets.\<close>

datatype move = MvCount fleet_event | MvOffer | MvStart | MvRun nat | MvDrive

definition handling :: "reactor \<Rightarrow> bool" where
  "handling r = (case r of RtHandling _ \<Rightarrow> True | _ \<Rightarrow> False)"

lemma handling_cases: "handling r \<Longrightarrow> \<exists>ev. r = RtHandling ev"
  by (cases r) (simp_all add: handling_def)

definition make_move :: "bool \<Rightarrow> move \<Rightarrow> fleet \<Rightarrow> fleet option" where
  "make_move test m f =
     (case m of
        MvCount ev \<Rightarrow> if (test \<or> list_ex handling (fl_reactors f)) \<and> fe_Client ev < length (fl_queues f) then Some (schedule_count ev f) else None
      | MvOffer \<Rightarrow> (case fl_offers f of [] \<Rightarrow> None | ev # vs \<Rightarrow> Some (snd (schedule_offer [] ev vs f)))
      | MvStart \<Rightarrow> if test then (case fleet_Start True f of Ok f' \<Rightarrow> Some f' | Err _ \<Rightarrow> None) else None
      | MvRun i \<Rightarrow> if i < length (fl_reactors f) then reactor_step False i f else None
      | MvDrive \<Rightarrow> Some (driver_step f))"

fun make_moves :: "bool \<Rightarrow> move list \<Rightarrow> fleet \<Rightarrow> fleet option" where
  "make_moves test [] f = Some f"
| "make_moves test (m # ms) f = (case make_move test m f of None \<Rightarrow> None | Some f' \<Rightarrow> make_moves test ms f')"

lemma make_move_sound: "make_move test m f = Some f' \<Longrightarrow> fleet_step test f f'"
proof (cases m)
  case (MvCount ev)
  assume "make_move test m f = Some f'"
  then have "test \<or> list_ex handling (fl_reactors f)" "fe_Client ev < length (fl_queues f)" "f' = schedule_count ev f"
    using MvCount by (auto simp: make_move_def split: if_splits)
  moreover have "list_ex handling (fl_reactors f) \<Longrightarrow> in_handler f"
    unfolding list_ex_iff in_handler_def by (metis handling_cases)
  ultimately show ?thesis by (auto intro: fs_count)
next
  case MvOffer
  assume "make_move test m f = Some f'"
  then obtain ev vs where "fl_offers f = [] @ ev # vs" "f' = snd (schedule_offer [] ev vs f)"
    using MvOffer by (auto simp: make_move_def split: list.splits)
  then show ?thesis by (metis fs_offer prod.collapse)
qed (auto simp: make_move_def intro: fs_start fs_run fs_drive split: if_splits sum.splits)

lemma make_moves_sound: "make_moves test ms f = Some f' \<Longrightarrow> fleet_reach test g f \<Longrightarrow> fleet_reach test g f'"
  by (induction test ms f rule: make_moves.induct) (auto split: option.splits intro: fleet_next make_move_sound)

definition one_client :: fleet where
  "one_client = (case NewFleet (NewFake 0) 1 of Ok f \<Rightarrow> f)"

definition dial :: fleet_event where "dial = \<lparr>fe_At = 3, fe_Client = 0, fe_Kind = ''dial''\<rparr>"

text \<open>A test schedules one event for time 3 and starts the fleet; its reactor parks; the
  driver moves the clock, the reactor wakes and handles, the driver looks again.\<close>

definition parked_run :: "move list" where
  "parked_run = [MvCount dial, MvOffer, MvStart, MvRun 0, MvRun 0, MvRun 0]"

definition driven_run :: "move list" where
  "driven_run = [MvDrive, MvDrive, MvRun 0, MvRun 0, MvDrive, MvDrive]"

definition parked_fleet :: fleet where "parked_fleet = the (make_moves True parked_run one_client)"
definition driven_fleet :: "int \<Rightarrow> fleet" where
  "driven_fleet m = the (make_moves False driven_run (AdvanceUntilQuiescent 5 m parked_fleet))"

lemma one_client_new: "NewFleet (NewFake 0) 1 = Ok one_client"
  by code_simp

lemma parked_fleet_reached: "fleet_reach True one_client parked_fleet"
proof -
  have "make_moves True parked_run one_client = Some parked_fleet" by code_simp
  then show ?thesis by (rule make_moves_sound) (rule fleet_here)
qed

lemma driven_fleet_reached:
  assumes "make_moves False driven_run (AdvanceUntilQuiescent 5 m parked_fleet) \<noteq> None"
  shows "fleet_reach False (AdvanceUntilQuiescent 5 m parked_fleet) (driven_fleet m)"
  using assms make_moves_sound [OF _ fleet_here] by (auto simp: driven_fleet_def)

theorem fleet_quiescence_is_exact_witness:
  "(fl_pending parked_fleet = 0 \<longleftrightarrow> fl_offers parked_fleet = [] \<and> (\<forall>q \<in> set (fl_queues parked_fleet). q = [])
      \<and> (\<forall>r \<in> set (fl_reactors parked_fleet). turn r = {#}))
   \<and> fl_pending parked_fleet = 1 \<and> fl_reactors parked_fleet = [RtParked dial 0]"
proof -
  have "fl_pending parked_fleet = 1" "fl_reactors parked_fleet = [RtParked dial 0]" by code_simp+
  then show ?thesis
    using fleet_quiescence_is_exact [OF one_client_new fr_new parked_fleet_reached] by blast
qed

theorem driver_success_means_done_witness:
  "mset (fl_handled (driven_fleet 2)) = mset (fl_scheduled (driven_fleet 2)) \<and> fl_pending (driven_fleet 2) = 0
   \<and> fl_handled (driven_fleet 2) = [dial] \<and> fl_driver (driven_fleet 2) = DrvNil"
proof -
  have "make_moves False driven_run (AdvanceUntilQuiescent 5 2 parked_fleet) \<noteq> None" by code_simp
  note r = driven_fleet_reached [OF this]
  have "\<not> fl_quit parked_fleet" "fl_driver (driven_fleet 2) = DrvNil" "fl_handled (driven_fleet 2) = [dial]" by code_simp+
  then show ?thesis
    using driver_success_means_done [OF one_client_new fr_new parked_fleet_reached _ r] by blast
qed

text \<open>
  The budget's last advance is not looked at: with a budget of one advance,
  the run above advances the clock once, within the budget, and everything has been handled when
  the driver looks again; it still reports that the fleet did not quiesce, with zero units
  of work outstanding.
\<close>

theorem last_advance_is_wasted:
  "fleet_reach False (AdvanceUntilQuiescent 5 1 parked_fleet) (driven_fleet 1)
   \<and> fl_driver (driven_fleet 1) = DrvErr \<and> fl_pending (driven_fleet 1) = 0
   \<and> fl_handled (driven_fleet 1) = fl_scheduled (driven_fleet 1)
   \<and> fl_entered (driven_fleet 1) = int (fleet_Size (driven_fleet 1))"
proof -
  have "make_moves False driven_run (AdvanceUntilQuiescent 5 1 parked_fleet) \<noteq> None" by code_simp
  note r = driven_fleet_reached [OF this]
  have "fl_driver (driven_fleet 1) = DrvErr" "fl_pending (driven_fleet 1) = 0"
    "fl_handled (driven_fleet 1) = fl_scheduled (driven_fleet 1)"
    "fl_entered (driven_fleet 1) = int (fleet_Size (driven_fleet 1))" by code_simp+
  then show ?thesis using r by blast
qed

end
