(* ===== verification/Datagram.thy ===== *)
theory Datagram
  imports Channels Complex_Main "HOL-Library.Multiset" "HOL-Library.Sublist"
begin

text \<open>
  \<^verbatim>\<open>src/internal/testnet/datagram.go\<close>: the lossy link of the test network.  Endpoints of one
  link are numbered, the two of a pair next to each other.  A \<^verbatim>\<open>Send\<close> is a goroutine with a
  program counter between the points where it takes a lock, sleeps on the clock or offers
  to a channel; a \<^verbatim>\<open>Recv\<close> counts its delivery after it took the datagram.  The counters are
  64 bits wide.  \<open>dn_sent\<close> and \<open>dn_got\<close> are history variables: what was accepted from and
  what was handed to each endpoint.
\<close>

section \<open>State\<close>

text \<open>A \<^verbatim>\<open>float64\<close>, as far as comparisons see it.\<close>

datatype float64 = NaN | NegInf | Finite rat | PosInf

fun float_less :: "float64 \<Rightarrow> float64 \<Rightarrow> bool" where
  "float_less NaN y = False"
| "float_less x NaN = False"
| "float_less (Finite a) (Finite b) = (a < b)"
| "float_less NegInf y = (y \<noteq> NegInf)"
| "float_less x NegInf = False"
| "float_less PosInf y = False"
| "float_less x PosInf = True"

definition float_leq :: "float64 \<Rightarrow> float64 \<Rightarrow> bool" where
  "float_leq x y \<longleftrightarrow> float_less x y \<or> (x = y \<and> x \<noteq> NaN)"

record dgram_stats =
  st_Sent :: u64
  st_Dropped :: u64
  st_Delivered :: u64

record dgram_endpoint =
  de_cap :: nat
  de_inbox :: "bytes list"
  de_closed :: bool
  de_done :: bool

datatype flight_pc = FlSleep time | FlCheck | FlPeer | FlPush | FlDoomed

record flight =
  fg_src :: nat
  fg_data :: bytes
  fg_pc :: flight_pc

record dgram_link =
  dn_now :: time
  dn_latency :: duration
  dn_loss :: float64
  dn_depth :: int
  dn_partitioned :: bool
  dn_stats :: dgram_stats
  dn_ends :: "dgram_endpoint list"
  dn_flights :: "flight list"
  dn_waiting :: "nat list"
  dn_uncounted :: nat
  dn_sent :: "(nat \<times> bytes) list"
  dn_got :: "(nat \<times> bytes) list"

definition DefaultQueueDepth :: int where "DefaultQueueDepth = 64"

definition bad_loss :: "float64 \<Rightarrow> bool" where
  "bad_loss p \<longleftrightarrow> float_less p (Finite 0) \<or> float_leq (Finite 1) p"

section \<open>Operations\<close>

definition NewDatagramLink :: "time \<Rightarrow> duration \<Rightarrow> float64 \<Rightarrow> int \<Rightarrow> (string, dgram_link) result" where
  "NewDatagramLink now latency loss depth =
     (if bad_loss loss then Err ''testnet: DatagramConditions.Loss must be in [0,1)''
      else Ok \<lparr>dn_now = now, dn_latency = latency, dn_loss = loss,
        dn_depth = (if depth \<le> 0 then DefaultQueueDepth else depth), dn_partitioned = False,
        dn_stats = \<lparr>st_Sent = 0, st_Dropped = 0, st_Delivered = 0\<rparr>, dn_ends = [], dn_flights = [],
        dn_waiting = [], dn_uncounted = 0, dn_sent = [], dn_got = []\<rparr>)"

definition queueDepth :: "dgram_link \<Rightarrow> int" where "queueDepth n = dn_depth n"

definition Endpoints :: "dgram_link \<Rightarrow> dgram_link" where
  "Endpoints n =
     (let e = \<lparr>de_cap = nat (queueDepth n), de_inbox = [], de_closed = False, de_done = False\<rparr>
      in n\<lparr>dn_ends := dn_ends n @ [e, e]\<rparr>)"

definition peer :: "nat \<Rightarrow> nat" where "peer i = (if even i then i + 1 else i - 1)"

definition dgram_Partition :: "dgram_link \<Rightarrow> dgram_link" where "dgram_Partition n = n\<lparr>dn_partitioned := True\<rparr>"
definition dgram_Heal :: "dgram_link \<Rightarrow> dgram_link" where "dgram_Heal n = n\<lparr>dn_partitioned := False\<rparr>"
definition dgram_Partitioned :: "dgram_link \<Rightarrow> bool" where "dgram_Partitioned n = dn_partitioned n"
definition dgram_SetLatency :: "duration \<Rightarrow> dgram_link \<Rightarrow> dgram_link" where "dgram_SetLatency d n = n\<lparr>dn_latency := d\<rparr>"

definition dgram_SetLoss :: "float64 \<Rightarrow> dgram_link \<Rightarrow> (string, dgram_link) result" where
  "dgram_SetLoss p n = (if bad_loss p then Err ''testnet: Loss must be in [0,1)'' else Ok (n\<lparr>dn_loss := p\<rparr>))"

definition dgram_Stats :: "dgram_link \<Rightarrow> dgram_stats" where "dgram_Stats n = dn_stats n"

definition count_sent :: "dgram_link \<Rightarrow> dgram_link" where
  "count_sent n = n\<lparr>dn_stats := (dn_stats n)\<lparr>st_Sent := st_Sent (dn_stats n) + 1\<rparr>\<rparr>"

definition count_dropped :: "dgram_link \<Rightarrow> dgram_link" where
  "count_dropped n = n\<lparr>dn_stats := (dn_stats n)\<lparr>st_Dropped := st_Dropped (dn_stats n) + 1\<rparr>\<rparr>"

text \<open>\<^verbatim>\<open>Send\<close> up to its latency wait; \<open>draw\<close> is what the random source answers.  The error is
  \<^verbatim>\<open>ErrPartitioned\<close>.\<close>

definition dgram_Send :: "float64 \<Rightarrow> nat \<Rightarrow> bytes \<Rightarrow> dgram_link \<Rightarrow> (string, unit) result \<times> dgram_link" where
  "dgram_Send draw e p n =
     (if dn_partitioned n then (Err ''testnet: link is partitioned'', n)
      else let n1 = (count_sent n)\<lparr>dn_sent := dn_sent n @ [(e, p)]\<rparr>
           in if float_less draw (dn_loss n) then (Ok (), count_dropped n1)
              else (Ok (), n1\<lparr>dn_flights := dn_flights n1 @ [\<lparr>fg_src = e, fg_data = p,
                      fg_pc = (if 0 < dn_latency n then FlSleep (dn_now n + dn_latency n) else FlCheck)\<rparr>]\<rparr>))"

text \<open>The rest of \<^verbatim>\<open>Send\<close>, for the flight that stands between \<open>us\<close> and \<open>vs\<close>: the partition is looked at
  again, then the peer, then the datagram is offered to the peer's queue; a lost one is
  counted in a step of its own.\<close>

definition flight_step :: "flight list \<Rightarrow> flight \<Rightarrow> flight list \<Rightarrow> dgram_link \<Rightarrow> dgram_link" where
  "flight_step us f vs n =
     (let d = peer (fg_src f); e = dn_ends n ! d; moved = (\<lambda>pc. n\<lparr>dn_flights := us @ f\<lparr>fg_pc := pc\<rparr> # vs\<rparr>)
      in case fg_pc f of
           FlSleep t \<Rightarrow> (if t \<le> dn_now n then moved FlCheck else n)
         | FlCheck \<Rightarrow> (if dn_partitioned n then count_dropped (n\<lparr>dn_flights := us @ vs\<rparr>) else moved FlPeer)
         | FlPeer \<Rightarrow> moved (if de_closed e then FlDoomed else FlPush)
         | FlPush \<Rightarrow> (if length (de_inbox e) < de_cap e
             then n\<lparr>dn_flights := us @ vs, dn_ends := (dn_ends n)[d := e\<lparr>de_inbox := de_inbox e @ [fg_data f]\<rparr>]\<rparr>
             else moved FlDoomed)
         | FlDoomed \<Rightarrow> count_dropped (n\<lparr>dn_flights := us @ vs\<rparr>))"

text \<open>\<^verbatim>\<open>Recv\<close>: the first \<^verbatim>\<open>select\<close> takes what is queued, else the call waits in the second one, which
  may take either ready case (\<open>prefer_done\<close>); \<^term>\<open>None\<close> means that none is ready.\<close>

definition take_inbox :: "nat \<Rightarrow> dgram_link \<Rightarrow> (bytes \<times> dgram_link) option" where
  "take_inbox i n =
     (case de_inbox (dn_ends n ! i) of
        [] \<Rightarrow> None
      | dg # rest \<Rightarrow> Some (dg, n\<lparr>dn_ends := (dn_ends n)[i := (dn_ends n ! i)\<lparr>de_inbox := rest\<rparr>],
                        dn_uncounted := dn_uncounted n + 1, dn_got := dn_got n @ [(i, dg)]\<rparr>))"

definition dgram_Recv :: "nat \<Rightarrow> dgram_link \<Rightarrow> (string, bytes) result option \<times> dgram_link" where
  "dgram_Recv i n =
     (case take_inbox i n of
        Some (dg, n1) \<Rightarrow> (Some (Ok dg), n1)
      | None \<Rightarrow> (None, n\<lparr>dn_waiting := dn_waiting n @ [i]\<rparr>))"

definition recv_wait :: "bool \<Rightarrow> nat \<Rightarrow> dgram_link \<Rightarrow> ((string, bytes) result \<times> dgram_link) option" where
  "recv_wait prefer_done i n =
     (let returns = (\<lambda>n. n\<lparr>dn_waiting := remove1 i (dn_waiting n)\<rparr>)
      in if de_done (dn_ends n ! i) \<and> (prefer_done \<or> de_inbox (dn_ends n ! i) = [])
         then Some (Err ''testnet: endpoint is closed'', returns n)
         else map_option (\<lambda>(dg, n1). (Ok dg, returns n1)) (take_inbox i n))"

definition countDelivered :: "dgram_link \<Rightarrow> dgram_link" where
  "countDelivered n = n\<lparr>dn_stats := (dn_stats n)\<lparr>st_Delivered := st_Delivered (dn_stats n) + 1\<rparr>, dn_uncounted := dn_uncounted n - 1\<rparr>"

text \<open>The two halves of \<^verbatim>\<open>Close\<close>: the flag, then the channel, closed once.\<close>

definition close_mark :: "nat \<Rightarrow> dgram_link \<Rightarrow> dgram_link" where
  "close_mark i n = n\<lparr>dn_ends := (dn_ends n)[i := (dn_ends n ! i)\<lparr>de_closed := True\<rparr>]\<rparr>"

definition close_done :: "nat \<Rightarrow> dgram_link \<Rightarrow> dgram_link" where
  "close_done i n = n\<lparr>dn_ends := (dn_ends n)[i := (dn_ends n ! i)\<lparr>de_done := True\<rparr>]\<rparr>"

definition dgram_Close :: "nat \<Rightarrow> dgram_link \<Rightarrow> dgram_link" where
  "dgram_Close i n = close_done i (close_mark i n)"

section \<open>Interleavings\<close>

text \<open>With \<open>single\<close>, at most one goroutine sends from an endpoint: a \<^verbatim>\<open>Send\<close> starts only when the
  endpoint's previous one has returned.\<close>

inductive dgram_step :: "bool \<Rightarrow> dgram_link \<Rightarrow> dgram_link \<Rightarrow> bool" for single :: bool where
  endpoints: "dgram_step single n (Endpoints n)"
| partition: "dgram_step single n (dgram_Partition n)"
| heal: "dgram_step single n (dgram_Heal n)"
| latency: "dgram_step single n (dgram_SetLatency d n)"
| loss: "dgram_SetLoss p n = Ok n' \<Longrightarrow> dgram_step single n n'"
| tick: "0 \<le> d \<Longrightarrow> dgram_step single n (n\<lparr>dn_now := dn_now n + d\<rparr>)"
| send: "e < length (dn_ends n) \<Longrightarrow> (single \<longrightarrow> e \<notin> fg_src ` set (dn_flights n)) \<Longrightarrow> dgram_Send draw e p n = (r, n') \<Longrightarrow> dgram_step single n n'"
| fly: "dn_flights n = us @ f # vs \<Longrightarrow> dgram_step single n (flight_step us f vs n)"
| recv: "i < length (dn_ends n) \<Longrightarrow> dgram_Recv i n = (r, n') \<Longrightarrow> dgram_step single n n'"
| recv_end: "i \<in> set (dn_waiting n) \<Longrightarrow> recv_wait prefer_done i n = Some (res, n') \<Longrightarrow> dgram_step single n n'"
| delivered: "0 < dn_uncounted n \<Longrightarrow> dgram_step single n (countDelivered n)"
| close_flag: "i < length (dn_ends n) \<Longrightarrow> dgram_step single n (close_mark i n)"
| close_chan: "i < length (dn_ends n) \<Longrightarrow> de_closed (dn_ends n ! i) \<Longrightarrow> dgram_step single n (close_done i n)"

inductive dgram_reach :: "bool \<Rightarrow> dgram_link \<Rightarrow> dgram_link \<Rightarrow> bool" for single :: bool where
  dgram_here: "dgram_reach single n n"
| dgram_next: "dgram_reach single n n1 \<Longrightarrow> dgram_step single n1 n2 \<Longrightarrow> dgram_reach single n n2"

section \<open>Conservation\<close>

definition outstanding :: "dgram_link \<Rightarrow> nat" where
  "outstanding n = length (dn_flights n) + sum_list (map (length \<circ> de_inbox) (dn_ends n)) + dn_uncounted n"

definition balanced :: "dgram_link \<Rightarrow> bool" where
  "balanced n \<longleftrightarrow> st_Sent (dn_stats n) = st_Dropped (dn_stats n) + st_Delivered (dn_stats n) + of_nat (outstanding n)"

text \<open>What endpoint \<open>i\<close> got, has queued or is being sent, and what its peer sent.\<close>

definition arriving :: "nat \<Rightarrow> dgram_link \<Rightarrow> bytes list" where
  "arriving i n = map snd (filter (\<lambda>x. fst x = i) (dn_got n)) @ de_inbox (dn_ends n ! i)
     @ map fg_data (filter (\<lambda>f. fg_src f = peer i) (dn_flights n))"

definition sent_to :: "nat \<Rightarrow> dgram_link \<Rightarrow> bytes list" where
  "sent_to i n = map snd (filter (\<lambda>x. fst x = peer i) (dn_sent n))"

definition dgram_inv :: "dgram_link \<Rightarrow> bool" where
  "dgram_inv n \<longleftrightarrow> even (length (dn_ends n)) \<and> (\<forall>f \<in> set (dn_flights n). fg_src f < length (dn_ends n))
     \<and> (\<forall>i \<in> set (dn_waiting n). i < length (dn_ends n))
     \<and> (\<forall>e \<in> set (dn_ends n). length (de_inbox e) \<le> de_cap e)
     \<and> balanced n
     \<and> (\<forall>i < length (dn_ends n). mset (arriving i n) \<subseteq># mset (sent_to i n))
     \<and> (\<forall>(i, p) \<in> set (dn_got n) \<union> set (dn_sent n). i < length (dn_ends n))"

lemma peer_peer [simp]: "peer (peer i) = i"
  by (auto simp: peer_def elim: oddE)

lemma peer_bound [simp]: "even k \<Longrightarrow> i < k \<Longrightarrow> peer i < k"
  by (auto simp: peer_def elim!: evenE oddE)

lemma peer_eq_iff: "peer i = j \<longleftrightarrow> i = peer j"
  by (metis peer_peer)

lemma outstanding_inbox:
  assumes "i < length es" "de_inbox e = xs"
  shows "sum_list (map (length \<circ> de_inbox) (es[i := e])) + length (de_inbox (es ! i))
       = sum_list (map (length \<circ> de_inbox) es) + length xs"
proof -
  have "length (de_inbox (es ! i)) \<le> sum_list (map (length \<circ> de_inbox) es)"
    using assms(1) by (auto intro!: member_le_sum_list)
  then show ?thesis using assms by (simp add: map_update sum_list_update)
qed

lemma balanced_eq: "balanced n \<Longrightarrow> dn_stats n' = dn_stats n \<Longrightarrow> outstanding n' = outstanding n \<Longrightarrow> balanced n'"
  by (simp add: balanced_def)

lemma balanced_dropped: "balanced n \<Longrightarrow> dn_stats n' = dn_stats n \<Longrightarrow> outstanding n = outstanding n' + 1 \<Longrightarrow> balanced (count_dropped n')"
proof -
  have "outstanding (count_dropped n') = outstanding n'" by (simp add: outstanding_def count_dropped_def)
  then show "balanced n \<Longrightarrow> dn_stats n' = dn_stats n \<Longrightarrow> outstanding n = outstanding n' + 1 \<Longrightarrow> balanced (count_dropped n')"
    by (simp add: balanced_def) (simp add: count_dropped_def)
qed

lemma dgram_invI:
  assumes "dgram_inv n" "length (dn_ends n') = length (dn_ends n)" "fg_src ` set (dn_flights n') \<subseteq> {..<length (dn_ends n)}"
    and "set (dn_waiting n') \<subseteq> {..<length (dn_ends n)}" "\<And>x. x \<in> set (dn_ends n') \<Longrightarrow> x \<in> set (dn_ends n) \<or> length (de_inbox x) \<le> de_cap x"
    and "balanced n'" "\<And>i. i < length (dn_ends n) \<Longrightarrow> mset (arriving i n') \<subseteq># mset (sent_to i n')"
    and "fst ` set (dn_got n') \<union> fst ` set (dn_sent n') \<subseteq> {..<length (dn_ends n)}"
  shows "dgram_inv n'"
  using assms by (fastforce simp: dgram_inv_def)

lemma dgram_invD:
  assumes "dgram_inv n"
  shows "even (length (dn_ends n))" "fg_src ` set (dn_flights n) \<subseteq> {..<length (dn_ends n)}"
    "set (dn_waiting n) \<subseteq> {..<length (dn_ends n)}" "balanced n"
    "i < length (dn_ends n) \<Longrightarrow> mset (arriving i n) \<subseteq># mset (sent_to i n)"
    "i < length (dn_ends n) \<Longrightarrow> length (de_inbox (dn_ends n ! i)) \<le> de_cap (dn_ends n ! i)"
    "fst ` set (dn_got n) \<union> fst ` set (dn_sent n) \<subseteq> {..<length (dn_ends n)}"
  using assms by (auto simp: dgram_inv_def)

lemma flight_step_cases:
  "flight_step us f vs n = n
   \<or> (\<exists>pc. flight_step us f vs n = n\<lparr>dn_flights := us @ f\<lparr>fg_pc := pc\<rparr> # vs\<rparr>)
   \<or> flight_step us f vs n = count_dropped (n\<lparr>dn_flights := us @ vs\<rparr>)
   \<or> (let d = peer (fg_src f); e = dn_ends n ! d in length (de_inbox e) < de_cap e
        \<and> flight_step us f vs n = n\<lparr>dn_flights := us @ vs, dn_ends := (dn_ends n)[d := e\<lparr>de_inbox := de_inbox e @ [fg_data f]\<rparr>]\<rparr>)"
  by (cases "fg_pc f") (simp_all add: flight_step_def Let_def split: if_split, blast+)

lemma flight_step_inv:
  assumes inv: "dgram_inv n" and fl: "dn_flights n = us @ f # vs"
  shows "dgram_inv (flight_step us f vs n)"
proof -
  consider (stay) "flight_step us f vs n = n"
    | (move) pc where "flight_step us f vs n = n\<lparr>dn_flights := us @ f\<lparr>fg_pc := pc\<rparr> # vs\<rparr>"
    | (lost) "flight_step us f vs n = count_dropped (n\<lparr>dn_flights := us @ vs\<rparr>)"
    | (landed) d e where "d = peer (fg_src f)" "e = dn_ends n ! d" "length (de_inbox e) < de_cap e"
      "flight_step us f vs n = n\<lparr>dn_flights := us @ vs, dn_ends := (dn_ends n)[d := e\<lparr>de_inbox := de_inbox e @ [fg_data f]\<rparr>]\<rparr>"
    using flight_step_cases [of us f vs n] by (auto simp: Let_def)
  then show ?thesis
  proof cases
    case stay
    then show ?thesis using inv by simp
  next
    case (move pc)
    have "outstanding (n\<lparr>dn_flights := us @ f\<lparr>fg_pc := pc\<rparr> # vs\<rparr>) = outstanding n"
      "\<And>i. arriving i (n\<lparr>dn_flights := us @ f\<lparr>fg_pc := pc\<rparr> # vs\<rparr>) = arriving i n"
      "\<And>i. sent_to i (n\<lparr>dn_flights := us @ f\<lparr>fg_pc := pc\<rparr> # vs\<rparr>) = sent_to i n"
      using fl by (simp_all add: outstanding_def arriving_def sent_to_def)
    then show ?thesis unfolding move using dgram_invD [OF inv] fl
      by (intro dgram_invI [OF inv]) (auto intro: balanced_eq)
  next
    case lost
    let ?m = "n\<lparr>dn_flights := us @ vs\<rparr>"
    have "mset (arriving i (count_dropped ?m)) \<subseteq># mset (arriving i n)" "sent_to i (count_dropped ?m) = sent_to i n" for i
      using fl by (simp_all add: arriving_def count_dropped_def sent_to_def)
    then have "mset (arriving i (count_dropped ?m)) \<subseteq># mset (sent_to i (count_dropped ?m))" if "i < length (dn_ends n)" for i
      using dgram_invD(5) [OF inv that] by (metis subset_mset.order_trans)
    moreover have "balanced (count_dropped ?m)"
      by (rule balanced_dropped [OF dgram_invD(4) [OF inv]]) (use fl in \<open>simp_all add: outstanding_def\<close>)
    moreover have "dn_ends (count_dropped ?m) = dn_ends n" "dn_flights (count_dropped ?m) = us @ vs" "dn_waiting (count_dropped ?m) = dn_waiting n"
      "dn_got (count_dropped ?m) = dn_got n" "dn_sent (count_dropped ?m) = dn_sent n" by (simp_all add: count_dropped_def)
    ultimately show ?thesis unfolding lost using dgram_invD [OF inv] fl
      by (intro dgram_invI [OF inv]) auto
  next
    case (landed d e)
    let ?n = "flight_step us f vs n"
    have d: "d < length (dn_ends n)" using landed(1) dgram_invD(1,2) [OF inv] fl by auto
    have arr: "mset (arriving i ?n) = mset (arriving i n)" if "i < length (dn_ends n)" for i
      using fl d that landed(1,2) unfolding landed(4) by (cases "i = d") (auto simp: arriving_def peer_eq_iff)
    have "outstanding ?n = outstanding n"
      using outstanding_inbox [OF d, of "e\<lparr>de_inbox := de_inbox e @ [fg_data f]\<rparr>"] fl landed(2) unfolding landed(4)
      by (simp add: outstanding_def)
    then have "balanced ?n" by (rule balanced_eq [OF dgram_invD(4) [OF inv], rotated]) (simp add: landed(4))
    moreover have "sent_to i ?n = sent_to i n" for i unfolding landed(4) by (simp add: sent_to_def)
    moreover have "length (dn_ends ?n) = length (dn_ends n)" "dn_got ?n = dn_got n" "dn_sent ?n = dn_sent n"
      "dn_waiting ?n = dn_waiting n" "fg_src ` set (dn_flights ?n) \<subseteq> fg_src ` set (dn_flights n)"
      using fl unfolding landed(4) by auto
    moreover have "x \<in> set (dn_ends n) \<or> length (de_inbox x) \<le> de_cap x" if "x \<in> set (dn_ends ?n)" for x
      using that landed(3) unfolding landed(4) by (auto dest!: set_update_subset_insert [THEN subsetD])
    ultimately show ?thesis using dgram_invD [OF inv] arr by (intro dgram_invI [OF inv]) auto
  qed
qed

lemma take_inbox_inv:
  assumes inv: "dgram_inv n" and i: "i < length (dn_ends n)" and t: "take_inbox i n = Some (dg, n')"
  shows "dgram_inv n'"
proof -
  obtain rest where box: "de_inbox (dn_ends n ! i) = dg # rest"
    and n': "n' = n\<lparr>dn_ends := (dn_ends n)[i := (dn_ends n ! i)\<lparr>de_inbox := rest\<rparr>], dn_uncounted := dn_uncounted n + 1, dn_got := dn_got n @ [(i, dg)]\<rparr>"
    using t by (auto simp: take_inbox_def split: list.splits)
  have "mset (arriving j n') = mset (arriving j n)" if "j < length (dn_ends n)" for j
    using i that box unfolding n' by (cases "j = i") (auto simp: arriving_def)
  moreover have sent: "sent_to j n' = sent_to j n" for j unfolding n' by (simp add: sent_to_def)
  have out: "outstanding n' = outstanding n"
    using outstanding_inbox [OF i, of "(dn_ends n ! i)\<lparr>de_inbox := rest\<rparr>"] box unfolding n' by (simp add: outstanding_def)
  have "balanced n'" by (rule balanced_eq [OF dgram_invD(4) [OF inv] _ out]) (simp add: n')
  moreover have "length rest \<le> de_cap (dn_ends n ! i)" using dgram_invD(6) [OF inv i] box by simp
  then have "x \<in> set (dn_ends n) \<or> length (de_inbox x) \<le> de_cap x" if "x \<in> set (dn_ends n')" for x
    using that unfolding n' by (auto dest!: set_update_subset_insert [THEN subsetD])
  moreover have "length (dn_ends n') = length (dn_ends n)" "dn_got n' = dn_got n @ [(i, dg)]"
    "dn_sent n' = dn_sent n" "dn_waiting n' = dn_waiting n" "dn_flights n' = dn_flights n"
    unfolding n' by simp_all
  ultimately show ?thesis using dgram_invD [OF inv] i sent by (intro dgram_invI [OF inv]) auto
qed

lemma stable_inv:
  assumes inv: "dgram_inv n" and "map de_inbox (dn_ends n') = map de_inbox (dn_ends n)" "map de_cap (dn_ends n') = map de_cap (dn_ends n)"
    and "dn_flights n' = dn_flights n" "set (dn_waiting n') \<subseteq> {..<length (dn_ends n)}" "dn_stats n' = dn_stats n"
    and "dn_uncounted n' = dn_uncounted n" "dn_got n' = dn_got n" "dn_sent n' = dn_sent n"
  shows "dgram_inv n'"
proof -
  have len: "length (dn_ends n') = length (dn_ends n)" using assms(2) by (metis length_map)
  have box: "de_inbox (dn_ends n' ! i) = de_inbox (dn_ends n ! i)" "de_cap (dn_ends n' ! i) = de_cap (dn_ends n ! i)"
    if "i < length (dn_ends n)" for i using assms(2,3) len that by (metis nth_map)+
  have "arriving i n' = arriving i n" "sent_to i n' = sent_to i n" if "i < length (dn_ends n)" for i
    using assms(4,8,9) box that by (simp_all add: arriving_def sent_to_def)
  moreover have "outstanding n' = outstanding n"
    using assms(2,4,7) by (simp add: outstanding_def flip: map_map)
  then have "balanced n'" by (rule balanced_eq [OF dgram_invD(4) [OF inv] assms(6)])
  moreover have "length (de_inbox x) \<le> de_cap x" if "x \<in> set (dn_ends n')" for x
    using that box len dgram_invD(6) [OF inv] by (metis in_set_conv_nth)
  ultimately show ?thesis using dgram_invD [OF inv] len assms(4,5,8,9) by (intro dgram_invI [OF inv]) auto
qed

lemma inbox_unchanged:
  "e' = (dn_ends n ! i)\<lparr>de_closed := c\<rparr> \<or> e' = (dn_ends n ! i)\<lparr>de_done := c\<rparr> \<Longrightarrow>
     map de_inbox ((dn_ends n)[i := e']) = map de_inbox (dn_ends n) \<and> map de_cap ((dn_ends n)[i := e']) = map de_cap (dn_ends n)"
  by (cases "i < length (dn_ends n)") (auto simp: map_update list_update_beyond intro: list_update_same_conv [THEN iffD2])

lemma dgram_Send_inv:
  assumes inv: "dgram_inv n" and e: "e < length (dn_ends n)" and s: "dgram_Send draw e p n = (r, n')"
  shows "dgram_inv n'"
proof (cases "dn_partitioned n")
  case True
  then show ?thesis using s inv by (simp add: dgram_Send_def)
next
  case False
  define m where "m = (count_sent n)\<lparr>dn_sent := dn_sent n @ [(e, p)]\<rparr>"
  define pc where "pc = (if 0 < dn_latency n then FlSleep (dn_now n + dn_latency n) else FlCheck)"
  have m: "dn_ends m = dn_ends n" "dn_flights m = dn_flights n" "dn_got m = dn_got n" "dn_waiting m = dn_waiting n"
    "dn_sent m = dn_sent n @ [(e, p)]" "outstanding m = outstanding n" "dn_uncounted m = dn_uncounted n"
    by (simp_all add: m_def count_sent_def outstanding_def)
  have sent: "st_Sent (dn_stats m) = st_Dropped (dn_stats m) + st_Delivered (dn_stats m) + of_nat (outstanding n) + 1"
    using dgram_invD(4) [OF inv] by (simp add: m_def count_sent_def balanced_def)
  have grown: "sent_to i m = sent_to i n @ (if e = peer i then [p] else [])" "arriving i m = arriving i n" for i
    using m by (auto simp: sent_to_def arriving_def)
  consider (lost) "n' = count_dropped m"
    | (flying) "n' = m\<lparr>dn_flights := dn_flights m @ [\<lparr>fg_src = e, fg_data = p, fg_pc = pc\<rparr>]\<rparr>"
    using s False by (auto simp: dgram_Send_def Let_def m_def pc_def split: if_splits)
  then show ?thesis
  proof cases
    case lost
    have d: "dn_ends n' = dn_ends n" "dn_flights n' = dn_flights n" "dn_got n' = dn_got n" "dn_waiting n' = dn_waiting n"
      "dn_sent n' = dn_sent n @ [(e, p)]" "outstanding n' = outstanding n"
      using m unfolding lost by (simp_all add: count_dropped_def outstanding_def)
    have "arriving i n' = arriving i n" "sent_to i n' = sent_to i n @ (if e = peer i then [p] else [])" for i
      using d by (auto simp: arriving_def sent_to_def)
    then have "mset (arriving i n') \<subseteq># mset (sent_to i n')" if "i < length (dn_ends n)" for i
      using dgram_invD(5) [OF inv that] by (simp add: subset_mset.add_increasing2)
    moreover have "balanced n'" using sent d(6) unfolding balanced_def by (simp add: lost count_dropped_def)
    ultimately show ?thesis using dgram_invD [OF inv] d e by (intro dgram_invI [OF inv]) auto
  next
    case flying
    have d: "dn_ends n' = dn_ends n" "dn_got n' = dn_got n" "dn_waiting n' = dn_waiting n"
      "dn_sent n' = dn_sent n @ [(e, p)]" "outstanding n' = outstanding n + 1" "dn_stats n' = dn_stats m"
      "dn_flights n' = dn_flights n @ [\<lparr>fg_src = e, fg_data = p, fg_pc = pc\<rparr>]"
      using m unfolding flying by (simp_all add: outstanding_def)
    have "arriving i n' = arriving i n @ (if e = peer i then [p] else [])"
      "sent_to i n' = sent_to i n @ (if e = peer i then [p] else [])" for i
      using d by (auto simp: arriving_def sent_to_def)
    then have "mset (arriving i n') \<subseteq># mset (sent_to i n')" if "i < length (dn_ends n)" for i
      using dgram_invD(5) [OF inv that] by simp
    moreover have "balanced n'" using sent d(5,6) by (simp add: balanced_def)
    ultimately show ?thesis using dgram_invD [OF inv] d e by (intro dgram_invI [OF inv]) auto
  qed
qed

lemma Endpoints_inv:
  assumes inv: "dgram_inv n" shows "dgram_inv (Endpoints n)"
proof -
  let ?k = "length (dn_ends n)"
  have old: "i < ?k \<Longrightarrow> arriving i (Endpoints n) = arriving i n" "sent_to i (Endpoints n) = sent_to i n" for i
    by (simp_all add: arriving_def sent_to_def Endpoints_def Let_def nth_append)
  have new: "arriving i (Endpoints n) = []" if "i = ?k \<or> i = Suc ?k" for i
  proof -
    have "\<not> peer i < ?k" using that dgram_invD(1) [OF inv] by (auto simp: peer_def)
    then have "filter (\<lambda>f. fg_src f = peer i) (dn_flights n) = []" "filter (\<lambda>x. fst x = i) (dn_got n) = []"
      using that dgram_invD(2,7) [OF inv] by (auto simp: filter_empty_conv)
    then show ?thesis using that by (auto simp: arriving_def Endpoints_def Let_def nth_append)
  qed
  have "mset (arriving i (Endpoints n)) \<subseteq># mset (sent_to i (Endpoints n))" if "i < Suc (Suc ?k)" for i
    using that old new [of i] dgram_invD(5) [OF inv, of i] by (cases "i < ?k") (auto simp: less_Suc_eq)
  moreover have "balanced (Endpoints n)"
    using dgram_invD(4) [OF inv] by (simp add: balanced_def outstanding_def Endpoints_def Let_def)
  moreover have "\<forall>(i, p) \<in> set (dn_got n) \<union> set (dn_sent n). i < Suc (Suc ?k)"
    using dgram_invD(7) [OF inv] by fastforce
  ultimately show ?thesis
    using inv unfolding dgram_inv_def by (auto simp: Endpoints_def Let_def)
qed

lemma recv_wait_inv:
  assumes inv: "dgram_inv n" and i: "i \<in> set (dn_waiting n)" and w: "recv_wait b i n = Some (r, n')"
  shows "dgram_inv n'"
proof -
  have less: "i < length (dn_ends n)" using dgram_invD(3) [OF inv] i by auto
  obtain m where m: "dgram_inv m" "dn_waiting m = dn_waiting n" "n' = m\<lparr>dn_waiting := remove1 i (dn_waiting m)\<rparr>"
    "length (dn_ends m) = length (dn_ends n)"
    using w inv take_inbox_inv [OF inv less]
    by (auto simp: recv_wait_def Let_def take_inbox_def split: if_splits list.splits)
  have "set (remove1 i (dn_waiting m)) \<subseteq> {..<length (dn_ends m)}"
    using m(2,4) dgram_invD(3) [OF inv] set_remove1_subset [of i "dn_waiting n"] by auto
  then show ?thesis unfolding m(3) by (intro stable_inv [OF m(1)]) simp_all
qed

lemma countDelivered_inv: assumes inv: "dgram_inv n" and "0 < dn_uncounted n" shows "dgram_inv (countDelivered n)"
proof -
  have "outstanding n = outstanding (countDelivered n) + 1" using assms(2) by (simp add: outstanding_def countDelivered_def)
  then have "balanced (countDelivered n)"
    using dgram_invD(4) [OF inv] by (simp add: balanced_def) (simp add: countDelivered_def)
  moreover have "arriving i (countDelivered n) = arriving i n" "sent_to i (countDelivered n) = sent_to i n" for i
    by (simp_all add: arriving_def sent_to_def countDelivered_def)
  moreover have "dn_ends (countDelivered n) = dn_ends n" "dn_flights (countDelivered n) = dn_flights n"
    "dn_waiting (countDelivered n) = dn_waiting n" "dn_got (countDelivered n) = dn_got n" "dn_sent (countDelivered n) = dn_sent n"
    by (simp_all add: countDelivered_def)
  ultimately show ?thesis using dgram_invD [OF inv] by (intro dgram_invI [OF inv]) auto
qed

lemma dgram_step_inv: "dgram_step single n n' \<Longrightarrow> dgram_inv n \<Longrightarrow> dgram_inv n'"
proof (induction rule: dgram_step.induct)
  case (recv i n r n')
  show ?case
  proof (cases "take_inbox i n")
    case None
    then show ?thesis using recv dgram_invD(3) [OF recv.prems]
      by (intro stable_inv [OF recv.prems]) (auto simp: dgram_Recv_def)
  next
    case (Some x)
    then show ?thesis using recv take_inbox_inv [OF recv.prems recv.hyps(1)] by (cases x) (auto simp: dgram_Recv_def)
  qed
next
  case (close_flag i n)
  then show ?case using inbox_unchanged [of "(dn_ends n ! i)\<lparr>de_closed := True\<rparr>"] dgram_invD(3) [OF close_flag.prems]
    by (intro stable_inv [OF close_flag.prems]) (auto simp: close_mark_def)
next
  case (close_chan i n)
  then show ?case using inbox_unchanged [of "(dn_ends n ! i)\<lparr>de_done := True\<rparr>"] dgram_invD(3) [OF close_chan.prems]
    by (intro stable_inv [OF close_chan.prems]) (auto simp: close_done_def)
next
  case (partition n)
  then show ?case using dgram_invD(3) by (intro stable_inv [OF partition]) (simp_all add: dgram_Partition_def)
next
  case (heal n)
  then show ?case using dgram_invD(3) by (intro stable_inv [OF heal]) (simp_all add: dgram_Heal_def)
next
  case (latency d n)
  then show ?case using dgram_invD(3) by (intro stable_inv [OF latency]) (simp_all add: dgram_SetLatency_def)
next
  case (loss p n n')
  then show ?case using dgram_invD(3) [OF loss.prems] by (intro stable_inv [OF loss.prems]) (auto simp: dgram_SetLoss_def split: if_splits)
next
  case (tick d n)
  then show ?case using dgram_invD(3) by (intro stable_inv [OF tick.prems]) simp_all
qed (blast intro: Endpoints_inv dgram_Send_inv flight_step_inv recv_wait_inv countDelivered_inv)+

section \<open>Order\<close>

definition dgram_fifo :: "dgram_link \<Rightarrow> bool" where
  "dgram_fifo n \<longleftrightarrow> (\<forall>i < length (dn_ends n). subseq (arriving i n) (sent_to i n))
     \<and> (\<forall>e. length (filter (\<lambda>f. fg_src f = e) (dn_flights n)) \<le> 1)"

lemma alone_in_flight:
  assumes "length (filter (\<lambda>f. fg_src f = fg_src g) (us @ g # vs)) \<le> 1"
  shows "filter (\<lambda>f. fg_src f = fg_src g) us = []" "filter (\<lambda>f. fg_src f = fg_src g) vs = []"
  using assms by (simp_all add: filter_empty_conv)

lemma flight_step_fifo:
  assumes inv: "dgram_inv n" and fifo: "dgram_fifo n" and fl: "dn_flights n = us @ f # vs"
  shows "dgram_fifo (flight_step us f vs n)"
proof -
  have "length (filter (\<lambda>g. fg_src g = fg_src f) (us @ f # vs)) \<le> 1" using fifo unfolding dgram_fifo_def fl by blast
  note alone = alone_in_flight [OF this]
  have others: "length (filter (\<lambda>g. fg_src g = e) (us @ vs)) \<le> 1" for e
  proof -
    have "length (filter (\<lambda>g. fg_src g = e) (us @ f # vs)) \<le> 1" using fifo fl by (simp add: dgram_fifo_def)
    then show ?thesis by (simp split: if_splits)
  qed
  have d: "peer (fg_src f) < length (dn_ends n)" using dgram_invD(1,2) [OF inv] fl by auto
  have lost: "subseq (arriving i (n\<lparr>dn_flights := us @ vs\<rparr>)) (arriving i n)" for i
    using fl by (auto simp: arriving_def intro: subseq_append' [THEN iffD2])
  have landed: "arriving i (n\<lparr>dn_flights := us @ vs, dn_ends := (dn_ends n)[peer (fg_src f) := (dn_ends n ! peer (fg_src f))
      \<lparr>de_inbox := de_inbox (dn_ends n ! peer (fg_src f)) @ [fg_data f]\<rparr>]\<rparr>) = arriving i n"
    if "i < length (dn_ends n)" for i
    using fl d that alone by (cases "i = peer (fg_src f)") (auto simp: arriving_def peer_eq_iff)
  have base: "subseq (arriving i n) (sent_to i n)" if "i < length (dn_ends n)" for i
    using fifo that by (simp add: dgram_fifo_def)
  consider (stay) "flight_step us f vs n = n"
    | (move) pc where "flight_step us f vs n = n\<lparr>dn_flights := us @ f\<lparr>fg_pc := pc\<rparr> # vs\<rparr>"
    | (gone) "flight_step us f vs n = count_dropped (n\<lparr>dn_flights := us @ vs\<rparr>)"
    | (arrived) "flight_step us f vs n = n\<lparr>dn_flights := us @ vs, dn_ends := (dn_ends n)[peer (fg_src f) := (dn_ends n ! peer (fg_src f))
      \<lparr>de_inbox := de_inbox (dn_ends n ! peer (fg_src f)) @ [fg_data f]\<rparr>]\<rparr>"
    using flight_step_cases [of us f vs n] by (auto simp: Let_def)
  then show ?thesis
  proof cases
    case (move pc)
    let ?m = "n\<lparr>dn_flights := us @ f\<lparr>fg_pc := pc\<rparr> # vs\<rparr>"
    have "arriving i ?m = arriving i n" "sent_to i ?m = sent_to i n" for i using fl by (simp_all add: arriving_def sent_to_def)
    moreover have "length (filter (\<lambda>g. fg_src g = e) (dn_flights ?m)) = length (filter (\<lambda>g. fg_src g = e) (dn_flights n))" for e
      using fl by simp
    ultimately show ?thesis unfolding move using fifo by (simp only: dgram_fifo_def) simp
  next
    case gone
    have "arriving i (count_dropped (n\<lparr>dn_flights := us @ vs\<rparr>)) = arriving i (n\<lparr>dn_flights := us @ vs\<rparr>)"
      "sent_to i (count_dropped (n\<lparr>dn_flights := us @ vs\<rparr>)) = sent_to i n" for i
      by (simp_all add: arriving_def sent_to_def count_dropped_def)
    moreover have "subseq (arriving i (n\<lparr>dn_flights := us @ vs\<rparr>)) (sent_to i n)" if "i < length (dn_ends n)" for i
      using lost base [OF that] by (rule subseq_order.order_trans)
    ultimately show ?thesis unfolding gone dgram_fifo_def using others by (simp add: count_dropped_def)
  next
    case arrived
    then show ?thesis unfolding arrived dgram_fifo_def using others landed base by (auto simp: sent_to_def)
  qed (use fifo in simp)
qed

lemma take_inbox_fifo:
  assumes "dgram_fifo n" "i < length (dn_ends n)" "take_inbox i n = Some (dg, n')"
  shows "dgram_fifo n'"
proof -
  obtain rest where box: "de_inbox (dn_ends n ! i) = dg # rest"
    and n': "n' = n\<lparr>dn_ends := (dn_ends n)[i := (dn_ends n ! i)\<lparr>de_inbox := rest\<rparr>], dn_uncounted := dn_uncounted n + 1, dn_got := dn_got n @ [(i, dg)]\<rparr>"
    using assms(3) by (auto simp: take_inbox_def split: list.splits)
  have "arriving j n' = arriving j n" "sent_to j n' = sent_to j n" if "j < length (dn_ends n)" for j
    using assms(2) that box unfolding n' by (cases "j = i"; auto simp: arriving_def sent_to_def)+
  then show ?thesis using assms(1) by (auto simp: dgram_fifo_def n')
qed

lemma dgram_Send_fifo:
  assumes fifo: "dgram_fifo n" and free: "e \<notin> fg_src ` set (dn_flights n)" and s: "dgram_Send draw e p n = (r, n')"
  shows "dgram_fifo n'"
proof -
  have "n' = n \<or> dn_ends n' = dn_ends n \<and> dn_got n' = dn_got n \<and> dn_sent n' = dn_sent n @ [(e, p)]
      \<and> (dn_flights n' = dn_flights n \<or> (\<exists>pc. dn_flights n' = dn_flights n @ [\<lparr>fg_src = e, fg_data = p, fg_pc = pc\<rparr>]))"
    using s by (auto simp: dgram_Send_def Let_def count_sent_def count_dropped_def split: if_splits)
  moreover have none: "filter (\<lambda>f. fg_src f = e) (dn_flights n) = []" using free by (auto simp: filter_empty_conv)
  moreover have "n' = n \<Longrightarrow> ?thesis" using fifo by simp
  moreover have ?thesis if e: "dn_ends n' = dn_ends n" "dn_got n' = dn_got n" "dn_sent n' = dn_sent n @ [(e, p)]"
    and f: "dn_flights n' = dn_flights n \<or> (\<exists>pc. dn_flights n' = dn_flights n @ [\<lparr>fg_src = e, fg_data = p, fg_pc = pc\<rparr>])"
  proof -
    have sent: "sent_to i n' = sent_to i n @ (if e = peer i then [p] else [])" for i using e by (simp add: sent_to_def)
    have "arriving i n' = arriving i n \<or> arriving i n' = arriving i n @ (if e = peer i then [p] else [])" for i
      using e f by (auto simp: arriving_def)
    moreover have "subseq (arriving i n) (sent_to i n)" if "i < length (dn_ends n)" for i
      using fifo that by (simp add: dgram_fifo_def)
    ultimately have "subseq (arriving i n') (sent_to i n')" if "i < length (dn_ends n)" for i
      unfolding sent using that by (metis list_emb_prefix subseq_append)
    moreover have "length (filter (\<lambda>g. fg_src g = x) (dn_flights n')) \<le> 1" for x
      using f none fifo by (cases "x = e") (auto simp: dgram_fifo_def)
    ultimately show ?thesis using e(1) by (simp add: dgram_fifo_def)
  qed
  ultimately show ?thesis by blast
qed

lemma stable_fifo:
  assumes "dgram_fifo n" "map de_inbox (dn_ends n') = map de_inbox (dn_ends n)" "dn_flights n' = dn_flights n"
    and "dn_got n' = dn_got n" "dn_sent n' = dn_sent n"
  shows "dgram_fifo n'"
proof -
  have len: "length (dn_ends n') = length (dn_ends n)" using assms(2) by (metis length_map)
  have "de_inbox (dn_ends n' ! i) = de_inbox (dn_ends n ! i)" if "i < length (dn_ends n)" for i
    using assms(2) len that by (metis nth_map)
  then show ?thesis using assms(1,3-5) len by (simp add: dgram_fifo_def arriving_def sent_to_def)
qed

lemma dgram_step_fifo: "dgram_step True n n' \<Longrightarrow> dgram_inv n \<Longrightarrow> dgram_fifo n \<Longrightarrow> dgram_fifo n'"
proof (induction rule: dgram_step.induct)
  case (endpoints n)
  let ?k = "length (dn_ends n)"
  have "arriving i (Endpoints n) = arriving i n" if "i < ?k" for i
    using that by (simp add: arriving_def Endpoints_def Let_def nth_append)
  moreover have "sent_to i (Endpoints n) = sent_to i n" for i by (simp add: sent_to_def Endpoints_def Let_def)
  moreover have "arriving i (Endpoints n) = []" if "i = ?k \<or> i = Suc ?k" for i
  proof -
    have "\<not> peer i < ?k" using that dgram_invD(1) [OF endpoints(1)] by (auto simp: peer_def)
    then have "filter (\<lambda>f. fg_src f = peer i) (dn_flights n) = []" "filter (\<lambda>x. fst x = i) (dn_got n) = []"
      using that dgram_invD(2,7) [OF endpoints(1)] by (auto simp: filter_empty_conv)
    then show ?thesis using that by (auto simp: arriving_def Endpoints_def Let_def nth_append)
  qed
  moreover have "length (dn_ends (Endpoints n)) = Suc (Suc ?k)" "dn_flights (Endpoints n) = dn_flights n"
    by (simp_all add: Endpoints_def Let_def)
  ultimately show ?case using endpoints(2) by (auto simp: dgram_fifo_def less_Suc_eq)
next
  case (loss p n n')
  then show ?case by (intro stable_fifo [OF loss.prems(2)]) (auto simp: dgram_SetLoss_def split: if_splits)
next
  case (send e n draw p r n')
  then show ?case using dgram_Send_fifo by blast
next
  case (fly n us f vs)
  then show ?case using flight_step_fifo by blast
next
  case (recv i n r n')
  then show ?case using take_inbox_fifo [OF recv.prems(2) recv.hyps(1)]
    by (auto simp: dgram_Recv_def split: option.splits intro: stable_fifo [OF recv.prems(2)])
next
  case (recv_end i n b r n')
  have i: "i < length (dn_ends n)" using dgram_invD(3) [OF recv_end.prems(1)] recv_end.hyps(1) by auto
  obtain m where "dgram_fifo m" "n' = m\<lparr>dn_waiting := remove1 i (dn_waiting m)\<rparr>"
    using recv_end take_inbox_fifo [OF recv_end.prems(2) i] by (auto simp: recv_wait_def Let_def split: if_splits option.splits)
  then show ?case by (auto intro: stable_fifo)
next
  case (close_flag i n)
  then show ?case using inbox_unchanged [of "(dn_ends n ! i)\<lparr>de_closed := True\<rparr>"]
    by (intro stable_fifo [OF close_flag.prems(2)]) (auto simp: close_mark_def)
next
  case (close_chan i n)
  then show ?case using inbox_unchanged [of "(dn_ends n ! i)\<lparr>de_done := True\<rparr>"]
    by (intro stable_fifo [OF close_chan.prems(2)]) (auto simp: close_done_def)
qed (auto intro: stable_fifo simp: dgram_Partition_def dgram_Heal_def dgram_SetLatency_def countDelivered_def)

lemma new_link:
  assumes "NewDatagramLink now latency loss depth = Ok n"
  shows "dgram_inv n" "dgram_fifo n"
  using assms by (auto simp: NewDatagramLink_def dgram_inv_def dgram_fifo_def balanced_def outstanding_def split: if_splits)

lemma dgram_reach_inv: "dgram_reach single n n' \<Longrightarrow> dgram_inv n \<Longrightarrow> dgram_inv n'"
  by (induction rule: dgram_reach.induct) (auto intro: dgram_step_inv)

lemma dgram_reach_fifo: "dgram_reach single n n' \<Longrightarrow> single = True \<Longrightarrow> dgram_inv n \<Longrightarrow> dgram_fifo n \<Longrightarrow> dgram_fifo n'"
  by (induction rule: dgram_reach.induct) (auto intro: dgram_step_fifo dgram_reach_inv)

section \<open>Properties\<close>

text \<open>
  C40. Datagrams are conserved: under every interleaving of concurrent senders,
  receivers, partitions, closes and clock ticks, the three counters differ by exactly what
  is still in flight, queued or handed over but not counted; no receive queue exceeds
  its depth; and everything an endpoint received or has queued was sent by
  its peer, never more often than it was sent, and with one sending goroutine per endpoint
  in the order it was sent.
\<close>

theorem datagrams_are_conserved:
  assumes "NewDatagramLink now latency loss depth = Ok n0" "dgram_reach single n0 n"
  shows "st_Sent (dgram_Stats n) = st_Dropped (dgram_Stats n) + st_Delivered (dgram_Stats n) + of_nat (outstanding n)
       \<and> (\<forall>i < length (dn_ends n). length (de_inbox (dn_ends n ! i)) \<le> de_cap (dn_ends n ! i)
            \<and> mset (arriving i n) \<subseteq># mset (sent_to i n) \<and> (single \<longrightarrow> subseq (arriving i n) (sent_to i n)))"
proof -
  have inv: "dgram_inv n" using dgram_reach_inv [OF assms(2)] new_link [OF assms(1)] by blast
  have "single \<Longrightarrow> dgram_fifo n" using dgram_reach_fifo [OF assms(2)] new_link [OF assms(1)] by blast
  then show ?thesis
    using dgram_invD [OF inv] by (auto simp: dgram_Stats_def balanced_def dgram_fifo_def)
qed

definition demo_link :: dgram_link where
  "demo_link = (case NewDatagramLink 0 5 (Finite (1 / 2)) 0 of Inr n \<Rightarrow> Endpoints n | Inl e \<Rightarrow> undefined)"

definition demo_fly :: "dgram_link \<Rightarrow> dgram_link" where
  "demo_fly n = (case dn_flights n of [] \<Rightarrow> n | f # fs \<Rightarrow> flight_step [] f fs n)"

definition demo_send :: "bytes \<Rightarrow> dgram_link \<Rightarrow> dgram_link" where
  "demo_send p n = snd (dgram_Send (Finite (3 / 4)) 0 p n)"

definition demo_elapse :: "dgram_link \<Rightarrow> dgram_link" where "demo_elapse n = n\<lparr>dn_now := dn_now n + 5\<rparr>"

lemma demo_link_start:
  assumes "dgram_reach s demo_link n"
  shows "\<exists>n0. NewDatagramLink 0 5 (Finite (1 / 2)) 0 = Ok n0 \<and> dgram_reach s n0 n"
proof -
  obtain n0 where n0: "NewDatagramLink 0 5 (Finite (1 / 2)) 0 = Ok n0"
    by (simp add: NewDatagramLink_def bad_loss_def float_leq_def)
  then have "dgram_reach s n0 demo_link"
    using dgram_next [OF dgram_here endpoints] by (simp add: demo_link_def)
  with assms have "dgram_reach s n0 n"
    by (induction rule: dgram_reach.induct) (auto intro: dgram_reach.intros)
  with n0 show ?thesis by blast
qed

lemma demo_fly_reach: "dgram_reach s n m \<Longrightarrow> dgram_reach s n (demo_fly m)"
proof (cases "dn_flights m")
  case (Cons f fs)
  moreover assume "dgram_reach s n m"
  ultimately show ?thesis using fly [of m "[]" f fs s] dgram_next by (force simp: demo_fly_def)
qed (simp add: demo_fly_def)

lemma demo_send_reach:
  "dgram_reach s n m \<Longrightarrow> 0 < length (dn_ends m) \<Longrightarrow> dn_flights m = [] \<Longrightarrow> dgram_reach s n (demo_send p m)"
  unfolding demo_send_def by (erule dgram_next, rule send [of 0 _ _ _ p], simp_all add: prod_eq_iff)

lemma demo_elapse_reach: "dgram_reach s n m \<Longrightarrow> dgram_reach s n (demo_elapse m)"
  unfolding demo_elapse_def by (erule dgram_next, rule tick, simp)

definition demo_landed :: dgram_link where
  "demo_landed = (demo_fly ^^ 4) (demo_elapse (demo_send [7] demo_link))"

lemma demo_landed_reach: "dgram_reach True demo_link demo_landed"
proof -
  have "0 < length (dn_ends demo_link)" "dn_flights demo_link = []" by code_simp+
  then have "dgram_reach True demo_link (demo_elapse (demo_send [7] demo_link))"
    by (intro demo_elapse_reach demo_send_reach dgram_here)
  then show ?thesis unfolding demo_landed_def by (simp add: numeral_eq_Suc demo_fly_reach)
qed

theorem datagrams_are_conserved_witness:
  "dgram_reach True demo_link demo_landed \<and> st_Sent (dgram_Stats demo_landed) = 1 \<and> outstanding demo_landed = 1
     \<and> subseq (arriving 1 demo_landed) (sent_to 1 demo_landed) \<and> arriving 1 demo_landed = [[7]]"
proof -
  obtain n0 where n0: "NewDatagramLink 0 5 (Finite (1 / 2)) 0 = Ok n0" "dgram_reach True n0 demo_landed"
    using demo_link_start [OF demo_landed_reach] by blast
  have "length (dn_ends demo_landed) = 2" "st_Sent (dgram_Stats demo_landed) = 1" "outstanding demo_landed = 1"
    "arriving 1 demo_landed = [[7]]" by code_simp+
  moreover from this(1) datagrams_are_conserved [OF n0] have "subseq (arriving 1 demo_landed) (sent_to 1 demo_landed)" by auto
  ultimately show ?thesis using demo_landed_reach by blast
qed

text \<open>
  An endpoint can report its closure and still deliver afterwards: a
  sender that looked at the endpoint before it was closed queues its datagram after a
  receive was answered with the closure, and the next receive returns it.
\<close>

definition demo_closed :: dgram_link where
  "demo_closed = dgram_Close 1 ((demo_fly ^^ 3) (demo_elapse (demo_send [7] demo_link)))"

theorem closure_is_not_final:
  "\<exists>n n'. dgram_reach True demo_link n \<and> recv_wait False 1 n = Some (Err ''testnet: endpoint is closed'', n')
     \<and> fst (dgram_Recv 1 (demo_fly n')) = Some (Ok [7])"
proof -
  let ?m = "(demo_fly ^^ 3) (demo_elapse (demo_send [7] demo_link))"
  let ?n = "snd (dgram_Recv 1 demo_closed)"
  have "0 < length (dn_ends demo_link)" "dn_flights demo_link = []" by code_simp+
  then have "dgram_reach True demo_link (demo_elapse (demo_send [7] demo_link))"
    by (intro demo_elapse_reach demo_send_reach dgram_here)
  then have m: "dgram_reach True demo_link ?m" by (simp add: numeral_eq_Suc demo_fly_reach)
  have len: "1 < length (dn_ends ?m)" "1 < length (dn_ends (close_mark 1 ?m))" "de_closed (dn_ends (close_mark 1 ?m) ! 1)"
    "1 < length (dn_ends demo_closed)" by code_simp+
  have "dgram_reach True demo_link demo_closed"
    unfolding demo_closed_def dgram_Close_def
    by (rule dgram_next [OF dgram_next [OF m close_flag [OF len(1)]] close_chan [OF len(2,3)]])
  then have "dgram_reach True demo_link ?n"
    by (rule dgram_next) (rule recv [OF len(4), of "fst (dgram_Recv 1 demo_closed)"], simp)
  moreover have "recv_wait False 1 ?n = Some (Err ''testnet: endpoint is closed'', ?n\<lparr>dn_waiting := []\<rparr>)" by code_simp
  moreover have "fst (dgram_Recv 1 (demo_fly (?n\<lparr>dn_waiting := []\<rparr>))) = Some (Ok [7])" by code_simp
  ultimately show ?thesis by blast
qed

text \<open>
  A partition healed before the latency has passed drops nothing: the datagram
  that was in flight when the link was severed is queued at the peer.
\<close>

theorem brief_partition_drops_nothing:
  "let n = (demo_fly ^^ 4) (demo_elapse (dgram_Heal (dgram_Partition (demo_send [7] demo_link))))
   in de_inbox (dn_ends n ! 1) = [[7]] \<and> st_Dropped (dgram_Stats n) = 0"
  by code_simp

text \<open>A loss that is not a number passes the guard and never drops anything.\<close>

theorem nan_loss_is_accepted:
  "is_ok (NewDatagramLink now latency NaN depth) \<and> is_ok (dgram_SetLoss NaN n) \<and> \<not> float_less draw NaN"
  by (cases draw) (simp_all add: NewDatagramLink_def dgram_SetLoss_def bad_loss_def float_leq_def)

end
