(* ===== verification/Runes.thy ===== *)
theory Runes
  imports Prelude
begin

text \<open>
  The standard library's view of a string as runes, which the terminal rendering uses
  (\<^verbatim>\<open>utf8.RuneCountInString\<close>, \<^verbatim>\<open>[]rune\<close>, \<^verbatim>\<open>strings.TrimSpace\<close>, \<^verbatim>\<open>strings.Fields\<close>,
  \<^verbatim>\<open>strings.Split\<close> on a newline).  A rune is the list of its bytes; a byte that starts no
  valid sequence is a rune of its own and becomes U+FFFD when converted.
\<close>

definition rune_width :: "nat list \<Rightarrow> nat" where
  "rune_width xs = (case xs of
      [] \<Rightarrow> 0
    | a # ys \<Rightarrow>
        (if a < 128 then 1
         else if 194 \<le> a \<and> a \<le> 223 then (case ys of b # _ \<Rightarrow> if utf8_cont b then 2 else 0 | _ \<Rightarrow> 0)
         else if 224 \<le> a \<and> a \<le> 239 then
           (case ys of b # c # _ \<Rightarrow> if utf8_second3 a b \<and> utf8_cont c then 3 else 0 | _ \<Rightarrow> 0)
         else if 240 \<le> a \<and> a \<le> 244 then
           (case ys of b # c # d # _ \<Rightarrow> if utf8_second4 a b \<and> utf8_cont c \<and> utf8_cont d then 4 else 0 | _ \<Rightarrow> 0)
         else 0))"

function runes :: "string \<Rightarrow> string list" where
  "runes s = (if s = [] then []
     else let n = max 1 (rune_width (map of_char s)) in take n s # runes (drop n s))"
  by auto
termination by (relation "measure length") auto

declare runes.simps [simp del]

lemma concat_runes: "concat (runes s) = s"
  by (induction s rule: runes.induct) (subst runes.simps, simp add: Let_def)

lemma runes_Nil [simp]: "runes [] = []" by (simp add: runes.simps)

definition RuneCount :: "string \<Rightarrow> nat" where "RuneCount s = length (runes s)"

definition rune_string :: "string \<Rightarrow> string" where
  "rune_string r = (if rune_width (map of_char r) = 0 then [CHR 0xEF, CHR 0xBF, CHR 0xBD] else r)"

definition space_runes :: "string list" where
  "space_runes =
     [[CHR 0x20], [CHR 0x09], [CHR 0x0A], [CHR 0x0B], [CHR 0x0C], [CHR 0x0D],
      [CHR 0xC2, CHR 0x85], [CHR 0xC2, CHR 0xA0], [CHR 0xE1, CHR 0x9A, CHR 0x80]]
     @ map (\<lambda>b. [CHR 0xE2, CHR 0x80, char_of b]) ([128..<139] @ [168, 169, 175 :: nat])
     @ [[CHR 0xE2, CHR 0x81, CHR 0x9F], [CHR 0xE3, CHR 0x80, CHR 0x80]]"

definition IsSpace :: "string \<Rightarrow> bool" where "IsSpace r \<longleftrightarrow> r \<in> set space_runes"

definition TrimSpace :: "string \<Rightarrow> string" where
  "TrimSpace s = concat (rev (dropWhile IsSpace (rev (dropWhile IsSpace (runes s)))))"

fun split_runes :: "(string \<Rightarrow> bool) \<Rightarrow> string list \<Rightarrow> string list \<Rightarrow> string list list" where
  "split_runes sep [] acc = [acc]"
| "split_runes sep (r # rs) acc = (if sep r then acc # split_runes sep rs [] else split_runes sep rs (acc @ [r]))"

definition Fields :: "string \<Rightarrow> string list" where
  "Fields s = map concat (filter (\<lambda>f. f \<noteq> []) (split_runes IsSpace (runes s) []))"

text \<open>\<^verbatim>\<open>strings.Split(s, "\n")\<close> and \<^verbatim>\<open>strings.Join(lines, "\n")\<close>.\<close>

fun split_lines :: "string \<Rightarrow> string list" where
  "split_lines [] = [[]]"
| "split_lines (c # cs) =
     (if c = CHR 0x0A then [] # split_lines cs
      else case split_lines cs of [] \<Rightarrow> [[c]] | l # ls \<Rightarrow> (c # l) # ls)"

fun join_lines :: "string list \<Rightarrow> string" where
  "join_lines [] = []"
| "join_lines [l] = l"
| "join_lines (l # ls) = l @ CHR 0x0A # join_lines ls"

definition one_line :: "string \<Rightarrow> bool" where "one_line s \<longleftrightarrow> CHR 0x0A \<notin> set s"

lemma split_lines_ne [simp]: "split_lines s \<noteq> []"
  by (induction s) (auto split: list.splits)

lemma split_one_line: "one_line s \<Longrightarrow> split_lines s = [s]"
  by (induction s) (auto simp: one_line_def)

lemma split_append_newline: "one_line l \<Longrightarrow> split_lines (l @ CHR 0x0A # s) = l # split_lines s"
  by (induction l) (auto simp: one_line_def)

lemma split_join: "ls \<noteq> [] \<Longrightarrow> \<forall>l \<in> set ls. one_line l \<Longrightarrow> split_lines (join_lines ls) = ls"
  by (induction ls rule: join_lines.induct) (auto simp: split_one_line split_append_newline)

lemma split_lines_one: "l \<in> set (split_lines s) \<Longrightarrow> one_line l"
  by (induction s arbitrary: l) (auto simp: one_line_def split: if_splits list.splits)

lemma join_split: "join_lines (split_lines s) = s"
proof (induction s)
  case (Cons c cs)
  obtain l ls where e: "split_lines cs = l # ls" by (cases "split_lines cs") auto
  have "join_lines ((c # l) # ls) = c # join_lines (l # ls)" by (cases ls) simp_all
  then show ?case using Cons e by auto
qed simp

lemma rune_width_prefix:
  assumes "rune_width xs = n" "0 < n" shows "n \<le> length xs \<and> rune_width (take n xs @ ys) = n"
proof -
  obtain a t where xs: "xs = a # t" using assms by (cases xs) (auto simp: rune_width_def)
  consider "a < 128" | "194 \<le> a \<and> a \<le> 223" | "224 \<le> a \<and> a \<le> 239" | "240 \<le> a \<and> a \<le> 244" | "\<not> a < 128 \<and> \<not> (194 \<le> a \<and> a \<le> 223) \<and> \<not> (224 \<le> a \<and> a \<le> 239) \<and> \<not> (240 \<le> a \<and> a \<le> 244)"
    by blast
  then show ?thesis
  proof cases
    case 1
    then have "n = 1" using assms xs by (simp add: rune_width_def)
    then show ?thesis using 1 xs by (simp add: rune_width_def)
  next
    case 2
    then obtain b u where "t = b # u" "utf8_cont b" "n = 2" using assms xs by (cases t) (auto simp: rune_width_def split: if_splits)
    then show ?thesis using 2 xs by (simp add: rune_width_def)
  next
    case 3
    then obtain b c u where "t = b # c # u" "utf8_second3 a b" "utf8_cont c" "n = 3"
      using assms xs by (cases t; cases "tl t") (auto simp: rune_width_def split: if_splits)
    then show ?thesis using 3 xs by (simp add: rune_width_def)
  next
    case 4
    then obtain b c d u where "t = b # c # d # u" "utf8_second4 a b" "utf8_cont c" "utf8_cont d" "n = 4"
      using assms xs by (cases t; cases "tl t"; cases "tl (tl t)") (auto simp: rune_width_def split: if_splits)
    then show ?thesis using 4 xs by (simp add: rune_width_def)
  next
    case 5
    then have "rune_width xs = 0" unfolding xs rune_width_def by (simp split: if_split) blast
    then show ?thesis using assms by simp
  qed
qed

end
