(* ===== verification/Tui.thy ===== *)
theory Tui
  imports Hub Roster Machine Runes "HOL-Library.Product_Lexorder"
begin

text \<open>
  \<^verbatim>\<open>src/internal/tui/keymap.go\<close> and \<^verbatim>\<open>model.go\<close>: the terminal interface's state machine.  The
  seams of \<^verbatim>\<open>Params\<close> are a record of functions on the client's state \<^typ>\<open>'s\<close>, \<^term>\<open>None\<close>
  for a nil function; the third-party text field is a record of functions on its
  state \<^typ>\<open>'i\<close>.  A key press is the name the framework gives it.  Commands are
  the values Update returns.
\<close>

section \<open>Key map (keymap.go)\<close>

datatype action = ActNone | ActSend | ActNextConv | ActPrevConv | ActJumpConv | ActHelp | ActQuit | ActCloseHelp

record binding =
  bd_keys :: "string list"
  bd_label :: string
  bd_desc :: string
  bd_action :: action
  bd_needsFree :: bool

definition keymap :: "binding list" where
  "keymap =
    [\<lparr>bd_keys = [''enter''], bd_label = ''enter'', bd_desc = ''send the message you typed'', bd_action = ActSend, bd_needsFree = False\<rparr>,
     \<lparr>bd_keys = [''tab''], bd_label = ''tab'', bd_desc = ''next conversation'', bd_action = ActNextConv, bd_needsFree = False\<rparr>,
     \<lparr>bd_keys = [''shift+tab''], bd_label = ''shift+tab'', bd_desc = ''previous conversation'', bd_action = ActPrevConv, bd_needsFree = False\<rparr>,
     \<lparr>bd_keys = [''1'', ''2'', ''3'', ''4'', ''5'', ''6'', ''7'', ''8'', ''9''], bd_label = ''1-9'',
      bd_desc = ''jump to the Nth conversation'', bd_action = ActJumpConv, bd_needsFree = True\<rparr>,
     \<lparr>bd_keys = [''?''], bd_label = ''? (empty input)'', bd_desc = ''toggle this help'', bd_action = ActHelp, bd_needsFree = True\<rparr>,
     \<lparr>bd_keys = [''esc''], bd_label = ''esc'', bd_desc = ''close help'', bd_action = ActCloseHelp, bd_needsFree = False\<rparr>,
     \<lparr>bd_keys = [''ctrl+c''], bd_label = ''ctrl+c'', bd_desc = ''quit walkie'', bd_action = ActQuit, bd_needsFree = False\<rparr>]"

definition lookup :: "string \<Rightarrow> binding option" where
  "lookup key = find (\<lambda>b. key \<in> set (bd_keys b)) keymap"

definition Keymap :: "(string \<times> string) list" where "Keymap = map (\<lambda>b. (bd_label b, bd_desc b)) keymap"

definition newline :: string where "newline = [CHR 0x0A]"

definition freeInputRule :: string where
  "freeInputRule = ''Digits and ? act as commands only while the input line is empty.''"

definition helpText :: string where
  "helpText = ''Commands (also always visible in the hint line):'' @ newline
     @ concat (map (\<lambda>b. ''  '' @ bd_label b @ ''  '' @ bd_desc b @ newline) keymap) @ newline @ freeInputRule"

section \<open>Model (model.go)\<close>

record 'i text_field =
  ti_Value :: "'i \<Rightarrow> string"
  ti_SetValue :: "string \<Rightarrow> 'i \<Rightarrow> 'i"
  ti_Update :: "string \<Rightarrow> 'i \<Rightarrow> 'i"
  ti_View :: "'i \<Rightarrow> string"
  ti_New :: 'i

record 's tui_params =
  tp_HubFunc :: "('s \<Rightarrow> hub option) option"
  tp_Presence :: "'s \<Rightarrow> roster_view"
  tp_ConnectedAs :: "('s \<Rightarrow> string) option"
  tp_Send :: "(string \<Rightarrow> string \<Rightarrow> 's \<Rightarrow> string option \<times> 's) option"
  tp_AudioAvailable :: bool
  tp_ConnState :: conn_state

record 'i tui =
  tm_width :: int
  tm_height :: int
  tm_input :: 'i
  tm_conversations :: "string list"
  tm_current :: nat
  tm_devices :: "view_entry list"
  tm_connState :: conn_state
  tm_connectedAs :: string
  tm_unread :: "string \<Rightarrow> nat"
  tm_helpOpen :: bool
  tm_sendErr :: string

datatype tui_cmd = NoCmd | WaitConn | WaitPresence | WaitInbound | InputCmd | QuitCmd

datatype tui_msg = WindowSizeMsg int int | ConnMsg conn_change | PresenceMsg view_entry | InboundMsg message | KeyMsg string

definition conversationKey :: "'i tui \<Rightarrow> string" where
  "conversationKey m = (if tm_current m < length (tm_conversations m) then tm_conversations m ! tm_current m else BroadcastConversation)"

definition selectConversation :: "nat \<Rightarrow> 'i tui \<Rightarrow> 'i tui" where
  "selectConversation i m =
     (let m1 = m\<lparr>tm_current := i\<rparr> in m1\<lparr>tm_unread := (tm_unread m1)(conversationKey m1 := 0)\<rparr>)"

text \<open>The keys of the rebuilt list: a Go map, so each once; then sorted with the broadcast
  conversation pinned first.\<close>

definition conversation_set :: "'s tui_params \<Rightarrow> 's \<Rightarrow> string \<Rightarrow> string list" where
  "conversation_set p st me =
     remdups (BroadcastConversation
       # (case tp_HubFunc p of None \<Rightarrow> []
          | Some src \<Rightarrow> (case src st of None \<Rightarrow> [] | Some h \<Rightarrow> hub_Conversations h))
       @ map ConversationKey (filter (\<lambda>d. d \<noteq> me) (map ve_device (view_Snapshot (tp_Presence p st)))))"

fun index_of :: "string \<Rightarrow> string list \<Rightarrow> nat" where
  "index_of k [] = 0"
| "index_of k (x # xs) = (if x = k then 0 else if k \<in> set xs then Suc (index_of k xs) else 0)"

definition refreshConversations :: "'s tui_params \<Rightarrow> 's \<Rightarrow> 'i tui \<Rightarrow> 'i tui" where
  "refreshConversations p st m =
     (let out = sort_key (\<lambda>k. (k \<noteq> BroadcastConversation, k)) (conversation_set p st (tm_connectedAs m));
          cur = conversationKey m
      in m\<lparr>tm_devices := view_Snapshot (tp_Presence p st), tm_conversations := out, tm_current := index_of cur out\<rparr>)"

definition poll_identity :: "'s tui_params \<Rightarrow> 's \<Rightarrow> 'i tui \<Rightarrow> 'i tui" where
  "poll_identity p st m = (case tp_ConnectedAs p of None \<Rightarrow> m | Some f \<Rightarrow> m\<lparr>tm_connectedAs := f st\<rparr>)"

definition tui_New :: "'i text_field \<Rightarrow> 's tui_params \<Rightarrow> 's \<Rightarrow> 'i tui" where
  "tui_New ti p st =
     (let m = \<lparr>tm_width = 80, tm_height = 24, tm_input = ti_New ti, tm_conversations = [], tm_current = 0,
               tm_devices = [], tm_connState = tp_ConnState p, tm_connectedAs = '''', tm_unread = (\<lambda>_. 0),
               tm_helpOpen = False, tm_sendErr = ''''\<rparr>
      in refreshConversations p st (poll_identity p st m))"

definition tui_send :: "'s tui_params \<Rightarrow> string \<Rightarrow> 'i tui \<Rightarrow> 's \<Rightarrow> string option \<times> 's" where
  "tui_send p body m st =
     (case tp_Send p of None \<Rightarrow> (None, st) | Some f \<Rightarrow> f (tm_conversations m ! tm_current m) body st)"

definition digit_index :: "string \<Rightarrow> nat" where "digit_index key = of_char (hd key) - 49"

definition handleKey :: "'i text_field \<Rightarrow> 's tui_params \<Rightarrow> string \<Rightarrow> 'i tui \<Rightarrow> 's \<Rightarrow> ('i tui \<times> tui_cmd) \<times> 's" where
  "handleKey ti p key m st =
     (case (case lookup key of
              None \<Rightarrow> None
            | Some b \<Rightarrow> if bd_needsFree b \<and> ti_Value ti (tm_input m) \<noteq> '''' then None else Some b) of
        None \<Rightarrow>
          (if \<not> tm_helpOpen m then ((m\<lparr>tm_input := ti_Update ti key (tm_input m), tm_sendErr := ''''\<rparr>, InputCmd), st)
           else ((m, NoCmd), st))
      | Some b \<Rightarrow>
          (if tm_helpOpen m \<and> bd_action b \<notin> {ActHelp, ActCloseHelp, ActQuit} then ((m, NoCmd), st)
           else case bd_action b of
             ActSend \<Rightarrow>
               (let body = TrimSpace (ti_Value ti (tm_input m)) in
                if body = '''' then ((m, NoCmd), st)
                else let m1 = m\<lparr>tm_input := ti_SetValue ti '''' (tm_input m)\<rparr> in
                  (case tui_send p body m1 st of
                     (None, st1) \<Rightarrow> ((m1, NoCmd), st1)
                   | (Some err, st1) \<Rightarrow> ((m1\<lparr>tm_sendErr := err\<rparr>, NoCmd), st1)))
           | ActNextConv \<Rightarrow> ((selectConversation ((tm_current m + 1) mod length (tm_conversations m)) m, NoCmd), st)
           | ActPrevConv \<Rightarrow>
               ((selectConversation ((tm_current m + length (tm_conversations m) - 1) mod length (tm_conversations m)) m, NoCmd), st)
           | ActJumpConv \<Rightarrow>
               (if digit_index key < length (tm_conversations m) then ((selectConversation (digit_index key) m, NoCmd), st)
                else ((m, NoCmd), st))
           | ActHelp \<Rightarrow> ((m\<lparr>tm_helpOpen := \<not> tm_helpOpen m\<rparr>, NoCmd), st)
           | ActCloseHelp \<Rightarrow> ((if tm_helpOpen m then m\<lparr>tm_helpOpen := False\<rparr> else m, NoCmd), st)
           | ActQuit \<Rightarrow> ((m, QuitCmd), st)
           | ActNone \<Rightarrow> ((m, NoCmd), st)))"

definition tui_Update :: "'i text_field \<Rightarrow> 's tui_params \<Rightarrow> tui_msg \<Rightarrow> 'i tui \<Rightarrow> 's \<Rightarrow> ('i tui \<times> tui_cmd) \<times> 's" where
  "tui_Update ti p msg m st =
     (case msg of
        WindowSizeMsg w h \<Rightarrow> ((m\<lparr>tm_width := w, tm_height := h\<rparr>, NoCmd), st)
      | ConnMsg ch \<Rightarrow>
          (let m1 = m\<lparr>tm_connState := cc_To ch\<rparr>
           in ((if cc_To ch = StateOnline then poll_identity p st m1 else m1, WaitConn), st))
      | PresenceMsg d \<Rightarrow> ((refreshConversations p st (poll_identity p st m), WaitPresence), st)
      | InboundMsg message \<Rightarrow>
          (let m1 = refreshConversations p st m;
               conv = ConversationKeyFor (tm_connectedAs m1) message
           in ((if conv \<noteq> conversationKey m1 then m1\<lparr>tm_unread := (tm_unread m1)(conv := tm_unread m1 conv + 1)\<rparr> else m1,
                WaitInbound), st))
      | KeyMsg key \<Rightarrow> handleKey ti p key m st)"

definition conversationTitle :: "string \<Rightarrow> string" where
  "conversationTitle key = (if take 3 key = ''dm:'' then drop 3 key else key)"

end
