(* ===== verification/TuiProps.thy ===== *)
theory TuiProps
  imports Tui
begin

text \<open>
  Properties of the terminal interface's state machine (\<^verbatim>\<open>src/internal/tui/\<close>): the selection
  stays valid under every sequence of events, the overlay is inert, guarded keys
  type, every command is in the help text, and what happens to a refused draft.
\<close>

section \<open>The conversation list\<close>

definition tui_inv :: "'i tui \<Rightarrow> bool" where
  "tui_inv m \<longleftrightarrow> tm_current m < length (tm_conversations m) \<and> hd (tm_conversations m) = BroadcastConversation
     \<and> distinct (tm_conversations m) \<and> sorted (tl (tm_conversations m))"

lemma tui_inv_unread [simp]: "tui_inv (m\<lparr>tm_unread := u\<rparr>) = tui_inv m" by (simp add: tui_inv_def)

lemma index_of_less: "xs \<noteq> [] \<Longrightarrow> index_of k xs < length xs"
  by (induction xs) (auto, metis length_greater_0_conv length_pos_if_in_set)

lemma nth_index_of: "k \<in> set xs \<Longrightarrow> xs ! index_of k xs = k"
  by (induction xs) auto

lemma pinned_sort:
  assumes "distinct ks" "b \<in> set ks"
  shows "sort_key (\<lambda>k :: string. (k \<noteq> b, k)) ks = b # sort (removeAll b ks)"
proof (rule sort_key_inj_key_eq)
  have "set (b # removeAll b ks) = set ks" "distinct (b # removeAll b ks)" using assms by (auto simp: distinct_removeAll)
  then show "mset ks = mset (b # sort (removeAll b ks))"
    using set_eq_iff_mset_eq_distinct [of ks "b # removeAll b ks"] assms(1) by simp
  show "inj_on (\<lambda>k. (k \<noteq> b, k)) (set ks)" by (auto simp: inj_on_def)
  have "sorted_wrt (\<lambda>x y. (x \<noteq> b, x) \<le> (y \<noteq> b, y)) xs" if "sorted xs" "b \<notin> set xs" for xs
    using that by (induction xs) (auto simp: less_eq_prod_def)
  then show "sorted (map (\<lambda>k. (k \<noteq> b, k)) (b # sort (removeAll b ks)))"
    by (auto simp: sorted_map less_eq_prod_def)
qed

lemma refresh_fields:
  "tm_conversations (refreshConversations p st m) =
     BroadcastConversation # sort (removeAll BroadcastConversation (conversation_set p st (tm_connectedAs m)))"
  "tm_current (refreshConversations p st m) = index_of (conversationKey m) (tm_conversations (refreshConversations p st m))"
  "tm_connectedAs (refreshConversations p st m) = tm_connectedAs m"
proof -
  have "sort_key (\<lambda>k. (k \<noteq> BroadcastConversation, k)) (conversation_set p st me) =
      BroadcastConversation # sort (removeAll BroadcastConversation (conversation_set p st me))" for me
    by (rule pinned_sort) (simp_all add: conversation_set_def)
  then show "tm_conversations (refreshConversations p st m) =
     BroadcastConversation # sort (removeAll BroadcastConversation (conversation_set p st (tm_connectedAs m)))"
    "tm_current (refreshConversations p st m) = index_of (conversationKey m) (tm_conversations (refreshConversations p st m))"
    "tm_connectedAs (refreshConversations p st m) = tm_connectedAs m"
    by (simp_all add: refreshConversations_def Let_def)
qed

lemma refresh_inv: "tui_inv (refreshConversations p st m)"
  unfolding tui_inv_def refresh_fields(2) unfolding refresh_fields(1)
  using index_of_less [of "BroadcastConversation # sort (removeAll BroadcastConversation (conversation_set p st (tm_connectedAs m)))"]
  by (simp add: distinct_removeAll conversation_set_def)

lemma refresh_key:
  assumes "conversationKey m \<in> set (conversation_set p st (tm_connectedAs m))"
  shows "conversationKey (refreshConversations p st m) = conversationKey m"
proof -
  let ?r = "refreshConversations p st m"
  have "conversationKey m \<in> set (tm_conversations ?r)" using assms by (auto simp: refresh_fields(1))
  then have "tm_conversations ?r ! tm_current ?r = conversationKey m" by (simp add: refresh_fields(2) nth_index_of)
  then show ?thesis using refresh_inv [of p st m] by (simp add: conversationKey_def tui_inv_def)
qed

lemma select_inv: "tui_inv m \<Longrightarrow> i < length (tm_conversations m) \<Longrightarrow> tui_inv (selectConversation i m)"
  by (simp add: tui_inv_def selectConversation_def Let_def)

section \<open>Properties\<close>

lemma handleKey_inv: "tui_inv m \<Longrightarrow> tui_inv (fst (fst (handleKey ti p key m st)))"
proof -
  assume inv: "tui_inv m"
  then have "0 < length (tm_conversations m)" by (auto simp: tui_inv_def)
  then have sel: "tui_inv (selectConversation (n mod length (tm_conversations m)) m)" for n
    using inv by (intro select_inv) simp_all
  have "tui_inv (selectConversation n m)" if "n < length (tm_conversations m)" for n using inv that by (rule select_inv)
  then show ?thesis using inv sel
    by (auto simp: handleKey_def Let_def tui_inv_def split: option.splits action.splits prod.splits)
qed

lemma Update_inv: "tui_inv m \<Longrightarrow> tui_inv (fst (fst (tui_Update ti p msg m st)))"
proof (cases msg)
  case (InboundMsg message)
  then show ?thesis by (simp add: tui_Update_def Let_def refresh_inv)
qed (auto simp: tui_Update_def Let_def handleKey_inv refresh_inv poll_identity_def split: option.split, auto simp: tui_inv_def)

text \<open>Every state of the interface: any messages, in any order, the client behind the seams
  changing arbitrarily in between.\<close>

inductive tui_reach :: "'i text_field \<Rightarrow> 's tui_params \<Rightarrow> 'i tui \<Rightarrow> bool" for ti p where
  start: "tui_reach ti p (tui_New ti p st)"
| update: "tui_reach ti p m \<Longrightarrow> tui_reach ti p (fst (fst (tui_Update ti p msg m st)))"

text \<open>
  C37. The selection is always valid: in every state the interface can reach, the
  conversation list starts with the broadcast conversation, lists each
  conversation once with the direct ones in order, and the selected index lies in
  it; so no index or remainder in the code is ever out of range or by zero, and
  what is sent goes to the conversation whose title is shown.
\<close>

theorem selection_is_always_valid:
  assumes "tui_reach ti p m"
  shows "tm_current m < length (tm_conversations m) \<and> hd (tm_conversations m) = BroadcastConversation
       \<and> distinct (tm_conversations m) \<and> sorted (tl (tm_conversations m))
       \<and> tm_conversations m ! tm_current m = conversationKey m"
proof -
  from assms have "tui_inv m"
    by (induction rule: tui_reach.induct) (auto simp: tui_New_def Let_def refresh_inv Update_inv)
  then show ?thesis by (auto simp: tui_inv_def conversationKey_def)
qed

text \<open>
  An arrival never moves the pane: a presence change or an incoming message
  leaves the selected conversation selected as long as it is still listed (the
  broadcast conversation always is), a message of another conversation adds exactly
  one to that conversation's unread count, and one of the selected conversation
  changes no count.
\<close>

theorem arrivals_do_not_move_the_pane:
  assumes "conversationKey m \<in> set (conversation_set p st (tm_connectedAs m))"
    and "tui_Update ti p (InboundMsg msg) m st = ((m', cmd), st')"
  shows "conversationKey m' = conversationKey m \<and> st' = st \<and> tm_input m' = tm_input m
       \<and> (let conv = ConversationKeyFor (tm_connectedAs m) msg in
            tm_unread m' = (if conv = conversationKey m then tm_unread m
                            else (tm_unread m)(conv := tm_unread m conv + 1)))"
proof -
  have "tm_unread (refreshConversations p st m) = tm_unread m" "tm_input (refreshConversations p st m) = tm_input m"
    by (simp_all add: refreshConversations_def Let_def)
  moreover have "conversationKey (m1\<lparr>tm_unread := u\<rparr>) = conversationKey m1" for m1 :: "'a tui" and u
    by (simp add: conversationKey_def)
  moreover note refresh_key [OF assms(1)] refresh_fields(3) [of p st m]
  ultimately show ?thesis using assms(2) by (auto simp: tui_Update_def Let_def conversationKey_def split: if_splits)
qed

text \<open>
  Keys do what the help says: with the overlay open every key but the ones
  that close it or quit leaves the whole model and the client untouched; with text
  composed every guarded key (the digits and the question mark) goes to the text
  field and changes neither the selection, an unread count nor the overlay; and
  every key that dispatches belongs to a row that the help text shows.
\<close>

theorem keys_do_what_the_help_says:
  assumes "handleKey ti p key m st = ((m', cmd), st')"
  shows "(tm_helpOpen m \<and> key \<notin> {''?'', ''esc'', ''ctrl+c''} \<longrightarrow> m' = m \<and> st' = st)
       \<and> (\<not> tm_helpOpen m \<and> ti_Value ti (tm_input m) \<noteq> '''' \<and> key \<in> {''1'', ''2'', ''3'', ''4'', ''5'', ''6'', ''7'', ''8'', ''9'', ''?''}
            \<longrightarrow> m' = m\<lparr>tm_input := ti_Update ti key (tm_input m), tm_sendErr := ''''\<rparr> \<and> st' = st)
       \<and> (\<forall>b. lookup key = Some b \<longrightarrow> b \<in> set keymap
            \<and> (\<exists>before after. helpText = before @ ''  '' @ bd_label b @ ''  '' @ bd_desc b @ newline @ after))"
proof (intro conjI)
  have l: "lookup key = Some b \<Longrightarrow> b \<in> set keymap \<and> key \<in> set (bd_keys b)" for b
    by (auto simp: lookup_def find_Some_iff)
  have k: "b \<in> set keymap \<Longrightarrow> key \<in> set (bd_keys b) \<Longrightarrow> key \<notin> {''?'', ''esc'', ''ctrl+c''} \<Longrightarrow>
      bd_action b \<notin> {ActHelp, ActCloseHelp, ActQuit}" for b
    by (auto simp: keymap_def)
  show "tm_helpOpen m \<and> key \<notin> {''?'', ''esc'', ''ctrl+c''} \<longrightarrow> m' = m \<and> st' = st"
  proof
    assume h: "tm_helpOpen m \<and> key \<notin> {''?'', ''esc'', ''ctrl+c''}"
    show "m' = m \<and> st' = st"
    proof (cases "lookup key")
      case (Some b)
      then have "bd_action b \<notin> {ActHelp, ActCloseHelp, ActQuit}" using h k l by blast
      then show ?thesis using assms h Some by (auto simp: handleKey_def split: if_splits)
    qed (use assms h in \<open>simp add: handleKey_def\<close>)
  qed
  show "\<not> tm_helpOpen m \<and> ti_Value ti (tm_input m) \<noteq> '''' \<and> key \<in> {''1'', ''2'', ''3'', ''4'', ''5'', ''6'', ''7'', ''8'', ''9'', ''?''}
      \<longrightarrow> m' = m\<lparr>tm_input := ti_Update ti key (tm_input m), tm_sendErr := ''''\<rparr> \<and> st' = st"
    using assms by (auto simp: handleKey_def lookup_def keymap_def)
  show "\<forall>b. lookup key = Some b \<longrightarrow> b \<in> set keymap
      \<and> (\<exists>before after. helpText = before @ ''  '' @ bd_label b @ ''  '' @ bd_desc b @ newline @ after)"
  proof (intro allI impI conjI)
    fix b
    assume "lookup key = Some b"
    then show b: "b \<in> set keymap" using l by blast
    then obtain xs ys where s: "keymap = xs @ b # ys" by (meson split_list)
    show "\<exists>before after. helpText = before @ ''  '' @ bd_label b @ ''  '' @ bd_desc b @ newline @ after"
    proof (intro exI)
      let ?row = "\<lambda>b. ''  '' @ bd_label b @ ''  '' @ bd_desc b @ newline"
      show "helpText = (''Commands (also always visible in the hint line):'' @ newline @ concat (map ?row xs))
          @ ''  '' @ bd_label b @ ''  '' @ bd_desc b @ newline @ (concat (map ?row ys) @ newline @ freeInputRule)"
        unfolding helpText_def s by (simp only: map_append concat_append list.map concat.simps append_assoc)
    qed
  qed
qed

text \<open>
  A refused draft is gone: when the send behind the interface answers with an
  error, the error is shown and the text field is already empty, so the user cannot
  send the text again although the error may ask for it.
\<close>

theorem refused_draft_is_discarded:
  assumes "tp_Send p = Some send" "send (tm_conversations m ! tm_current m) (TrimSpace (ti_Value ti (tm_input m))) st = (Some err, st1)"
    and "TrimSpace (ti_Value ti (tm_input m)) \<noteq> ''''" "\<not> tm_helpOpen m"
  shows "handleKey ti p ''enter'' m st = ((m\<lparr>tm_input := ti_SetValue ti '''' (tm_input m), tm_sendErr := err\<rparr>, NoCmd), st1)"
  using assms by (simp add: handleKey_def lookup_def keymap_def Let_def tui_send_def)

end
