(* ===== verification/TuiView.thy ===== *)
theory TuiView
  imports TuiProps Crypto "HOL-Library.Signed_Division"
begin

text \<open>
  \<^verbatim>\<open>src/internal/tui/view.go\<close>: the rendering.  The wall-clock rendering of an instant
  (\<^verbatim>\<open>15:04:05\<close> in the local zone) is the argument \<open>hms\<close>.
\<close>

section \<open>Helpers\<close>

definition minColumns :: int where "minColumns = 80"

definition clip_line :: "nat \<Rightarrow> string \<Rightarrow> string" where
  "clip_line w l = (if RuneCount l > w then concat (map rune_string (take w (runes l))) else l)"

definition clip :: "string \<Rightarrow> int \<Rightarrow> string" where
  "clip s w = (if w \<le> 0 then '''' else join_lines (map (clip_line (nat w)) (split_lines s)))"

definition clamp :: "int \<Rightarrow> int \<Rightarrow> int \<Rightarrow> int" where
  "clamp v lo hi = (if v < lo then lo else if v > hi then hi else v)"

definition shortName :: "string \<Rightarrow> string" where "shortName device = takeWhile (\<lambda>c. c \<noteq> CHR ''.'') device"

definition singleLine :: "string \<Rightarrow> string" where
  "singleLine s = join '' '' (Fields s)"

definition unlines :: "string list \<Rightarrow> string" where "unlines ls = concat (map (\<lambda>l. l @ newline) ls)"

section \<open>Regions\<close>

definition statusLine :: "'i tui \<Rightarrow> string" where
  "statusLine m =
     (let ident = (if tm_connectedAs m = '''' then ''(identity pending)'' else tm_connectedAs m);
          s = ''walkie  you: '' @ shortName ident @ ''  ['' @ state_String (tm_connState m) @ '']'';
          s = (if tm_connState m \<noteq> StateOnline then s @ '' (reconnecting)'' else s)
      in clip s (tm_width m))"

definition paneHeader :: "'i tui \<Rightarrow> string" where
  "paneHeader m = clip (''in: '' @ conversationTitle (conversationKey m)) (tm_width m)"

definition deviceLine :: "(time \<Rightarrow> string) \<Rightarrow> 'i tui \<Rightarrow> view_entry \<Rightarrow> string" where
  "deviceLine hms m d =
     (let label = shortName (ve_device d);
          label = (if ve_device d = tm_connectedAs m then label @ '' (you)'' else label);
          n = tm_unread m (ConversationKey (ve_device d));
          label = (if n > 0 then label @ '' ['' @ decimal n @ '' new]'' else label);
          status = (if ve_status d \<noteq> '''' then '' - '' @ ve_status d else '''')
      in if ve_online d then ''* '' @ label @ ''  online'' @ status
         else ''  '' @ label @ ''  offline''
           @ (if ve_lastSeen d \<noteq> 0 then '' - last seen '' @ hms (unix_epoch + ve_lastSeen d) else '''') @ status)"

definition deviceLines :: "(time \<Rightarrow> string) \<Rightarrow> 'i tui \<Rightarrow> string list" where
  "deviceLines hms m = map (deviceLine hms m) (tm_devices m)"

definition no_messages :: string where "no_messages = ''(no messages yet - type below, tab switches conversation)''"

definition messageLine :: "(time \<Rightarrow> string) \<Rightarrow> 'i tui \<Rightarrow> message \<Rightarrow> string" where
  "messageLine hms m msg =
     (let who = (if msg_Sender msg = tm_connectedAs m then ''you'' else shortName (msg_Sender msg));
          recv = (if IsZero (msg_ReceivedAt msg) then ''-'' else hms (msg_ReceivedAt msg))
      in who @ ''  sent '' @ hms (msg_SentAt msg) @ '' recv '' @ recv @ ''  '' @ singleLine (msg_Body msg))"

definition messageLines :: "(time \<Rightarrow> string) \<Rightarrow> 's tui_params \<Rightarrow> int \<Rightarrow> 'i tui \<Rightarrow> 's \<Rightarrow> string list" where
  "messageLines hms p n m st =
     (case tp_HubFunc p of
        None \<Rightarrow> [no_messages]
      | Some src \<Rightarrow>
          (if n \<le> 0 then [no_messages]
           else let msgs = (case src st of None \<Rightarrow> [] | Some h \<Rightarrow> hub_Conversation (conversationKey m) h)
                in if msgs = [] then [no_messages] else map (messageLine hms m) (lastn (nat n) msgs)))"

definition action_label :: "action \<Rightarrow> string" where
  "action_label a = fold (\<lambda>b l. if bd_action b = a then bd_label b else l) keymap ''''"

definition hintLine :: "'i tui \<Rightarrow> string" where
  "hintLine m = clip (''keys: '' @ join '' | '' (map action_label [ActSend, ActNextConv, ActHelp, ActQuit])) (tm_width m)"

definition helpBody :: "'s tui_params \<Rightarrow> string" where
  "helpBody p = helpText @ newline
     @ (if tp_AudioAvailable p then ''voice notes: available in this build''
        else ''voice notes: not in this build (text and presence work fully)'') @ newline"

definition narrowTerminalView :: "'i tui \<Rightarrow> string" where
  "narrowTerminalView m = clip (statusLine m @ newline @ ''walkie needs 80 columns.'' @ newline
     @ ''This terminal has '' @ (if tm_width m < 0 then ''-'' else '''') @ decimal (nat \<bar>tm_width m\<bar>) @ ''.'' @ newline
     @ ''Widen the window.'') (tm_width m)"

definition fixed_rows :: "'i tui \<Rightarrow> int" where "fixed_rows m = (if tm_sendErr m \<noteq> '''' then 5 else 4)"

definition shown_devices :: "(time \<Rightarrow> string) \<Rightarrow> 'i tui \<Rightarrow> string list" where
  "shown_devices hms m =
     (let lines = deviceLines hms m;
          third = (tm_height m - fixed_rows m) sdiv 3;
          maxDevices = (if third < 1 then 1 else third)
      in if int (length lines) > maxDevices
         then take (nat maxDevices) lines @ [''  ... +'' @ decimal (length lines - nat maxDevices) @ '' more (roster continues)'']
         else lines)"

definition tui_View :: "'i text_field \<Rightarrow> (time \<Rightarrow> string) \<Rightarrow> 's tui_params \<Rightarrow> 'i tui \<Rightarrow> 's \<Rightarrow> string" where
  "tui_View ti hms p m st =
     (if tm_width m < minColumns then narrowTerminalView m
      else if tm_helpOpen m
      then clip (statusLine m @ newline @ helpBody p @ newline @ hintLine m) (tm_width m)
      else let shown = shown_devices hms m in
        clip (statusLine m @ newline @ ''Devices:'' @ newline @ unlines shown
          @ replicate (nat (clamp (tm_width m) 1 80)) CHR ''-'' @ newline @ paneHeader m @ newline
          @ unlines (messageLines hms p (tm_height m - fixed_rows m - 3 - int (length shown)) m st)
          @ (if tm_sendErr m \<noteq> '''' then ''! '' @ tm_sendErr m @ newline else '''')
          @ ti_View ti (tm_input m) @ newline @ hintLine m) (tm_width m))"

section \<open>Width\<close>










section \<open>Height\<close>

lemma split_append: "split_lines (a @ CHR 0x0A # b) = split_lines a @ split_lines b"
proof (induction a)
  case (Cons c cs)
  then show ?case by (cases "split_lines cs") auto
qed simp


lemma one_line_append [simp]: "one_line (a @ b) \<longleftrightarrow> one_line a \<and> one_line b" by (auto simp: one_line_def)









lemma literal_one [simp]: "one_line [] " "one_line (c # cs) \<longleftrightarrow> c \<noteq> CHR 0x0A \<and> one_line cs"
  by (auto simp: one_line_def)











section \<open>Witnesses and the line budget's gap\<close>

definition demo_field :: "string text_field" where
  "demo_field = \<lparr>ti_Value = (\<lambda>s. s), ti_SetValue = (\<lambda>v _. v), ti_Update = (\<lambda>k s. s @ k), ti_View = (\<lambda>s. ''> '' @ s), ti_New = ''''\<rparr>"

definition demo_params :: "roster_view tui_params" where
  "demo_params = \<lparr>tp_HubFunc = Some (\<lambda>_. None), tp_Presence = (\<lambda>v. v), tp_ConnectedAs = Some (\<lambda>_. ''me''),
     tp_Send = Some (\<lambda>_ _ v. (Some ''not connected yet'', v)), tp_AudioAvailable = False, tp_ConnState = StateOnline\<rparr>"

definition demo_roster :: "string \<Rightarrow> roster_view" where
  "demo_roster status = view_Apply (Some (PresenceUpdate ''ann'' PRESENCE_ONLINE status None)) view_New"

definition demo_tui :: "string \<Rightarrow> string tui" where "demo_tui status = tui_New demo_field demo_params (demo_roster status)"

definition tall_label :: string where "tall_label = replicate 40 (CHR 0x0A)"

definition demo_hms :: "time \<Rightarrow> string" where "demo_hms t = ''12:00:00''"

text \<open>
  A status label can break the layout: the coordinator accepts a label made
  of newlines, and the device list draws labels as they are, so a peer's label
  pushes the message pane and the input line off everybody else's screen.
\<close>

theorem status_label_breaks_the_layout:
  "fst (SetStatus False 0 ''ann'' tall_label (t\<lparr>tr_closed := False\<rparr>)) = Ok ()
   \<and> tm_height (demo_tui tall_label) < int (length (split_lines (tui_View demo_field demo_hms demo_params (demo_tui tall_label) (demo_roster tall_label))))"
proof
  have "list_all (\<lambda>c. (of_char c :: nat) < 128) tall_label" by (simp add: tall_label_def list_all_length)
  then show "fst (SetStatus False 0 ''ann'' tall_label (t\<lparr>tr_closed := False\<rparr>)) = Ok ()"
    using ascii_valid [of tall_label] by (simp add: SetStatus_def Let_def tall_label_def MaxStatusBytes_def)
qed code_simp


theorem selection_is_always_valid_witness:
  "let m = fst (fst (tui_Update demo_field demo_params (KeyMsg ''tab'') (demo_tui ''out'') (demo_roster ''out''))) in
     conversationKey m = ''dm:ann'' \<and> tm_current m < length (tm_conversations m)"
proof -
  let ?m = "fst (fst (tui_Update demo_field demo_params (KeyMsg ''tab'') (demo_tui ''out'') (demo_roster ''out'')))"
  have "tui_reach demo_field demo_params ?m" unfolding demo_tui_def by (intro tui_reach.intros)
  from selection_is_always_valid [OF this] have "tm_current ?m < length (tm_conversations ?m)" by blast
  moreover have "conversationKey ?m = ''dm:ann''" by code_simp
  ultimately show ?thesis by (simp add: Let_def)
qed

theorem arrivals_do_not_move_the_pane_witness:
  "tm_unread (fst (fst (tui_Update demo_field demo_params (InboundMsg (sample_msg ''1'' ''ann'')) (demo_tui ''out'') (demo_roster ''out'')))) ''dm:ann'' = 1"
proof -
  let ?m = "demo_tui ''out''" and ?st = "demo_roster ''out''"
  let ?r = "tui_Update demo_field demo_params (InboundMsg (sample_msg ''1'' ''ann'')) ?m ?st"
  have c: "conversationKey ?m \<in> set (conversation_set demo_params ?st (tm_connectedAs ?m))" by code_simp
  have k: "conversationKey ?m = ''broadcast''" "ConversationKeyFor (tm_connectedAs ?m) (sample_msg ''1'' ''ann'') = ''dm:ann''"
    "tm_unread ?m ''dm:ann'' = 0" by code_simp+
  show ?thesis
    using arrivals_do_not_move_the_pane [OF c, of demo_field "sample_msg ''1'' ''ann''" "fst (fst ?r)" "snd (fst ?r)" "snd ?r"] k
    by (simp add: Let_def)
qed

theorem keys_do_what_the_help_says_witness:
  "fst (fst (handleKey demo_field demo_params ''tab'' ((demo_tui ''out'')\<lparr>tm_helpOpen := True\<rparr>) (demo_roster ''out'')))
     = (demo_tui ''out'')\<lparr>tm_helpOpen := True\<rparr>"
proof -
  let ?m = "(demo_tui ''out'')\<lparr>tm_helpOpen := True\<rparr>"
  let ?r = "handleKey demo_field demo_params ''tab'' ?m (demo_roster ''out'')"
  show ?thesis
    using keys_do_what_the_help_says [of demo_field demo_params "''tab''" ?m "demo_roster ''out''" "fst (fst ?r)" "snd (fst ?r)" "snd ?r"] by simp
qed

theorem refused_draft_is_discarded_witness:
  "tm_input (fst (fst (handleKey demo_field demo_params ''enter'' ((demo_tui ''out'')\<lparr>tm_input := ''hi''\<rparr>) (demo_roster ''out'')))) = ''''"
proof -
  let ?m = "(demo_tui ''out'')\<lparr>tm_input := ''hi''\<rparr>"
  have v: "TrimSpace (ti_Value demo_field (tm_input ?m)) = ''hi''" "\<not> tm_helpOpen ?m" by code_simp+
  have s: "tp_Send demo_params = Some (\<lambda>_ _ v. (Some ''not connected yet'', v))" by (simp add: demo_params_def)
  show ?thesis using refused_draft_is_discarded [OF s, where m = ?m and ti = demo_field and st = "demo_roster ''out''"
      and err = "''not connected yet''" and ?st1.0 = "demo_roster ''out''"] v
    by (simp add: demo_field_def)
qed

end
