(* ===== verification/StoredTime.thy ===== *)
theory StoredTime
  imports Codec
begin

text \<open>
  The timestamps of the tables: \<^verbatim>\<open>formatStoredTime\<close> and \<^verbatim>\<open>parseStoredTime\<close> of
  \<^verbatim>\<open>src/internal/history/history.go\<close> and \<^verbatim>\<open>src/internal/coordinator/queue/queue.go\<close> (fixed nine-digit
  fraction) and of \<^verbatim>\<open>src/internal/coordinator/presence/tracker.go\<close> and \<^verbatim>\<open>src/internal/outbox/outbox.go\<close>
  (trimmed fraction), over a model of what they use of Go's \<^verbatim>\<open>time\<close> package: the proleptic
  Gregorian calendar, the two layouts, and the parser with everything it
  accepts.  SQL compares the texts byte by byte, which is the order of strings.
\<close>

section \<open>The calendar\<close>

definition leap :: "int \<Rightarrow> bool" where
  "leap y \<longleftrightarrow> y mod 4 = 0 \<and> (y mod 100 \<noteq> 0 \<or> y mod 400 = 0)"

definition months :: "int \<Rightarrow> int list" where
  "months y = [31, if leap y then 29 else 28, 31, 30, 31, 30, 31, 31, 30, 31, 30, 31]"

definition days_before :: "int \<Rightarrow> int" where
  "days_before y = 365 * (y - 1) + (y - 1) div 4 - (y - 1) div 100 + (y - 1) div 400"

text \<open>The year of a day, with the days of that year before it: cycles of 400, 100, 4 and 1 years.\<close>

definition year_split :: "int \<Rightarrow> int \<times> int" where
  "year_split n =
     (let a = n div 146097; r = n mod 146097; b = min 3 (r div 36524); r = r - b * 36524;
          c = r div 1461; r = r mod 1461; e = min 3 (r div 365)
      in (400 * a + 100 * b + 4 * c + e + 1, r - e * 365))"

fun month_split :: "int list \<Rightarrow> int \<Rightarrow> int \<times> int" where
  "month_split [] r = (1, r + 1)"
| "month_split (l # ls) r = (if r < l then (1, r + 1) else case month_split ls (r - l) of (m, d) \<Rightarrow> (m + 1, d))"

text \<open>Year, month, day, hour, minute, second, nanosecond of an instant, and back.\<close>

definition day_ns :: int where "day_ns = 86400 * second"

definition civil :: "time \<Rightarrow> int list" where
  "civil t =
     (case year_split (t div day_ns) of (y, yd) \<Rightarrow> case month_split (months y) yd of (m, d) \<Rightarrow>
        let r = t mod day_ns; s = r div second
        in [y, m, d, s div 3600, s div 60 mod 60, s mod 60, r mod second])"

definition day_number :: "int \<Rightarrow> int \<Rightarrow> int \<Rightarrow> int" where
  "day_number y m d = days_before y + sum_list (take (nat (m - 1)) (months y)) + d - 1"

definition instant :: "int \<Rightarrow> int \<Rightarrow> int \<Rightarrow> int \<Rightarrow> int \<Rightarrow> int \<Rightarrow> int \<Rightarrow> time" where
  "instant y m d h mi s ns = ((day_number y m d * 24 + h) * 60 + mi) * 60 * second + s * second + ns"

section \<open>Format\<close>

text \<open>\<^verbatim>\<open>appendInt\<close>: the digits, padded with zeros on the left, after the sign.\<close>

definition appendInt :: "int \<Rightarrow> nat \<Rightarrow> string" where
  "appendInt x w =
     (let s = decimal (nat \<bar>x\<bar>) in (if x < 0 then ''-'' else '''') @ replicate (w - length s) (CHR ''0'') @ s)"

definition stamp_head :: "int list \<Rightarrow> string" where
  "stamp_head fs =
     appendInt (fs ! 0) 4 @ ''-'' @ appendInt (fs ! 1) 2 @ ''-'' @ appendInt (fs ! 2) 2 @ ''T''
     @ appendInt (fs ! 3) 2 @ '':'' @ appendInt (fs ! 4) 2 @ '':'' @ appendInt (fs ! 5) 2"

definition formatStoredTime :: "time \<Rightarrow> string" where
  "formatStoredTime t = stamp_head (civil t) @ ''.'' @ appendInt (civil t ! 6) 9 @ ''Z''"

definition trim_zeros :: "string \<Rightarrow> string" where
  "trim_zeros s = rev (dropWhile (\<lambda>c. c = CHR ''0'') (rev s))"

definition formatNano :: "time \<Rightarrow> string" where
  "formatNano t =
     (let ns = civil t ! 6
      in stamp_head (civil t) @ (if ns = 0 then '''' else ''.'' @ trim_zeros (appendInt ns 9)) @ ''Z'')"

section \<open>Parse\<close>

definition stamp_digit :: "char \<Rightarrow> int" where "stamp_digit c = int (of_char c) - 48"

definition digit_at :: "string \<Rightarrow> bool" where
  "digit_at s = (case s of c # _ \<Rightarrow> CHR ''0'' \<le> c \<and> c \<le> CHR ''9'' | [] \<Rightarrow> False)"

definition stamp_number :: "string \<Rightarrow> int" where
  "stamp_number s = foldl (\<lambda>n c. 10 * n + stamp_digit c) 0 s"

definition all_digits :: "string \<Rightarrow> bool" where
  "all_digits s = list_all (\<lambda>c. CHR ''0'' \<le> c \<and> c \<le> CHR ''9'') s"

text \<open>\<^verbatim>\<open>atoi\<close> with its sign; \<^verbatim>\<open>getnum\<close>, which takes one digit where the layout does not fix two.\<close>

definition stamp_atoi :: "string \<Rightarrow> int option" where
  "stamp_atoi s =
     (let signed = s \<noteq> [] \<and> hd s \<in> {CHR ''-'', CHR ''+''}; neg = signed \<and> hd s = CHR ''-''; ds = (if signed then tl s else s)
      in if all_digits ds then Some (if neg then - stamp_number ds else stamp_number ds) else None)"

definition getnum :: "bool \<Rightarrow> string \<Rightarrow> (int \<times> string) option" where
  "getnum fixed s =
     (if \<not> digit_at s then None
      else if \<not> digit_at (tl s) then (if fixed then None else Some (stamp_digit (hd s), tl s))
      else Some (10 * stamp_digit (hd s) + stamp_digit (hd (tl s)), tl (tl s)))"

definition skip_char :: "char \<Rightarrow> string \<Rightarrow> string option" where
  "skip_char c s = (case s of x # xs \<Rightarrow> if x = c then Some xs else None | [] \<Rightarrow> None)"

definition in_range :: "int \<Rightarrow> int \<Rightarrow> (int \<times> string) option \<Rightarrow> (int \<times> string) option" where
  "in_range lo hi r = (case r of Some (v, s) \<Rightarrow> if lo \<le> v \<and> v \<le> hi then Some (v, s) else None | None \<Rightarrow> None)"

definition get_year :: "string \<Rightarrow> (int \<times> string) option" where
  "get_year s =
     (if length s < 4 \<or> \<not> digit_at s then None
      else map_option (\<lambda>y. (y, drop 4 s)) (stamp_atoi (take 4 s)))"

text \<open>The fraction: a period or a comma, then exactly nine digits in one layout, and any number of them, of which
  the first nine count, or no fraction at all in the other.\<close>

definition frac_value :: "string \<Rightarrow> int option" where
  "frac_value ds =
     (case stamp_atoi (take 9 ds) of
        Some ns \<Rightarrow> if ns < 0 then None else Some (ns * 10 ^ (9 - length (take 9 ds)))
      | None \<Rightarrow> None)"

definition frac_fixed :: "string \<Rightarrow> (int \<times> string) option" where
  "frac_fixed s =
     (if length s < 10 \<or> hd s \<notin> {CHR ''.'', CHR '',''} then None
      else map_option (\<lambda>ns. (ns, drop 10 s)) (frac_value (take 9 (tl s))))"

definition frac_nano :: "string \<Rightarrow> (int \<times> string) option" where
  "frac_nano s =
     (if length s < 2 \<or> hd s \<notin> {CHR ''.'', CHR '',''} \<or> \<not> digit_at (tl s) then Some (0, s)
      else let ds = takeWhile (\<lambda>c. digit_at [c]) (tl s)
           in map_option (\<lambda>ns. (ns, drop (length ds) (tl s))) (frac_value ds))"

definition zone_offset :: "string \<Rightarrow> (int \<times> string) option" where
  "zone_offset s =
     (if s \<noteq> [] \<and> hd s = CHR ''Z'' then Some (0, tl s)
      else if length s < 6 \<or> s ! 3 \<noteq> CHR '':'' then None
      else case (getnum True (take 2 (drop 1 s)), getnum True (take 2 (drop 4 s))) of
        (Some (hr, _), Some (mm, _)) \<Rightarrow>
          (if hr > 24 \<or> mm > 60 \<or> hd s \<notin> {CHR ''+'', CHR ''-''} then None
           else Some ((if hd s = CHR ''-'' then -1 else 1) * (hr * 60 + mm) * 60, drop 6 s))
      | _ \<Rightarrow> None)"

definition parse_clock :: "(string \<Rightarrow> (int \<times> string) option) \<Rightarrow> int \<Rightarrow> int \<Rightarrow> int \<Rightarrow> string \<Rightarrow> time option" where
  "parse_clock frac y m d s =
     Option.bind (in_range 0 23 (getnum False s)) (\<lambda>(h, s).
     Option.bind (skip_char (CHR '':'') s) (\<lambda>s.
     Option.bind (in_range 0 59 (getnum True s)) (\<lambda>(mi, s).
     Option.bind (skip_char (CHR '':'') s) (\<lambda>s.
     Option.bind (in_range 0 59 (getnum True s)) (\<lambda>(sec, s).
     Option.bind (frac s) (\<lambda>(ns, s).
     Option.bind (zone_offset s) (\<lambda>(off, s).
       if s = [] \<and> 1 \<le> d \<and> d \<le> months y ! nat (m - 1)
       then Some (instant y m d h mi sec ns - off * second) else None)))))))"

definition parse_stamp :: "(string \<Rightarrow> (int \<times> string) option) \<Rightarrow> string \<Rightarrow> time option" where
  "parse_stamp frac s =
     Option.bind (get_year s) (\<lambda>(y, s).
     Option.bind (skip_char (CHR ''-'') s) (\<lambda>s.
     Option.bind (in_range 1 12 (getnum True s)) (\<lambda>(m, s).
     Option.bind (skip_char (CHR ''-'') s) (\<lambda>s.
     Option.bind (getnum True s) (\<lambda>(d, s).
     Option.bind (skip_char (CHR ''T'') s) (\<lambda>s. parse_clock frac y m d s))))))"

definition parseStoredTime :: "string \<Rightarrow> (string, time) result" where
  "parseStoredTime s = (case parse_stamp frac_fixed s of Some t \<Rightarrow> Ok t | None \<Rightarrow> Err (''parse stored time '' @ s))"

definition parseNano :: "string \<Rightarrow> (string, time) result" where
  "parseNano s = (case parse_stamp frac_nano s of Some t \<Rightarrow> Ok t | None \<Rightarrow> Err (''parse stored time '' @ s))"

section \<open>The calendar is a bijection\<close>

lemma year_split_props:
  assumes "year_split n = (y, yd)"
  shows "n = days_before y + yd" "0 \<le> yd" "yd < (if leap y then 366 else 365)"
proof -
  define a where "a = n div 146097"
  define r where "r = n mod 146097"
  define b where "b = min 3 (r div 36524)"
  define r1 where "r1 = r - b * 36524"
  define c where "c = r1 div 1461"
  define r2 where "r2 = r1 mod 1461"
  define e where "e = min 3 (r2 div 365)"
  have y: "y = 400 * a + 100 * b + 4 * c + e + 1" and yd: "yd = r2 - e * 365"
    using assms by (simp_all add: year_split_def Let_def a_def r_def b_def r1_def c_def r2_def e_def)
  have n: "n = 146097 * a + r" "0 \<le> r" "r < 146097" by (simp_all add: a_def r_def)
  have b: "0 \<le> b" "b \<le> 3" "0 \<le> r1" "b < 3 \<Longrightarrow> r1 < 36524" "r1 < 36525"
    using n unfolding b_def r1_def by linarith+
  have c: "r1 = 1461 * c + r2" "0 \<le> r2" "r2 < 1461" "0 \<le> c" "c \<le> 24" using b by (simp_all add: c_def r2_def)
  have e: "0 \<le> e" "e \<le> 3" "0 \<le> yd" "e < 3 \<Longrightarrow> yd < 365" "yd < 366"
    using c unfolding e_def yd by linarith+
  have d4: "(y - 1) div 4 = 100 * a + 25 * b + c" 
    by (rule int_div_pos_eq [where r = e]) (use e in \<open>simp_all add: y\<close>)
  have d100: "(y - 1) div 100 = 4 * a + b"
    by (rule int_div_pos_eq [where r = "4 * c + e"]) (use c e in \<open>simp_all add: y\<close>)
  have d400: "(y - 1) div 400 = a"
    by (rule int_div_pos_eq [where r = "100 * b + 4 * c + e"]) (use b c e in \<open>simp_all add: y\<close>)
  show "n = days_before y + yd" unfolding days_before_def d4 d100 d400 using n c yd y r1_def by simp
  show "0 \<le> yd" using e by simp
  show "yd < (if leap y then 366 else 365)"
  proof (cases "yd = 365")
    case True
    then have e3: "e = 3" using e by linarith
    then have r2: "r2 = 1460" using True yd by simp
    have y4: "y mod 4 = 0" using e3 unfolding y by presburger
    have "c < 24 \<or> b = 3" using r2 c(1) b by linarith
    moreover have "y mod 100 = 4 * c + 4" if "c < 24"
      by (rule int_mod_pos_eq [where q = "4 * a + b"]) (use that e3 c in \<open>simp_all add: y\<close>)
    then have "c < 24 \<Longrightarrow> y mod 100 \<noteq> 0" using c(4) by simp
    moreover have "c = 24 \<Longrightarrow> b = 3 \<Longrightarrow> y mod 400 = 0" using e3 unfolding y by presburger
    ultimately have "leap y" using y4 c(5) \<open>c < 24 \<Longrightarrow> y mod 100 \<noteq> 0\<close> unfolding leap_def by (cases "c < 24") auto
    then show ?thesis using True by simp
  qed (use e in auto)
qed
lemma month_split_props:
  "month_split ls r = (m, d) \<Longrightarrow> 0 \<le> r \<Longrightarrow> r < sum_list ls \<Longrightarrow>
     1 \<le> m \<and> m \<le> int (length ls) \<and> 1 \<le> d \<and> d \<le> ls ! nat (m - 1) \<and> r = sum_list (take (nat (m - 1)) ls) + d - 1"
proof (induction ls r arbitrary: m d rule: month_split.induct)
  case (2 l ls r)
  show ?case
  proof (cases "r < l")
    case True
    then show ?thesis using 2 by auto
  next
    case False
    obtain m' d' where md: "month_split ls (r - l) = (m', d')" by fastforce
    have ih: "1 \<le> m'" "m' \<le> int (length ls)" "1 \<le> d'" "d' \<le> ls ! nat (m' - 1)" "r - l = sum_list (take (nat (m' - 1)) ls) + d' - 1"
      using "2.IH" [OF False md] "2.prems" False by auto
    have m: "m = m' + 1" "d = d'" using "2.prems"(1) False md by auto
    have n: "nat (m - 1) = Suc (nat (m' - 1))" using ih(1) m by simp
    show ?thesis using ih n m by simp
  qed
qed simp

lemma months_length [simp]: "length (months y) = 12"
  by (simp add: months_def)

lemma months_sum: "sum_list (months y) = (if leap y then 366 else 365)"
  by (simp add: months_def)

lemma months_pos: "l \<in> set (months y) \<Longrightarrow> 0 < l"
  by (auto simp: months_def split: if_splits)

definition in_calendar :: "int list \<Rightarrow> bool" where
  "in_calendar fs \<longleftrightarrow> length fs = 7 \<and> 1 \<le> fs ! 1 \<and> fs ! 1 \<le> 12 \<and> 1 \<le> fs ! 2 \<and> fs ! 2 \<le> months (fs ! 0) ! nat (fs ! 1 - 1)
     \<and> 0 \<le> fs ! 3 \<and> fs ! 3 < 24 \<and> 0 \<le> fs ! 4 \<and> fs ! 4 < 60 \<and> 0 \<le> fs ! 5 \<and> fs ! 5 < 60 \<and> 0 \<le> fs ! 6 \<and> fs ! 6 < second"

definition instant_of :: "int list \<Rightarrow> time" where
  "instant_of fs = instant (fs ! 0) (fs ! 1) (fs ! 2) (fs ! 3) (fs ! 4) (fs ! 5) (fs ! 6)"

lemma clock_split:
  fixes s :: int assumes "0 \<le> s" "s < 86400"
  shows "((s div 3600) * 60 + s div 60 mod 60) * 60 + s mod 60 = s" "0 \<le> s div 3600" "s div 3600 < 24"
proof -
  have "s div 3600 = s div 60 div 60" by (simp add: zdiv_zmult2_eq [symmetric])
  then show "((s div 3600) * 60 + s div 60 mod 60) * 60 + s mod 60 = s" by simp
  show "0 \<le> s div 3600" "s div 3600 < 24" using assms by auto
qed

lemma civil_in_calendar: "in_calendar (civil t)" and civil_instant: "instant_of (civil t) = t"
proof -
  obtain y yd where ys: "year_split (t div day_ns) = (y, yd)" by fastforce
  note y = year_split_props [OF ys]
  obtain m d where ms: "month_split (months y) yd = (m, d)" by fastforce
  have m: "1 \<le> m" "m \<le> 12" "1 \<le> d" "d \<le> months y ! nat (m - 1)" "yd = sum_list (take (nat (m - 1)) (months y)) + d - 1"
    using month_split_props [OF ms] y by (auto simp: months_sum)
  define r where "r = t mod day_ns"
  define s where "s = r div second"
  have r: "0 \<le> r" "r < 86400 * second" "t = (t div day_ns) * day_ns + r" by (simp_all add: r_def day_ns_def second_def)
  have s: "0 \<le> s" "s < 86400" "r = s * second + r mod second" using r by (auto simp: s_def second_def)
  have c: "civil t = [y, m, d, s div 3600, s div 60 mod 60, s mod 60, r mod second]"
    using ys ms by (simp add: civil_def Let_def s_def r_def)
  note h = clock_split [OF s(1,2)]
  show "in_calendar (civil t)" unfolding c in_calendar_def using m h(2,3) by (simp add: second_def)
  have "day_number y m d = t div day_ns" using y(1) m(5) by (simp add: day_number_def)
  then have "instant_of (civil t) = ((t div day_ns * 24 + s div 3600) * 60 + s div 60 mod 60) * 60 * second + s mod 60 * second + r mod second"
    unfolding c instant_of_def by (simp add: instant_def)
  also have "\<dots> = (t div day_ns) * day_ns + ((((s div 3600) * 60 + s div 60 mod 60) * 60 + s mod 60) * second + r mod second)"
    by (simp add: algebra_simps day_ns_def)
  also have "\<dots> = t" using h(1) s(3) r(3) by simp
  finally show "instant_of (civil t) = t" .
qed

section \<open>Lexicographic order is chronological\<close>

lemma div_next:
  fixes y k :: int assumes "1 < k"
  shows "y div k = (y - 1) div k + (if y mod k = 0 then 1 else 0)"
proof -
  define q r where qr: "q = (y - 1) div k" "r = (y - 1) mod k"
  have y: "y = k * q + (r + 1)" "0 \<le> r" "r < k" using assms by (simp_all add: qr)
  show ?thesis
  proof (cases "r + 1 = k")
    case True
    then have "y = k * (q + 1)" using y(1) by (simp add: algebra_simps)
    then have "y div k = q + 1" "y mod k = 0" using assms by simp_all
    then show ?thesis by (simp add: qr(1))
  next
    case False
    have "y div k = q" by (rule int_div_pos_eq [where r = "r + 1"]) (use y False in auto)
    moreover have "y mod k = r + 1" by (rule int_mod_pos_eq [where q = q]) (use y False in auto)
    ultimately show ?thesis using y(2) by (simp add: qr(1) [symmetric])
  qed
qed

lemma leap_count:
  "(c \<longrightarrow> b) \<Longrightarrow> (b \<longrightarrow> a) \<Longrightarrow>
     (365 :: int) + (if a then 1 else 0) - (if b then 1 else 0) + (if c then 1 else 0) = (if a \<and> (\<not> b \<or> c) then 366 else 365)"
  by (cases a; cases b; cases c) simp_all

lemma days_before_next: "days_before (y + 1) = days_before y + (if leap y then 366 else 365)"
proof -
  have dv: "(100 :: int) dvd 400" "(4 :: int) dvd 100" by simp_all
  have m: "y mod 400 = 0 \<longrightarrow> y mod 100 = 0" "y mod 100 = 0 \<longrightarrow> y mod 4 = 0"
    using dvd_trans [OF dv(1), of y] dvd_trans [OF dv(2), of y] unfolding mod_eq_0_iff_dvd by blast+
  define i where "i k = (if y mod k = 0 then 1 else 0 :: int)" for k
  have d: "y div k = (y - 1) div k + i k" if "1 < k" for k using div_next [OF that, of y] by (simp only: i_def)
  define q where "q k = (y - 1) div k" for k
  have "days_before (y + 1) = 365 * y + y div 4 - y div 100 + y div 400" by (simp only: days_before_def add_diff_cancel_right')
  also have "\<dots> = 365 * y + (q 4 + i 4) - (q 100 + i 100) + (q 400 + i 400)"
    by (simp only: d [of 4, simplified] d [of 100, simplified] d [of 400, simplified] q_def)
  also have "\<dots> = (365 * (y - 1) + q 4 - q 100 + q 400) + (365 + i 4 - i 100 + i 400)" by (simp add: algebra_simps)
  also have "\<dots> = days_before y + (365 + i 4 - i 100 + i 400)" by (simp only: days_before_def q_def)
  also have "365 + i 4 - i 100 + i 400 = (if leap y then 366 else 365)" unfolding leap_def i_def by (rule leap_count [OF m])
  finally show ?thesis .
qed

lemma days_before_mono: "y \<le> y' \<Longrightarrow> days_before y \<le> days_before y'"
  by (induction y' rule: int_ge_induct) (auto simp: days_before_next)

lemma sum_take_mono:
  fixes ls :: "int list" assumes "\<And>l. l \<in> set ls \<Longrightarrow> 0 < l" "i \<le> j"
  shows "sum_list (take i ls) \<le> sum_list (take j ls)"
proof -
  obtain k where k: "j = i + k" using assms(2) le_Suc_ex by blast
  have "0 \<le> sum_list (take k (drop i ls))"
    by (rule sum_list_nonneg) (use assms(1) in \<open>force dest: in_set_takeD in_set_dropD\<close>)
  then show ?thesis unfolding k take_add by simp
qed

lemma day_number_less:
  assumes v: "1 \<le> m" "m \<le> 12" "d \<le> months y ! nat (m - 1)" "1 \<le> m'" "m' \<le> 12" "1 \<le> d'"
    and less: "y < y' \<or> y = y' \<and> (m < m' \<or> m = m' \<and> d < d')"
  shows "day_number y m d < day_number y' m' d'"
proof -
  have t: "sum_list (take (Suc (nat (m - 1))) (months y)) = sum_list (take (nat (m - 1)) (months y)) + months y ! nat (m - 1)"
    using v by (simp add: take_Suc_conv_app_nth)
  note mono = sum_take_mono [OF months_pos]
  have "0 \<le> sum_list (take (nat (m' - 1)) (months y'))" by (rule order_trans [OF _ mono [where i = 0]]) simp_all
  then have lo: "days_before y' \<le> day_number y' m' d'" using v(6) by (simp add: day_number_def)
  have "sum_list (take (Suc (nat (m - 1))) (months y)) \<le> sum_list (take 12 (months y))" by (rule mono) (use v in auto)
  then have hi: "day_number y m d < days_before (y + 1)" using t v(3) by (simp add: day_number_def days_before_next months_sum)
  consider "y < y'" | "y = y'" "m < m'" | "y = y'" "m = m'" "d < d'" using less by blast
  then show ?thesis
  proof cases
    case 1
    then show ?thesis using lo hi days_before_mono [of "y + 1" y'] by simp
  next
    case 2
    then have "sum_list (take (Suc (nat (m - 1))) (months y)) \<le> sum_list (take (nat (m' - 1)) (months y))"
      by (intro mono) (use v in auto)
    then show ?thesis using t v 2 by (simp add: day_number_def)
  qed (simp add: day_number_def)
qed

lemma mixed_radix:
  fixes x x' k r r' :: int assumes "x < x' \<or> x = x' \<and> r < r'" "0 \<le> r" "r < k" "0 \<le> r'"
  shows "x * k + r < x' * k + r'"
proof (cases "x < x'")
  case True
  then have "(x + 1) * k \<le> x' * k" using assms by (intro mult_right_mono) auto
  then show ?thesis using assms by (simp add: algebra_simps)
qed (use assms in auto)

lemma radix_lex:
  fixes x x' k r r' :: int
  assumes "x < x' \<or> x = x' \<and> (r < r' \<or> r = r' \<and> P)" "0 \<le> r" "r < k" "0 \<le> r'"
  shows "x * k + r < x' * k + r' \<or> x * k + r = x' * k + r' \<and> P"
  using assms mixed_radix [of x x' r r' k] by auto

lemma seven:
  assumes "length fs = 7"
  obtains a b c d e f g where "fs = [a, b, c, d, e, f, g]"
  using assms by (auto simp: numeral_eq_Suc length_Suc_conv)

lemma instant_split: "instant y m d h mi s ns = (((day_number y m d * 24 + h) * 60 + mi) * 60 + s) * second + ns"
  by (simp add: instant_def algebra_simps)

lemma instant_of_mono:
  assumes "in_calendar fs" "in_calendar gs" "fs < gs"
  shows "instant_of fs < instant_of gs"
proof -
  have "length fs = 7" "length gs = 7" using assms(1,2) by (simp_all add: in_calendar_def)
  then obtain y m d h mi s ns y' m' d' h' mi' s' ns' where f: "fs = [y, m, d, h, mi, s, ns]" and g: "gs = [y', m', d', h', mi', s', ns']"
    using seven by metis
  note v = assms(1,2) [unfolded f g in_calendar_def, simplified]
  have l: "y < y' \<or> y = y' \<and> (m < m' \<or> m = m' \<and> (d < d' \<or> d = d' \<and> (h < h' \<or> h = h' \<and> (mi < mi' \<or> mi = mi' \<and> (s < s' \<or> s = s' \<and> ns < ns')))))"
    using assms(3) unfolding f g by simp
  have "day_number y m d < day_number y' m' d' \<or> day_number y m d = day_number y' m' d' \<and> (h < h' \<or> h = h' \<and> (mi < mi' \<or> mi = mi' \<and> (s < s' \<or> s = s' \<and> ns < ns')))"
    using l day_number_less [of m d y m' d' y'] v by blast
  then have "day_number y m d * 24 + h < day_number y' m' d' * 24 + h'
      \<or> day_number y m d * 24 + h = day_number y' m' d' * 24 + h' \<and> (mi < mi' \<or> mi = mi' \<and> (s < s' \<or> s = s' \<and> ns < ns'))"
    by (rule radix_lex) (use v in blast)+
  then have "(day_number y m d * 24 + h) * 60 + mi < (day_number y' m' d' * 24 + h') * 60 + mi'
      \<or> (day_number y m d * 24 + h) * 60 + mi = (day_number y' m' d' * 24 + h') * 60 + mi' \<and> (s < s' \<or> s = s' \<and> ns < ns')"
    by (rule radix_lex) (use v in blast)+
  then have "((day_number y m d * 24 + h) * 60 + mi) * 60 + s < ((day_number y' m' d' * 24 + h') * 60 + mi') * 60 + s'
      \<or> ((day_number y m d * 24 + h) * 60 + mi) * 60 + s = ((day_number y' m' d' * 24 + h') * 60 + mi') * 60 + s' \<and> ns < ns'"
    by (rule radix_lex) (use v in blast)+
  then have "instant y m d h mi s ns < instant y' m' d' h' mi' s' ns'"
    unfolding instant_split by (rule mixed_radix) (use v in blast)+
  then show ?thesis by (simp add: f g instant_of_def)
qed

lemma civil_less_iff: "civil t < civil u \<longleftrightarrow> t < u"
proof
  assume "civil t < civil u"
  then show "t < u" using instant_of_mono [OF civil_in_calendar civil_in_calendar] by (metis civil_instant)
next
  assume "t < u"
  then have "\<not> civil u < civil t" "civil t \<noteq> civil u"
    using instant_of_mono [OF civil_in_calendar civil_in_calendar, of u t] civil_instant [of t] civil_instant [of u] by auto
  then show "civil t < civil u" by (simp add: not_less)
qed

text \<open>Zero-padded numbers of one width compare as texts the way they compare as numbers.\<close>

fun digs :: "nat \<Rightarrow> nat \<Rightarrow> string" where
  "digs 0 n = []"
| "digs (Suc w) n = digs w (n div 10) @ [digit_char (n mod 10)]"

lemma digs_length [simp]: "length (digs w n) = w"
  by (induction w arbitrary: n) simp_all

lemma append_less:
  fixes xs ys us vs :: "'a :: linorder list"
  assumes "length xs = length ys"
  shows "xs @ us < ys @ vs \<longleftrightarrow> xs < ys \<or> xs = ys \<and> us < vs"
  using assms by (induction xs ys rule: list_induct2) auto

lemma digit_char_less: "a < 10 \<Longrightarrow> b < 10 \<Longrightarrow> digit_char a < digit_char b \<longleftrightarrow> a < b"
  by (simp add: digit_char_def less_char_def)

lemma digit_char_eq: "a < 10 \<Longrightarrow> b < 10 \<Longrightarrow> digit_char a = digit_char b \<longleftrightarrow> a = b"
  by (metis digit_char_less less_irrefl nat_neq_iff)

lemma radix_nat_less:
  fixes a b c d :: nat assumes "b < 10" "d < 10" shows "10 * a + b < 10 * c + d \<longleftrightarrow> a < c \<or> a = c \<and> b < d"
  using assms by (cases a c rule: linorder_cases) auto

lemma digs_order:
  "m < 10 ^ w \<Longrightarrow> n < 10 ^ w \<Longrightarrow> (digs w m < digs w n \<longleftrightarrow> m < n) \<and> (digs w m = digs w n \<longleftrightarrow> m = n)"
proof (induction w arbitrary: m n)
  case (Suc w)
  have b: "m div 10 < 10 ^ w" "n div 10 < 10 ^ w" using Suc.prems by auto
  have *: "m < n \<longleftrightarrow> m div 10 < n div 10 \<or> m div 10 = n div 10 \<and> m mod 10 < n mod 10"
    using radix_nat_less [of "m mod 10" "n mod 10" "m div 10" "n div 10"] by simp
  have **: "m = n \<longleftrightarrow> m div 10 = n div 10 \<and> m mod 10 = n mod 10" by (metis div_mult_mod_eq)
  show ?case unfolding * ** using Suc.IH [OF b] by (simp add: append_less digit_char_less digit_char_eq)
qed simp

lemmas digs_less = digs_order [THEN conjunct1] and digs_eq = digs_order [THEN conjunct2]

lemma decimal_digs:
  assumes "0 < w" "n < 10 ^ w" shows "replicate (w - length (decimal n)) (CHR ''0'') @ decimal n = digs w n"
  using assms
proof (induction w arbitrary: n)
  case (Suc w)
  have z: "digit_char 0 = CHR ''0''" by code_simp
  have zeros: "digs v 0 = replicate v (CHR ''0'')" for v
    by (induction v) (simp_all add: z replicate_append_same)
  show ?case
  proof (cases "n < 10")
    case True
    then show ?thesis by (subst decimal.simps) (simp add: decimal.simps [of n] zeros)
  next
    case False
    then have "0 < w" "n div 10 < 10 ^ w" using Suc.prems by (auto intro: gr0I)
    then show ?thesis using Suc.IH [of "n div 10"] False by (simp add: decimal.simps [of n])
  qed
qed simp

lemma appendInt_digs: "0 < w \<Longrightarrow> 0 \<le> x \<Longrightarrow> x < 10 ^ w \<Longrightarrow> appendInt x w = digs w (nat x)"
  by (simp add: appendInt_def Let_def decimal_digs nat_less_iff)

text \<open>The instants whose year has four digits.\<close>

definition stampable :: "time \<Rightarrow> bool" where
  "stampable t \<longleftrightarrow> 0 \<le> civil t ! 0 \<and> civil t ! 0 \<le> 9999"

lemma month_length: "1 \<le> m \<Longrightarrow> m \<le> 12 \<Longrightarrow> months y ! nat (m - 1) \<le> 31"
proof -
  assume "1 \<le> m" "m \<le> 12"
  then have "months y ! nat (m - 1) \<in> set (months y)" by (intro nth_mem) simp
  then show ?thesis by (auto simp: months_def split: if_splits)
qed

lemma civil_fields:
  assumes "stampable t"
  obtains y m d h mi s ns where
    "civil t = map int [y, m, d, h, mi, s, ns]" "y < 10000" "1 \<le> m" "m \<le> 12" "1 \<le> d" "d \<le> 31"
    "int d \<le> months (int y) ! nat (int m - 1)" "h < 24" "mi < 60" "s < 60" "ns < 1000000000"
proof -
  have c: "in_calendar (civil t)" by (rule civil_in_calendar)
  then obtain y m d h mi s ns where f: "civil t = [y, m, d, h, mi, s, ns]" using seven unfolding in_calendar_def by metis
  note v = c [unfolded f in_calendar_def, simplified]
  have y: "0 \<le> y" "y \<le> 9999" using assms by (simp_all add: stampable_def f)
  show ?thesis
    by (rule that [of "nat y" "nat m" "nat d" "nat h" "nat mi" "nat s" "nat ns"])
      (use f v y month_length [of m y] in \<open>auto simp: second_def nat_less_iff nat_le_iff le_nat_iff\<close>)
qed

lemma format_digs:
  assumes "civil t = map int [y, m, d, h, mi, s, ns]" "y < 10000" "m \<le> 12" "d \<le> 31" "h < 24" "mi < 60" "s < 60" "ns < 1000000000"
  shows "stamp_head (civil t) = digs 4 y @ ''-'' @ digs 2 m @ ''-'' @ digs 2 d @ ''T'' @ digs 2 h @ '':'' @ digs 2 mi @ '':'' @ digs 2 s"
    and "appendInt (civil t ! 6) 9 = digs 9 ns" "civil t ! 6 = int ns"
  using assms by (simp_all add: stamp_head_def appendInt_digs)

lemma format_less:
  assumes "stampable t" "stampable u"
  shows "formatStoredTime t < formatStoredTime u \<longleftrightarrow> t < u"
proof -
  obtain y m d h mi s ns where t: "civil t = map int [y, m, d, h, mi, s, ns]" "y < 10000" "1 \<le> m" "m \<le> 12" "1 \<le> d" "d \<le> 31"
    "int d \<le> months (int y) ! nat (int m - 1)" "h < 24" "mi < 60" "s < 60" "ns < 1000000000"
    using civil_fields [OF assms(1)] by metis
  obtain y' m' d' h' mi' s' ns' where u: "civil u = map int [y', m', d', h', mi', s', ns']" "y' < 10000" "1 \<le> m'" "m' \<le> 12" "1 \<le> d'" "d' \<le> 31"
    "int d' \<le> months (int y') ! nat (int m' - 1)" "h' < 24" "mi' < 60" "s' < 60" "ns' < 1000000000"
    using civil_fields [OF assms(2)] by metis
  note ft = format_digs [OF t(1,2,4,6,8,9,10,11)] and fu = format_digs [OF u(1,2,4,6,8,9,10,11)]
  have "formatStoredTime t < formatStoredTime u \<longleftrightarrow> civil t < civil u"
    unfolding formatStoredTime_def ft fu unfolding t(1) u(1) using t u
    by (simp add: append_less digs_less digs_eq appendInt_digs)
  then show ?thesis by (simp add: civil_less_iff)
qed

section \<open>Reading back\<close>

lemma digit_char_facts:
  assumes "k < 10"
  shows "CHR ''0'' \<le> digit_char k" "digit_char k \<le> CHR ''9''" "stamp_digit (digit_char k) = int k"
    "digit_char k \<noteq> CHR ''-''" "digit_char k \<noteq> CHR ''+''" "digit_char k \<noteq> CHR ''Z''"
proof -
  have o: "of_char (digit_char k) = 48 + k" using assms by (simp add: digit_char_def)
  have "of_char (CHR ''0'') = (48 :: nat)" "of_char (CHR ''9'') = (57 :: nat)" "of_char (CHR ''-'') = (45 :: nat)"
    "of_char (CHR ''+'') = (43 :: nat)" "of_char (CHR ''Z'') = (90 :: nat)" by simp_all
  then show "CHR ''0'' \<le> digit_char k" "digit_char k \<le> CHR ''9''" "stamp_digit (digit_char k) = int k"
    "digit_char k \<noteq> CHR ''-''" "digit_char k \<noteq> CHR ''+''" "digit_char k \<noteq> CHR ''Z''"
    using o assms by (auto simp: less_eq_char_def stamp_digit_def)
qed

lemma digs_all_digits: "all_digits (digs w n)"
  by (induction w arbitrary: n) (simp_all add: all_digits_def digit_char_facts)

lemma digs_value: "n < 10 ^ w \<Longrightarrow> stamp_number (digs w n) = int n"
proof (induction w arbitrary: n)
  case (Suc w)
  then have "stamp_number (digs w (n div 10)) = int (n div 10)" by auto
  then show ?case by (simp add: stamp_number_def digit_char_facts zmod_int zdiv_int)
qed (simp add: stamp_number_def)

lemma digs_two: "n < 100 \<Longrightarrow> digs 2 n = [digit_char (n div 10), digit_char (n mod 10)]"
  by (simp add: numeral_2_eq_2)

lemma getnum_digs: "n < 100 \<Longrightarrow> getnum fixed (digs 2 n @ s) = Some (int n, s)"
proof -
  assume n: "n < 100"
  then have "n div 10 < 10" by simp
  then show ?thesis using n by (simp add: digs_two getnum_def digit_at_def digit_char_facts zmod_int zdiv_int)
qed

lemma digs_hd:
  assumes "0 < w" "n < 10 ^ w" obtains k where "k < 10" "hd (digs w n) = digit_char k" "digs w n \<noteq> []"
proof -
  have "\<exists>k < 10. hd (digs (Suc v) n) = digit_char k" for v n
  proof (induction v arbitrary: n)
    case (Suc v)
    then show ?case by (metis append_is_Nil_conv digs.simps(2) hd_append2 list.discI not_Cons_self2 snoc_eq_iff_butlast)
  qed (auto intro!: exI [where x = "_ mod 10"])
  then show ?thesis using that assms(1) by (metis digs_length gr0_implies_Suc length_greater_0_conv)
qed

lemma atoi_digs: "0 < w \<Longrightarrow> n < 10 ^ w \<Longrightarrow> stamp_atoi (digs w n) = Some (int n)"
proof -
  assume wn: "0 < w" "n < 10 ^ w"
  then obtain k where k: "k < 10" "hd (digs w n) = digit_char k" using digs_hd by metis
  have "\<not> (digs w n \<noteq> [] \<and> hd (digs w n) \<in> {CHR ''-'', CHR ''+''})" using k by (simp add: digit_char_facts)
  then show ?thesis using digs_value [OF wn(2)] digs_all_digits [of w n] by (simp only: stamp_atoi_def Let_def if_False if_True simp_thms)
qed

lemma get_year_digs: "n < 10000 \<Longrightarrow> get_year (digs 4 n @ s) = Some (int n, s)"
proof -
  assume n: "n < 10000"
  then obtain k where k: "k < 10" "hd (digs 4 n) = digit_char k" "digs 4 n \<noteq> []" using digs_hd [of 4 n] by auto
  then have "digit_at (digs 4 n @ s)" by (cases "digs 4 n") (auto simp: digit_at_def digit_char_facts)
  then show ?thesis using n by (simp add: get_year_def atoi_digs)
qed

lemma frac_fixed_digs: "n < 1000000000 \<Longrightarrow> frac_fixed (CHR ''.'' # digs 9 n @ s) = Some (int n, s)"
  by (simp add: frac_fixed_def frac_value_def atoi_digs)

lemma parse_stamp_head:
  assumes c: "civil t = map int [y, m, d, h, mi, s, ns]" "y < 10000" "1 \<le> m" "m \<le> 12" "1 \<le> d" "d \<le> 31"
      "int d \<le> months (int y) ! nat (int m - 1)" "h < 24" "mi < 60" "s < 60" "ns < 1000000000"
    and f: "frac rest = Some (int ns, ''Z'')"
  shows "parse_stamp frac (stamp_head (civil t) @ rest) = Some t"
proof -
  have "instant (int y) (int m) (int d) (int h) (int mi) (int s) (int ns) = t"
    using civil_instant [of t] c(1) by (simp add: instant_of_def)
  then show ?thesis
    unfolding format_digs(1) [OF c(1,2,4,6,8,9,10,11)] using c f
    by (simp add: parse_stamp_def parse_clock_def get_year_digs getnum_digs skip_char_def in_range_def zone_offset_def)
qed

text \<open>A trimmed fraction: what is cut off are zeros, which the parser scales back.\<close>

lemma trim_zeros_pad:
  assumes "all_digits s"
  shows "\<exists>k. s = trim_zeros s @ replicate k (CHR ''0'')"
proof -
  have "rev s = takeWhile (\<lambda>c. c = CHR ''0'') (rev s) @ dropWhile (\<lambda>c. c = CHR ''0'') (rev s)" by simp
  moreover have "takeWhile (\<lambda>c. c = CHR ''0'') (rev s) = replicate (length (takeWhile (\<lambda>c. c = CHR ''0'') (rev s))) (CHR ''0'')"
    by (rule replicate_eqI) (auto dest: set_takeWhileD)
  ultimately have "rev (rev s) = trim_zeros s @ rev (replicate (length (takeWhile (\<lambda>c. c = CHR ''0'') (rev s))) (CHR ''0''))"
    unfolding trim_zeros_def by (metis rev_append)
  then show ?thesis by (metis rev_replicate rev_rev_ident)
qed

lemma value_zeros: "stamp_number (s @ replicate k (CHR ''0'')) = stamp_number s * 10 ^ k"
proof (induction k)
  case (Suc k)
  have "stamp_number (s @ replicate (Suc k) (CHR ''0'')) = stamp_number ((s @ replicate k (CHR ''0'')) @ [CHR ''0''])"
    by (simp add: replicate_append_same)
  also have "\<dots> = 10 * stamp_number (s @ replicate k (CHR ''0''))" by (simp add: stamp_number_def stamp_digit_def)
  finally show ?case using Suc by simp
qed simp

lemma digits_no_sign: "all_digits (c # s) \<Longrightarrow> c \<noteq> CHR ''-'' \<and> c \<noteq> CHR ''+''"
  by (auto simp: all_digits_def less_eq_char_def)

lemma digits_value_nonneg: "all_digits s \<Longrightarrow> 0 \<le> stamp_number s"
proof (induction s rule: rev_induct)
  case (snoc c s)
  then have "0 \<le> stamp_digit c" by (auto simp: all_digits_def stamp_digit_def less_eq_char_def)
  then show ?case using snoc by (simp add: stamp_number_def all_digits_def)
qed (simp add: stamp_number_def)

lemma atoi_digits:
  assumes "all_digits s" shows "stamp_atoi s = Some (stamp_number s)"
proof -
  have "\<not> (s \<noteq> [] \<and> hd s \<in> {CHR ''-'', CHR ''+''})" using digits_no_sign assms by (cases s) auto
  then show ?thesis using assms by (simp only: stamp_atoi_def Let_def if_False if_True simp_thms)
qed

lemma takeWhile_digits: "all_digits s \<Longrightarrow> takeWhile (\<lambda>c. digit_at [c]) (s @ ''Z'') = s"
  by (induction s) (auto simp: all_digits_def digit_at_def less_eq_char_def)

lemma frac_nano_digs:
  assumes n: "0 < n" "n < 1000000000"
  shows "frac_nano (CHR ''.'' # trim_zeros (digs 9 n) @ ''Z'') = Some (int n, ''Z'')"
proof -
  let ?s = "trim_zeros (digs 9 n)"
  obtain k where k: "digs 9 n = ?s @ replicate k (CHR ''0'')" using trim_zeros_pad [OF digs_all_digits] by blast
  have d: "all_digits ?s" using digs_all_digits [of 9 n] k by (metis all_digits_def list_all_append)
  have len: "length ?s + k = 9" using k by (metis digs_length length_append length_replicate)
  then have k9: "9 - length ?s = k" by simp
  have v: "stamp_number ?s * 10 ^ k = int n" using value_zeros [of ?s k] k digs_value [of n 9] n by simp
  then have ne: "?s \<noteq> []" using n by (auto simp: stamp_number_def)
  then have "digit_at (?s @ ''Z'')" using d by (cases ?s) (auto simp: digit_at_def all_digits_def)
  moreover have "frac_value ?s = Some (int n)"
    using atoi_digits [OF d] digits_value_nonneg [OF d] v len k9 by (simp add: frac_value_def)
  ultimately show ?thesis using ne takeWhile_digits [OF d] by (simp add: frac_nano_def Let_def)
qed

lemma parse_format: "stampable t \<Longrightarrow> parseStoredTime (formatStoredTime t) = Ok t"
proof -
  assume "stampable t"
  then obtain y m d h mi s ns where c: "civil t = map int [y, m, d, h, mi, s, ns]" "y < 10000" "1 \<le> m" "m \<le> 12" "1 \<le> d" "d \<le> 31"
    "int d \<le> months (int y) ! nat (int m - 1)" "h < 24" "mi < 60" "s < 60" "ns < 1000000000"
    using civil_fields by metis
  have "frac_fixed (CHR ''.'' # digs 9 ns @ ''Z'') = Some (int ns, ''Z'')" by (rule frac_fixed_digs [OF c(11)])
  from parse_stamp_head [where frac = frac_fixed, OF c this] show ?thesis
    using format_digs(2) [OF c(1,2,4,6,8,9,10,11)] by (simp add: parseStoredTime_def formatStoredTime_def)
qed

lemma parse_format_nano: "stampable t \<Longrightarrow> parseNano (formatNano t) = Ok t"
proof -
  assume "stampable t"
  then obtain y m d h mi s ns where c: "civil t = map int [y, m, d, h, mi, s, ns]" "y < 10000" "1 \<le> m" "m \<le> 12" "1 \<le> d" "d \<le> 31"
    "int d \<le> months (int y) ! nat (int m - 1)" "h < 24" "mi < 60" "s < 60" "ns < 1000000000"
    using civil_fields by metis
  let ?f = "if ns = 0 then '''' else ''.'' @ trim_zeros (digs 9 ns)"
  have "frac_nano (?f @ ''Z'') = Some (int ns, ''Z'')"
    using frac_nano_digs [of ns] c(11) by (cases "ns = 0") (simp_all add: frac_nano_def)
  from parse_stamp_head [where frac = frac_nano, OF c this] show ?thesis
    using format_digs(2,3) [OF c(1,2,4,6,8,9,10,11)] by (cases "ns = 0") (simp_all add: parseNano_def formatNano_def Let_def)
qed

text \<open>A year of another length cannot be read.\<close>

lemma decimal_all_digits: "all_digits (decimal n)"
proof (induction n rule: decimal.induct)
  case (1 n)
  show ?case
  proof (cases "n < 10")
    case True
    then show ?thesis by (simp add: decimal.simps [of n] all_digits_def digit_char_facts)
  next
    case False
    then show ?thesis using 1 by (simp add: decimal.simps [of n] all_digits_def digit_char_facts)
  qed
qed

lemma decimal_long: "10 ^ k \<le> n \<Longrightarrow> k < length (decimal n)"
proof (induction k arbitrary: n)
  case 0
  show ?case by (simp add: decimal.simps [of n])
next
  case (Suc k)
  have "(1 :: nat) \<le> 10 ^ k" by simp
  then have "10 * 1 \<le> 10 * (10 :: nat) ^ k" by (intro mult_le_mono2)
  also have "\<dots> \<le> n" using Suc.prems by simp
  finally have "10 \<le> n" by simp
  moreover have "10 ^ k \<le> n div 10" using Suc.prems by auto
  ultimately have "10 ^ k \<le> n div 10" "\<not> n < 10" by simp_all
  then show ?case using Suc.IH by (simp add: decimal.simps [of n])
qed

lemma parse_stamp_other:
  assumes "\<not> stampable t" shows "parse_stamp frac (stamp_head (civil t) @ rest) = None"
proof -
  let ?y = "civil t ! 0"
  obtain tail where h: "stamp_head (civil t) @ rest = appendInt ?y 4 @ tail" by (simp add: stamp_head_def)
  consider "?y < 0" | "10000 \<le> ?y" using assms by (auto simp: stampable_def)
  then show ?thesis
  proof cases
    case 1
    then have "\<not> digit_at (appendInt ?y 4 @ tail)" by (simp add: appendInt_def Let_def digit_at_def less_eq_char_def)
    then show ?thesis unfolding h by (simp add: parse_stamp_def get_year_def)
  next
    case 2
    let ?d = "decimal (nat ?y)"
    have l: "4 < length ?d" using decimal_long [of 4 "nat ?y"] 2 by simp
    have a: "appendInt ?y 4 = ?d" using 2 l by (simp add: appendInt_def Let_def)
    have "?d ! 4 \<in> set ?d" using l by simp
    then have "CHR ''0'' \<le> ?d ! 4" using decimal_all_digits [of "nat ?y"] by (auto simp: all_digits_def list_all_iff)
    then have n: "?d ! 4 \<noteq> CHR ''-''" by (auto simp: less_eq_char_def)
    have "drop 4 (?d @ tail) = ?d ! 4 # (drop 5 ?d @ tail)" using l Cons_nth_drop_Suc [of 4 ?d] by simp
    then have "skip_char (CHR ''-'') (drop 4 (?d @ tail)) = None" using n by (simp add: skip_char_def)
    then show ?thesis unfolding h a parse_stamp_def get_year_def by (cases "stamp_atoi (take 4 (?d @ tail))") simp_all
  qed
qed

interpretation stored: ordered_codec formatStoredTime parseStoredTime stampable
  by unfold_locales (simp_all add: parse_format format_less)

interpretation nano: codec formatNano parseNano stampable
  by unfold_locales (simp add: parse_format_nano)

section \<open>Properties\<close>

text \<open>
  C17. Stored times of the queue and the history behave like instants: for years of four digits
  the stored texts compare in SQL exactly as the instants do, and they read back; a text
  reads back at all exactly if the year has four digits.
\<close>

theorem stored_times_are_instants:
  shows "stampable t \<Longrightarrow> stampable u \<Longrightarrow> (formatStoredTime t < formatStoredTime u \<longleftrightarrow> t < u) \<and> (formatStoredTime t \<le> formatStoredTime u \<longleftrightarrow> t \<le> u)
       \<and> parseStoredTime (formatStoredTime t) = Ok t"
  by (simp add: stored.encode_less stored.encode_le stored.decode_encode)

lemma stored_time_readable: "is_ok (parseStoredTime (formatStoredTime t)) \<longleftrightarrow> stampable t"
proof (cases "stampable t")
  case False
  have "parse_stamp frac_fixed (formatStoredTime t) = None"
    using parse_stamp_other [OF False, of frac_fixed "''.'' @ appendInt (civil t ! 6) 9 @ ''Z''"] by (simp add: formatStoredTime_def)
  then show ?thesis using False by (simp add: parseStoredTime_def)
qed (simp add: parse_format)

theorem stored_times_are_instants_witness:
  "stampable (63871297200 * second) \<and> stampable (63871297200 * second + 1)
   \<and> formatStoredTime (63871297200 * second) = ''2025-01-01T03:00:00.000000000Z''
   \<and> formatStoredTime (63871297200 * second) < formatStoredTime (63871297200 * second + 1)
   \<and> parseStoredTime (formatStoredTime (63871297200 * second)) = Ok (63871297200 * second)"
proof -
  have s: "stampable (63871297200 * second)" "stampable (63871297200 * second + 1)" by code_simp+
  have "formatStoredTime (63871297200 * second) = ''2025-01-01T03:00:00.000000000Z''" by code_simp
  then show ?thesis using s stored_times_are_instants [OF s] by simp
qed

text \<open>
  The trimmed layout, which the presence tables, the outbox and the migration ledger use, reads
  back too, but its texts do not compare as the instants do.
\<close>

theorem trimmed_times_do_not_compare:
  "(\<forall>t. stampable t \<longrightarrow> parseNano (formatNano t) = Ok t)
   \<and> (\<exists>t u. stampable t \<and> stampable u \<and> t < u \<and> formatNano u < formatNano t)"
proof -
  have "stampable (10 :: time)" "stampable (15 :: time)" by code_simp+
  moreover have n: "formatNano 10 = ''0001-01-01T00:00:00.00000001Z''" by code_simp
  have n2: "formatNano 15 = ''0001-01-01T00:00:00.000000015Z''" by code_simp
  have "formatNano (15 :: time) < formatNano (10 :: time)" unfolding n n2 by (simp add: less_char_def)
  moreover have "(10 :: time) < 15" by simp
  ultimately show ?thesis using nano.decode_encode by blast
qed

theorem trimmed_times_do_not_compare_witness:
  "parseNano (formatNano (63871297200 * second)) = Ok (63871297200 * second)
   \<and> formatNano (63871297200 * second) = ''2025-01-01T03:00:00Z''"
proof -
  have "stampable (63871297200 * second)" by code_simp
  moreover have "formatNano (63871297200 * second) = ''2025-01-01T03:00:00Z''" by code_simp
  ultimately show ?thesis using trimmed_times_do_not_compare by blast
qed

end
