(* ===== verification/HistoryText.thy ===== *)
theory HistoryText
  imports History StoredTime
begin

text \<open>
  \<^verbatim>\<open>src/internal/history/history.go\<close> at the level of its table: times are the texts of
  \<^verbatim>\<open>formatStoredTime\<close>, SQL compares them as texts, and \<^verbatim>\<open>Query\<close> parses them back row by row.  While every
  time has a year of four digits this table refines the history of instants; a row with another
  time is stored, and then fails every query that selects it.
\<close>

section \<open>The table\<close>

record stored_row =
  sr_seq :: int
  sr_message_id :: string
  sr_conversation :: string
  sr_sender :: string
  sr_recipient :: string
  sr_body :: string
  sr_sent_at :: string
  sr_received_at :: string
  sr_stored_at :: string

record history_table =
  ht_rows :: "stored_row list"
  ht_next :: int
  ht_ttl :: duration
  ht_maxRows :: int

datatype table_error = TableStmt history_error | TableTime string

definition stored_row_of :: "int \<Rightarrow> string \<Rightarrow> message \<Rightarrow> time \<Rightarrow> stored_row" where
  "stored_row_of seq conversation msg now =
     \<lparr>sr_seq = seq, sr_message_id = msg_ID msg, sr_conversation = conversation, sr_sender = msg_Sender msg,
      sr_recipient = msg_Recipient msg, sr_body = msg_Body msg, sr_sent_at = formatStoredTime (msg_SentAt msg),
      sr_received_at = formatStoredTime (msg_ReceivedAt msg), sr_stored_at = formatStoredTime now\<rparr>"

definition table_retention ::
  "(history_stmt \<Rightarrow> bool) \<Rightarrow> time \<Rightarrow> history_table \<Rightarrow> (history_error, unit) result \<times> history_table" where
  "table_retention fails now h =
     (let cutoff = formatStoredTime (now - ht_ttl h)
      in if fails HsExpire then (Err (HistoryStmt HsExpire), h)
         else let h1 = h\<lparr>ht_rows := filter (\<lambda>r. \<not> sr_stored_at r \<le> cutoff) (ht_rows h)\<rparr>;
                  total = int (length (ht_rows h1))
              in if fails HsCount then (Err (HistoryStmt HsCount), h1)
                 else if total \<le> ht_maxRows h1 then (Ok (), h1)
                 else if fails HsEvict then (Err (HistoryStmt HsEvict), h1)
                 else (Ok (), h1\<lparr>ht_rows := drop (nat (total - ht_maxRows h1)) (ht_rows h1)\<rparr>))"

definition table_insert :: "time \<Rightarrow> string \<Rightarrow> message \<Rightarrow> history_table \<Rightarrow> history_table" where
  "table_insert now conversation msg h =
     (if msg_ID msg \<in> sr_message_id ` set (ht_rows h) then h
      else h\<lparr>ht_rows := ht_rows h @ [stored_row_of (ht_next h) conversation msg now], ht_next := ht_next h + 1\<rparr>)"

definition table_Append ::
  "(history_stmt \<Rightarrow> bool) \<Rightarrow> time \<Rightarrow> string \<Rightarrow> message \<Rightarrow> history_table \<Rightarrow> (history_error, unit) result \<times> history_table" where
  "table_Append fails now local msg h =
     (if local = '''' then (Err LocalEmpty, h)
      else if msg_ID msg = '''' then (Err IDEmpty, h)
      else if fails HsInsert then (Err (HistoryStmt HsInsert), h)
      else table_retention fails now (table_insert now (ConversationKeyFor local msg) msg h))"

text \<open>One row of a query; the rows are read one by one until one does not parse.\<close>

definition row_read :: "stored_row \<Rightarrow> (table_error, string \<times> message) result" where
  "row_read r =
     (case parseStoredTime (sr_sent_at r) of
        Inl e \<Rightarrow> Err (TableTime e)
      | Inr sent \<Rightarrow>
          (case parseStoredTime (sr_received_at r) of
             Inl e \<Rightarrow> Err (TableTime e)
           | Inr received \<Rightarrow>
               Ok (sr_conversation r, \<lparr>msg_ID = sr_message_id r, msg_Sender = sr_sender r, msg_Recipient = sr_recipient r,
                     msg_Body = sr_body r, msg_SentAt = sent, msg_ReceivedAt = received\<rparr>)))"

definition row_selected :: "query_options \<Rightarrow> stored_row \<Rightarrow> bool" where
  "row_selected opts r \<longleftrightarrow>
     (qo_Conversation opts \<noteq> '''' \<longrightarrow> sr_conversation r = qo_Conversation opts)
   \<and> (case qo_From opts of None \<Rightarrow> True | Some f \<Rightarrow> formatStoredTime f \<le> sr_received_at r)
   \<and> (case qo_To opts of None \<Rightarrow> True | Some t \<Rightarrow> sr_received_at r \<le> formatStoredTime t)"

definition table_Query ::
  "(history_stmt \<Rightarrow> bool) \<Rightarrow> query_options \<Rightarrow> history_table \<Rightarrow> (table_error, (string \<times> message) list) result" where
  "table_Query fails opts h =
     (if fails HsQuery then Err (TableStmt (HistoryStmt HsQuery))
      else decode_all row_read (filter (row_selected opts) (ht_rows h)))"

section \<open>Refinement\<close>

definition text_row :: "history_row \<Rightarrow> stored_row" where
  "text_row r = stored_row_of (hr_seq r) (hr_conversation r) (hr_message r) (hr_stored_at r)"

definition table_of :: "history \<Rightarrow> history_table" where
  "table_of h = \<lparr>ht_rows = map text_row (hs_rows h), ht_next = hs_next h, ht_ttl = hs_ttl h, ht_maxRows = hs_maxRows h\<rparr>"

definition row_stampable :: "history_row \<Rightarrow> bool" where
  "row_stampable r \<longleftrightarrow> stampable (msg_SentAt (hr_message r)) \<and> stampable (msg_ReceivedAt (hr_message r)) \<and> stampable (hr_stored_at r)"

definition stampable_options :: "query_options \<Rightarrow> bool" where
  "stampable_options opts \<longleftrightarrow> (\<forall>f. qo_From opts = Some f \<longrightarrow> stampable f) \<and> (\<forall>t. qo_To opts = Some t \<longrightarrow> stampable t)"

lemma table_of_simps [simp]:
  "ht_rows (table_of h) = map text_row (hs_rows h)" "ht_next (table_of h) = hs_next h"
  "ht_ttl (table_of h) = hs_ttl h" "ht_maxRows (table_of h) = hs_maxRows h"
  "sr_stored_at (text_row r) = formatStoredTime (hr_stored_at r)" "sr_message_id (text_row r) = msg_ID (hr_message r)"
  "sr_conversation (text_row r) = hr_conversation r" "sr_received_at (text_row r) = formatStoredTime (msg_ReceivedAt (hr_message r))"
  by (simp_all add: table_of_def text_row_def stored_row_of_def)

lemma table_of_rows: "table_of (h\<lparr>hs_rows := rs\<rparr>) = (table_of h)\<lparr>ht_rows := map text_row rs\<rparr>"
  by (simp add: table_of_def)

lemma retention_refines:
  assumes "\<forall>r \<in> set (hs_rows h). row_stampable r" "stampable (now - hs_ttl h)"
  shows "table_retention fails now (table_of h) = (fst (enforceRetention fails now h), table_of (snd (enforceRetention fails now h)))"
proof -
  have "filter (\<lambda>r. \<not> sr_stored_at r \<le> formatStoredTime (now - hs_ttl h)) (map text_row (hs_rows h))
      = map text_row (filter (\<lambda>r. \<not> hr_stored_at r \<le> now - hs_ttl h) (hs_rows h))"
    using stored.select_after [of "hs_rows h" hr_stored_at "now - hs_ttl h"] assms by (simp add: filter_map row_stampable_def comp_def)
  then show ?thesis
    by (simp add: table_retention_def enforceRetention_def Let_def table_of_rows drop_map)
qed

lemma insert_refines: "table_insert now key msg (table_of h) = table_of (history_insert now key msg h)"
  by (auto simp: table_insert_def history_insert_def table_of_def text_row_def image_image stored_row_of_def)

lemma row_read_text: "row_stampable r \<Longrightarrow> row_read (text_row r) = Ok (hr_conversation r, hr_message r)"
  by (simp add: row_read_def text_row_def stored_row_of_def row_stampable_def stored.decode_encode)

lemma rows_read_text: "\<forall>r \<in> set rs. row_stampable r \<Longrightarrow> decode_all row_read (map text_row rs) = Ok (map (\<lambda>r. (hr_conversation r, hr_message r)) rs)"
  by (induction rs) (simp_all add: row_read_text)

lemma row_selected_text:
  assumes "row_stampable r" "stampable_options opts"
  shows "row_selected opts (text_row r) \<longleftrightarrow>
      (qo_Conversation opts \<noteq> '''' \<longrightarrow> hr_conversation r = qo_Conversation opts)
    \<and> (case qo_From opts of None \<Rightarrow> True | Some f \<Rightarrow> f \<le> msg_ReceivedAt (hr_message r))
    \<and> (case qo_To opts of None \<Rightarrow> True | Some t \<Rightarrow> msg_ReceivedAt (hr_message r) \<le> t)"
  using assms by (auto simp: row_selected_def row_stampable_def stampable_options_def stored.encode_le split: option.splits)
section \<open>Properties\<close>

text \<open>
  C16. While all times have years of four digits the table with its texts is the history of
  instants: recording and querying commute with writing the times down, on every
  outcome, failed statements included.
\<close>

theorem history_table_refines_instants:
  assumes "\<forall>r \<in> set (hs_rows h). row_stampable r" "stampable now" "stampable (now - hs_ttl h)"
    and "stampable (msg_SentAt msg)" "stampable (msg_ReceivedAt msg)" "stampable_options opts"
  shows "table_Append fails now local msg (table_of h)
           = (fst (history_Append fails now local msg h), table_of (snd (history_Append fails now local msg h)))
       \<and> table_Query fails opts (table_of h)
           = (case history_Query fails opts h of Inl e \<Rightarrow> Err (TableStmt e) | Inr rs \<Rightarrow> Ok (map (\<lambda>r. (hr_conversation r, hr_message r)) rs))"
proof (rule conjI)
  let ?h = "history_insert now (ConversationKeyFor local msg) msg h"
  have "\<forall>r \<in> set (hs_rows ?h). row_stampable r" using assms by (auto simp: history_insert_def row_stampable_def)
  moreover have "hs_ttl ?h = hs_ttl h" by (simp add: history_insert_def)
  ultimately show "table_Append fails now local msg (table_of h)
      = (fst (history_Append fails now local msg h), table_of (snd (history_Append fails now local msg h)))"
    using retention_refines [of ?h now fails] assms(3) by (simp add: table_Append_def history_Append_def insert_refines)
  let ?sel = "\<lambda>r. (qo_Conversation opts \<noteq> '''' \<longrightarrow> hr_conversation r = qo_Conversation opts)
      \<and> (case qo_From opts of None \<Rightarrow> True | Some f \<Rightarrow> f \<le> msg_ReceivedAt (hr_message r))
      \<and> (case qo_To opts of None \<Rightarrow> True | Some t \<Rightarrow> msg_ReceivedAt (hr_message r) \<le> t)"
  have "filter (row_selected opts) (map text_row (hs_rows h)) = map text_row (filter ?sel (hs_rows h))"
    unfolding filter_map using assms(1) row_selected_text [OF _ assms(6)] by (auto intro!: arg_cong [where f = "map text_row"] filter_cong)
  moreover have "decode_all row_read (map text_row (filter ?sel (hs_rows h))) = Ok (map (\<lambda>r. (hr_conversation r, hr_message r)) (filter ?sel (hs_rows h)))"
    by (rule rows_read_text) (use assms(1) in auto)
  ultimately show "table_Query fails opts (table_of h)
      = (case history_Query fails opts h of Inl e \<Rightarrow> Err (TableStmt e) | Inr rs \<Rightarrow> Ok (map (\<lambda>r. (hr_conversation r, hr_message r)) rs))"
    by (simp add: table_Query_def history_Query_def)
qed



definition year_2025 :: time where "year_2025 = 63871297200 * second"

definition hello_row :: message where
  "hello_row = \<lparr>msg_ID = ''m1'', msg_Sender = ''mia'', msg_Recipient = ''max'', msg_Body = ''hello'',
     msg_SentAt = year_2025, msg_ReceivedAt = year_2025\<rparr>"

definition empty_history :: history where
  "empty_history = \<lparr>hs_rows = [], hs_next = 1, hs_ttl = DefaultTTL, hs_maxRows = DefaultMaxMessages\<rparr>"

theorem history_table_refines_instants_witness:
  "table_Append no_history_faults year_2025 ''max'' hello_row (table_of empty_history)
     = (Ok (), table_of (snd (history_Append no_history_faults year_2025 ''max'' hello_row empty_history)))
   \<and> map sr_sent_at (ht_rows (snd (table_Append no_history_faults year_2025 ''max'' hello_row (table_of empty_history))))
     = [''2025-01-01T03:00:00.000000000Z'']"
proof -
  let ?o = "\<lparr>qo_Conversation = '''', qo_From = None, qo_To = None\<rparr>"
  have e: "\<forall>r \<in> set (hs_rows empty_history). row_stampable r" by (simp add: empty_history_def)
  have s: "stampable year_2025" "stampable (year_2025 - hs_ttl empty_history)"
    "stampable (msg_SentAt hello_row)" "stampable (msg_ReceivedAt hello_row)" by code_simp+
  have o: "stampable_options ?o" by (simp add: stampable_options_def)
  have "fst (history_Append no_history_faults year_2025 ''max'' hello_row empty_history) = Ok ()"
    "map sr_sent_at (ht_rows (snd (table_Append no_history_faults year_2025 ''max'' hello_row (table_of empty_history))))
     = [''2025-01-01T03:00:00.000000000Z'']" by code_simp+
  then show ?thesis using history_table_refines_instants [OF e s o, of no_history_faults "''max''"] by simp
qed


end
