(* ===== verification/Migrate.thy ===== *)
theory Migrate
  imports Prelude
begin

text \<open>
  \<^verbatim>\<open>src/internal/store/migrate.go\<close> and \<^verbatim>\<open>store.go\<close>: the schema sequence both databases start
  with.  The database is its tables (name and column definitions), its indexes
  and the version ledger; a data definition statement fails when its name is taken
  or its table is missing, as SQLite's do, and every call may fail besides.  A
  transaction that does not commit leaves the database as it was.
\<close>

section \<open>Operations\<close>

datatype ddl = CREATE_TABLE string "string list" | CREATE_INDEX string string "string list"

record schema =
  sc_tables :: "(string \<times> string list) list"
  sc_indexes :: "(string \<times> string \<times> string list) list"

record database =
  db_schema :: schema
  db_ledger :: "(int \<times> string \<times> time) list"

definition exec_ddl :: "ddl \<Rightarrow> schema \<Rightarrow> schema option" where
  "exec_ddl d s = (case d of
      CREATE_TABLE name cols \<Rightarrow>
        (if map_of (sc_tables s) name \<noteq> None \<or> map_of (sc_indexes s) name \<noteq> None then None
         else Some (s\<lparr>sc_tables := sc_tables s @ [(name, cols)]\<rparr>))
    | CREATE_INDEX name table cols \<Rightarrow>
        (if map_of (sc_tables s) table = None \<or> map_of (sc_tables s) name \<noteq> None \<or> map_of (sc_indexes s) name \<noteq> None
         then None else Some (s\<lparr>sc_indexes := sc_indexes s @ [(name, table, cols)]\<rparr>)))"

record migration =
  mg_version :: int
  mg_name :: string
  mg_stmts :: "ddl list"

definition migrations :: "migration list" where
  "migrations =
    [\<lparr>mg_version = 1, mg_name = ''create-presence-tables'', mg_stmts =
       [CREATE_TABLE ''presence_liveness'' [''device TEXT PRIMARY KEY'', ''last_seen TEXT NOT NULL''],
        CREATE_TABLE ''presence_status'' [''device TEXT PRIMARY KEY'', ''status TEXT NOT NULL'', ''updated_at TEXT NOT NULL'']]\<rparr>,
     \<lparr>mg_version = 2, mg_name = ''create-offline-queue-tables'', mg_stmts =
       [CREATE_TABLE ''queue_inbox'' [''recipient TEXT NOT NULL'', ''position INTEGER NOT NULL'', ''message_id TEXT NOT NULL'',
          ''body BLOB NOT NULL'', ''enqueued_at TEXT NOT NULL'', ''PRIMARY KEY (recipient, position)''],
        CREATE_TABLE ''queue_cursor'' [''recipient TEXT PRIMARY KEY'', ''next_position INTEGER NOT NULL'',
          ''acked_position INTEGER NOT NULL'']]\<rparr>,
     \<lparr>mg_version = 3, mg_name = ''create-outbox-table'', mg_stmts =
       [CREATE_TABLE ''outbox_message'' [''seq INTEGER PRIMARY KEY AUTOINCREMENT'', ''message_id TEXT NOT NULL UNIQUE'',
          ''envelope BLOB NOT NULL'', ''queued_at TEXT NOT NULL'']]\<rparr>,
     \<lparr>mg_version = 4, mg_name = ''create-history-table'', mg_stmts =
       [CREATE_TABLE ''history_message'' [''seq INTEGER PRIMARY KEY AUTOINCREMENT'', ''message_id TEXT NOT NULL UNIQUE'',
          ''conversation TEXT NOT NULL'', ''sender TEXT NOT NULL'', ''recipient TEXT NOT NULL'', ''body TEXT NOT NULL'',
          ''sent_at TEXT NOT NULL'', ''received_at TEXT NOT NULL'', ''stored_at TEXT NOT NULL''],
        CREATE_INDEX ''history_message_conversation'' ''history_message'' [''conversation'', ''seq'']]\<rparr>]"

text \<open>The calls that may fail, the statements by their index.\<close>

datatype mg_call = MgLedger | MgRead | MgBegin int | MgStmt int nat | MgRecord int | MgCommit int

datatype mg_error = EnsureLedger | ReadLedger | NotContiguous int | LedgerBeyondEnd int int
  | BeginFailed int | StmtFailed int nat | RecordFailed int | CommitFailed int

fun run_stmts :: "(mg_call \<Rightarrow> bool) \<Rightarrow> int \<Rightarrow> nat \<Rightarrow> ddl list \<Rightarrow> schema \<Rightarrow> (mg_error, schema) result" where
  "run_stmts fails v i [] s = Ok s"
| "run_stmts fails v i (d # ds) s =
     (if fails (MgStmt v i) then Err (StmtFailed v (i + 1))
      else case exec_ddl d s of
        None \<Rightarrow> Err (StmtFailed v (i + 1))
      | Some s1 \<Rightarrow> run_stmts fails v (i + 1) ds s1)"

definition applyOne :: "(mg_call \<Rightarrow> bool) \<Rightarrow> time \<Rightarrow> migration \<Rightarrow> database \<Rightarrow> (mg_error, database) result" where
  "applyOne fails now m db =
     (let v = mg_version m in
      if fails (MgBegin v) then Err (BeginFailed v)
      else case run_stmts fails v 0 (mg_stmts m) (db_schema db) of
        Inl e \<Rightarrow> Err e
      | Inr s \<Rightarrow>
          (if fails (MgRecord v) \<or> v \<in> fst ` set (db_ledger db) then Err (RecordFailed v)
           else if fails (MgCommit v) then Err (CommitFailed v)
           else Ok \<lparr>db_schema = s, db_ledger = db_ledger db @ [(v, mg_name m, now)]\<rparr>))"

definition recorded_version :: "database \<Rightarrow> int" where
  "recorded_version db = fold max (map fst (db_ledger db)) 0"

fun contiguous_from :: "int \<Rightarrow> migration list \<Rightarrow> mg_error option" where
  "contiguous_from n [] = None"
| "contiguous_from n (m # ms) =
     (if mg_version m \<noteq> n then Some (NotContiguous (mg_version m)) else contiguous_from (n + 1) ms)"

fun apply_pending :: "(mg_call \<Rightarrow> bool) \<Rightarrow> time \<Rightarrow> int \<Rightarrow> migration list \<Rightarrow> database \<Rightarrow> (mg_error, unit) result \<times> database" where
  "apply_pending fails now recorded [] db = (Ok (), db)"
| "apply_pending fails now recorded (m # ms) db =
     (if mg_version m \<le> recorded then apply_pending fails now recorded ms db
      else case applyOne fails now m db of
        Inl e \<Rightarrow> (Err e, db)
      | Inr db1 \<Rightarrow> apply_pending fails now recorded ms db1)"

definition applyMigrations ::
  "(mg_call \<Rightarrow> bool) \<Rightarrow> time \<Rightarrow> migration list \<Rightarrow> database \<Rightarrow> (mg_error, unit) result \<times> database" where
  "applyMigrations fails now ms db =
     (if fails MgLedger then (Err EnsureLedger, db)
      else if fails MgRead then (Err ReadLedger, db)
      else let recorded = recorded_version db in
        case contiguous_from 1 ms of
          Some e \<Rightarrow> (Err e, db)
        | None \<Rightarrow>
            (if ms \<noteq> [] \<and> recorded > mg_version (last ms) then (Err (LedgerBeyondEnd recorded (mg_version (last ms))), db)
             else apply_pending fails now recorded ms db))"

definition store_migrate :: "(mg_call \<Rightarrow> bool) \<Rightarrow> time \<Rightarrow> database \<Rightarrow> (mg_error, unit) result \<times> database" where
  "store_migrate fails now db = applyMigrations fails now migrations db"

definition SchemaVersion :: "database \<Rightarrow> int" where "SchemaVersion db = recorded_version db"

definition empty_database :: database where
  "empty_database = \<lparr>db_schema = \<lparr>sc_tables = [], sc_indexes = []\<rparr>, db_ledger = []\<rparr>"

section \<open>Clean versions\<close>

abbreviation no_mg_faults :: "mg_call \<Rightarrow> bool" where "no_mg_faults \<equiv> \<lambda>_. False"

fun exec_all :: "ddl list \<Rightarrow> schema \<Rightarrow> schema option" where
  "exec_all [] s = Some s"
| "exec_all (d # ds) s = (case exec_ddl d s of None \<Rightarrow> None | Some s1 \<Rightarrow> exec_all ds s1)"

definition steps :: "migration list \<Rightarrow> ddl list" where "steps ms = concat (map mg_stmts ms)"

text \<open>The database is exactly what the first \<open>k\<close> migrations make of an empty one.\<close>

definition at_version :: "migration list \<Rightarrow> nat \<Rightarrow> database \<Rightarrow> bool" where
  "at_version ms k db \<longleftrightarrow> k \<le> length ms
     \<and> exec_all (steps (take k ms)) (db_schema empty_database) = Some (db_schema db)
     \<and> map (\<lambda>(v, n, t). (v, n)) (db_ledger db) = map (\<lambda>m. (mg_version m, mg_name m)) (take k ms)"

lemma exec_all_append: "exec_all (xs @ ys) s = Option.bind (exec_all xs s) (exec_all ys)"
  by (induction xs arbitrary: s) (auto split: option.split)

lemma run_stmts_ok: "run_stmts fails v i ds s = Ok s' \<Longrightarrow> exec_all ds s = Some s'"
  by (induction ds arbitrary: i s) (auto split: if_splits option.splits)

lemma run_stmts_no_faults: "run_stmts no_mg_faults v i ds s = Ok s' \<longleftrightarrow> exec_all ds s = Some s'"
  by (induction ds arbitrary: i s) (auto split: option.splits)

lemma contiguous_nth: "contiguous_from n ms = None \<Longrightarrow> i < length ms \<Longrightarrow> mg_version (ms ! i) = n + int i"
  by (induction n ms arbitrary: i rule: contiguous_from.induct) (auto simp: nth_Cons' split: if_splits)

lemma fold_max_upto: "fold max [1..int k] (0 :: int) = int k"
proof (induction k)
  case (Suc k)
  have "[1..int (Suc k)] = [1..int k] @ [int (Suc k)]" by (simp add: upto_rec2)
  then show ?case using Suc by simp
qed simp

lemma at_version_versions:
  assumes "contiguous_from 1 ms = None" "at_version ms k db"
  shows "map fst (db_ledger db) = [1..int k]" "recorded_version db = int k"
proof -
  have "map fst (db_ledger db) = map mg_version (take k ms)"
    using assms(2) by (auto simp: at_version_def list_eq_iff_nth_eq split_beta)
  also have "\<dots> = [1..int k]"
    using contiguous_nth [OF assms(1)] assms(2)
    by (intro nth_equalityI) (auto simp: at_version_def nth_upto)
  finally show "map fst (db_ledger db) = [1..int k]" .
  then show "recorded_version db = int k" by (simp add: recorded_version_def fold_max_upto)
qed

lemma exec_prefix: "exec_all (steps ms) s \<noteq> None \<Longrightarrow> exec_all (steps (take k ms)) s \<noteq> None"
  using append_take_drop_id [of k ms] exec_all_append [of "steps (take k ms)" "steps (drop k ms)" s]
  by (cases "exec_all (steps (take k ms)) s") (auto simp: steps_def simp flip: concat_append map_append)

section \<open>Each step is all or nothing\<close>

lemma applyOne_version:
  assumes "at_version ms k db" "k < length ms" "applyOne fails now (ms ! k) db = Ok db1"
  shows "at_version ms (Suc k) db1"
proof -
  have "run_stmts fails (mg_version (ms ! k)) 0 (mg_stmts (ms ! k)) (db_schema db) = Ok (db_schema db1)"
    and "db_ledger db1 = db_ledger db @ [(mg_version (ms ! k), mg_name (ms ! k), now)]"
    using assms(3) by (auto simp: applyOne_def Let_def split: if_splits sum.splits)
  moreover have "take (Suc k) ms = take k ms @ [ms ! k]" using assms(2) by (rule take_Suc_conv_app_nth)
  ultimately show ?thesis using assms(1,2) run_stmts_ok
    by (fastforce simp: at_version_def steps_def exec_all_append)
qed

lemma apply_pending_skip:
  "\<forall>m \<in> set xs. mg_version m \<le> recorded \<Longrightarrow> apply_pending fails now recorded (xs @ ys) db = apply_pending fails now recorded ys db"
  by (induction xs) auto

lemma apply_pending_run:
  assumes c: "contiguous_from 1 ms = None"
  shows "at_version ms k db \<Longrightarrow> recorded \<le> int k \<Longrightarrow> apply_pending fails now recorded (drop k ms) db = (r, db') \<Longrightarrow>
     \<exists>k' \<ge> k. at_version ms k' db' \<and> (r = Ok () \<longrightarrow> k' = length ms)"
proof (induction "length ms - k" arbitrary: k db)
  case 0
  then have "drop k ms = []" "k = length ms" by (auto simp: at_version_def)
  then show ?case using 0 by auto
next
  case (Suc n)
  then have k: "k < length ms" by simp
  then have d: "drop k ms = ms ! k # drop (Suc k) ms" by (simp add: Cons_nth_drop_Suc)
  have v: "mg_version (ms ! k) = 1 + int k" by (rule contiguous_nth [OF c k])
  show ?case
  proof (cases "applyOne fails now (ms ! k) db")
    case (Inl e)
    then have "db' = db \<and> r \<noteq> Ok ()" using Suc.prems(2,3) d v by auto
    then show ?thesis using Suc.prems(1) by auto
  next
    case (Inr db1)
    then have "at_version ms (Suc k) db1" by (rule applyOne_version [OF Suc.prems(1) k])
    moreover have "apply_pending fails now recorded (drop (Suc k) ms) db1 = (r, db')" using Suc.prems(2,3) d v Inr by simp
    moreover have "n = length ms - Suc k" using Suc.hyps(2) by simp
    ultimately obtain k' where "k' \<ge> Suc k" "at_version ms k' db' \<and> (r = Ok () \<longrightarrow> k' = length ms)"
      using Suc.hyps(1) [of "Suc k" db1] Suc.prems(2) by auto
    then show ?thesis by (intro exI [of _ k']) simp
  qed
qed

lemma apply_pending_complete:
  assumes c: "contiguous_from 1 ms = None" and e: "exec_all (steps ms) (db_schema empty_database) \<noteq> None"
  shows "at_version ms k db \<Longrightarrow> recorded \<le> int k \<Longrightarrow> fst (apply_pending no_mg_faults now recorded (drop k ms) db) = Ok ()"
proof (induction "length ms - k" arbitrary: k db)
  case (Suc n)
  then have k: "k < length ms" by simp
  then have d: "drop k ms = ms ! k # drop (Suc k) ms" by (simp add: Cons_nth_drop_Suc)
  have v: "mg_version (ms ! k) = 1 + int k" by (rule contiguous_nth [OF c k])
  have "exec_all (steps (take (Suc k) ms)) (db_schema empty_database) \<noteq> None" by (rule exec_prefix [OF e])
  then obtain s where s: "exec_all (mg_stmts (ms ! k)) (db_schema db) = Some s"
    using Suc.prems(1) k by (auto simp: take_Suc_conv_app_nth steps_def exec_all_append at_version_def)
  have "mg_version (ms ! k) \<notin> fst ` set (db_ledger db)"
    using at_version_versions(1) [OF c Suc.prems(1)] v by (metis atLeastAtMost_iff image_set not_less set_upto zless_add1_eq add.commute order_refl)
  then obtain db1 where a: "applyOne no_mg_faults now (ms ! k) db = Ok db1"
    using s by (auto simp: applyOne_def Let_def run_stmts_no_faults [THEN iffD2, OF s])
  then show ?case
    using applyOne_version [OF Suc.prems(1) k a] Suc.hyps(1) [of "Suc k" db1] Suc.hyps(2) Suc.prems(2) d v by simp
qed (auto simp: at_version_def)

lemma applyMigrations_pending:
  assumes "contiguous_from 1 ms = None" "at_version ms k db" "\<not> fails MgLedger" "\<not> fails MgRead"
  shows "applyMigrations fails now ms db = apply_pending fails now (int k) (drop k ms) db"
proof -
  have rec: "recorded_version db = int k" by (rule at_version_versions(2) [OF assms(1,2)])
  have "mg_version m \<le> int k" if "m \<in> set (take k ms)" for m
    using that contiguous_nth [OF assms(1)] by (auto simp: in_set_conv_nth)
  then have "apply_pending fails now (int k) ms db = apply_pending fails now (int k) (drop k ms) db"
    using apply_pending_skip [of "take k ms" "int k" fails now "drop k ms" db] by simp
  moreover have "ms = [] \<or> int k \<le> mg_version (last ms)"
    using contiguous_nth [OF assms(1), of "length ms - 1"] assms(2) by (cases ms) (auto simp: last_conv_nth at_version_def)
  ultimately show ?thesis using assms(1,3,4) rec by (auto simp: applyMigrations_def Let_def)
qed

text \<open>
  C15. The schema is never half-migrated and every start converges: from any
  clean version, whatever call fails, a run of the migrations leaves the database
  at a clean version that is not older, with the ledger naming exactly the steps
  applied; success means the newest version; and a later run without failures
  reaches it, with the same schema a fresh database gets in one run.
\<close>

theorem migrations_are_atomic_and_converge:
  assumes "contiguous_from 1 ms = None" "exec_all (steps ms) (db_schema empty_database) \<noteq> None"
    and "at_version ms k db" "applyMigrations fails now ms db = (r, db')"
  shows "(\<exists>k' \<ge> k. at_version ms k' db' \<and> (r = Ok () \<longrightarrow> k' = length ms))
       \<and> (\<exists>db''. applyMigrations no_mg_faults later ms db' = (Ok (), db'') \<and> at_version ms (length ms) db''
            \<and> db_schema db'' = db_schema (snd (applyMigrations no_mg_faults now ms empty_database))
            \<and> applyMigrations no_mg_faults later ms db'' = (Ok (), db''))"
proof -
  have full: "\<exists>d'. applyMigrations no_mg_faults t ms d = (Ok (), d') \<and> at_version ms (length ms) d'" if v: "at_version ms j d" for j d t
  proof -
    have p: "applyMigrations no_mg_faults t ms d = apply_pending no_mg_faults t (int j) (drop j ms) d"
      by (rule applyMigrations_pending [OF assms(1) v]) simp_all
    obtain d' where d': "apply_pending no_mg_faults t (int j) (drop j ms) d = (Ok (), d')"
      using apply_pending_complete [OF assms(1,2) v, of "int j" t] by (metis order_refl prod.collapse)
    then show ?thesis using apply_pending_run [OF assms(1) v order_refl d'] p by auto
  qed
  have 1: "\<exists>k' \<ge> k. at_version ms k' db' \<and> (r = Ok () \<longrightarrow> k' = length ms)"
  proof (cases "fails MgLedger \<or> fails MgRead")
    case True
    then have "db' = db \<and> r \<noteq> Ok ()" using assms(4) by (auto simp: applyMigrations_def split: if_splits)
    then show ?thesis using assms(3) by auto
  next
    case False
    then show ?thesis using applyMigrations_pending [OF assms(1,3)] assms(4) apply_pending_run [OF assms(1,3) order_refl] by simp
  qed
  then obtain k' where k': "at_version ms k' db'" by blast
  obtain d2 where d2: "applyMigrations no_mg_faults later ms db' = (Ok (), d2)" "at_version ms (length ms) d2" using full [OF k'] by blast
  have "at_version ms 0 empty_database" by (simp add: at_version_def steps_def empty_database_def)
  from full [OF this, of now] obtain d0 where d0: "applyMigrations no_mg_faults now ms empty_database = (Ok (), d0)"
    "at_version ms (length ms) d0" by blast
  have "applyMigrations no_mg_faults later ms d2 = (Ok (), d2)"
    using applyMigrations_pending [OF assms(1) d2(2), of no_mg_faults later] by simp
  then show ?thesis using 1 d2 d0 by (auto simp: at_version_def)
qed

theorem migrations_are_atomic_and_converge_witness:
  "let (r, db) = store_migrate (\<lambda>c. c = MgStmt 4 1) 10 empty_database in
     r = Err (StmtFailed 4 2) \<and> SchemaVersion db = 3
     \<and> (\<exists>db''. applyMigrations no_mg_faults 20 migrations db = (Ok (), db'') \<and> at_version migrations 4 db'')"
proof -
  have c: "contiguous_from 1 migrations = None" by code_simp
  have e: "exec_all (steps migrations) (db_schema empty_database) \<noteq> None" by code_simp
  have v: "at_version migrations 0 empty_database" by (simp add: at_version_def steps_def empty_database_def)
  have r: "fst (store_migrate (\<lambda>c. c = MgStmt 4 1) 10 empty_database) = Err (StmtFailed 4 2)"
    "SchemaVersion (snd (store_migrate (\<lambda>c. c = MgStmt 4 1) 10 empty_database)) = 3" by code_simp+
  have "length migrations = 4" by (simp add: migrations_def)
  then show ?thesis
    using migrations_are_atomic_and_converge [OF c e v, of "\<lambda>c. c = MgStmt 4 1" 10 "fst (store_migrate (\<lambda>c. c = MgStmt 4 1) 10 empty_database)"
        "snd (store_migrate (\<lambda>c. c = MgStmt 4 1) 10 empty_database)" 20] r
    by (auto simp: split_beta store_migrate_def)
qed

end
