(* ===== verification/StoreOpen.thy ===== *)
theory StoreOpen
  imports Migrate History
begin

unbundle bit_operations_syntax

text \<open>
  \<^verbatim>\<open>Open\<close> of \<^verbatim>\<open>src/internal/store/store.go\<close> and of \<^verbatim>\<open>src/internal/history/history.go\<close> against the file
  system: permissions are nine-bit words, a created file or directory gets the requested
  mode less the umask, \<^verbatim>\<open>chmod\<close> sets the mode exactly.  Each call may fail.  The tables' rows are part of the file.
\<close>

section \<open>Files\<close>











section \<open>Open\<close>






section \<open>Properties\<close>







end
