(* ===== verification/Startup.thy ===== *)
theory Startup
  imports Ops Machine
begin

text \<open>
  \<^verbatim>\<open>run\<close> of \<^verbatim>\<open>src/cmd/walkie-coordinator/main.go\<close> and \<^verbatim>\<open>runClient\<close> of \<^verbatim>\<open>src/cmd/walkie/main.go\<close>: the order in which
  the two programs open their parts, and the deferred calls that close them.  A run is the
  list of what it did; which step fails is an argument.  The parts themselves are modelled in their
  own theories.
\<close>

section \<open>Deferred calls\<close>

datatype 'p run_action = Opened 'p | Failed 'p | Closed 'p | Runs string | Warns string

text \<open>A step whose close is deferred, and one without; both return the error of a failed call.\<close>

definition acquire :: "('p \<Rightarrow> bool) \<Rightarrow> 'p \<Rightarrow> 'e \<Rightarrow> 'p run_action list \<times> ('e, unit) result \<Rightarrow> 'p run_action list \<times> ('e, unit) result" where
  "acquire fails p e rest =
     (if fails p then ([Failed p], Err e) else (Opened p # fst rest @ [Closed p], snd rest))"

definition trying :: "('p \<Rightarrow> bool) \<Rightarrow> 'p \<Rightarrow> 'e \<Rightarrow> 'p run_action list \<times> ('e, unit) result \<Rightarrow> 'p run_action list \<times> ('e, unit) result" where
  "trying fails p e rest = (if fails p then ([Failed p], Err e) else (Opened p # fst rest, snd rest))"

text \<open>A step that cannot fail, with a deferred close.\<close>

definition deferring :: "'p \<Rightarrow> 'p run_action list \<times> ('e, unit) result \<Rightarrow> 'p run_action list \<times> ('e, unit) result" where
  "deferring p rest = (Opened p # fst rest @ [Closed p], snd rest)"

section \<open>The coordinator\<close>

datatype coord_part = CpStore | CpTracker | CpKeystore | CpQueue | CpNode | CpJoin | CpSignals | CpControlListener | CpObsListener

datatype serve_outcome = ServeClean | ServeDrainIncomplete | ServeError

datatype run_error = RunConfig coord_error | RunPart coord_part | RunServe

definition coordinator_serve :: "serve_outcome \<Rightarrow> bool \<Rightarrow> coord_part run_action list \<times> (run_error, unit) result" where
  "coordinator_serve outcome obs_stopped =
     (let begun = [Runs ''observability'', Runs ''ready'', Runs ''serve'']
      in case outcome of
           ServeDrainIncomplete \<Rightarrow> (begun @ [Warns ''shutdown incomplete: connections outlived grace window''], Ok ())
         | ServeError \<Rightarrow> (begun, Err RunServe)
         | ServeClean \<Rightarrow> (begun @ (if obs_stopped then [] else [Warns ''observability server did not stop within budget'']) @ [Runs ''shutdown complete''], Ok ()))"

definition coordinator_run ::
  "(coord_part \<Rightarrow> bool) \<Rightarrow> serve_outcome \<Rightarrow> bool \<Rightarrow> (coord_error, coord_config) result \<Rightarrow> coord_part run_action list \<times> (run_error, unit) result" where
  "coordinator_run fails outcome obs_stopped cfg =
     (case cfg of
        Inl e \<Rightarrow> ([], Err (RunConfig e))
      | Inr c \<Rightarrow>
          acquire fails CpStore (RunPart CpStore) (
          acquire fails CpTracker (RunPart CpTracker) (
          acquire fails CpKeystore (RunPart CpKeystore) (
          acquire fails CpQueue (RunPart CpQueue) (
          deferring CpNode (
          trying fails CpJoin (RunPart CpJoin) (
          deferring CpSignals (
          trying fails CpControlListener (RunPart CpControlListener) (
          trying fails CpObsListener (RunPart CpObsListener) (
          coordinator_serve outcome obs_stopped))))))))))"

section \<open>The client\<close>

datatype client_part = ClHistory | ClIdentity | ClBoxStore | ClOutbox | ClMachine | ClClient | ClSocket | ClRunning | ClPumps | ClScreen

text \<open>\<open>socket\<close> is whether a socket path is configured; a socket that does not start is a warning.  \<open>ClRunning\<close> is the
  started client with its deferred \<^verbatim>\<open>Stop\<close>, \<open>ClPumps\<close> the deferred \<^verbatim>\<open>Close\<close> of the machine.\<close>

definition client_screen :: "(client_part \<Rightarrow> bool) \<Rightarrow> client_part run_action list \<times> (client_part, unit) result" where
  "client_screen fails =
     (Runs ''subscribe'' # fst (deferring ClRunning (deferring ClPumps (trying fails ClScreen ClScreen ([], Ok ())))),
      snd (deferring ClRunning (deferring ClPumps (trying fails ClScreen ClScreen ([], Ok ())))))"

definition runClient :: "(client_part \<Rightarrow> bool) \<Rightarrow> bool \<Rightarrow> client_part run_action list \<times> (client_part, unit) result" where
  "runClient fails socket =
     acquire fails ClHistory ClHistory (
     acquire fails ClIdentity ClIdentity (
     acquire fails ClBoxStore ClBoxStore (
     trying fails ClOutbox ClOutbox (
     trying fails ClMachine ClMachine (
     trying fails ClClient ClClient (
       if \<not> socket then client_screen fails
       else if fails ClSocket
       then (Warns ''control socket disabled'' # fst (client_screen fails), snd (client_screen fails))
       else deferring ClSocket (client_screen fails)))))))"

section \<open>Brackets\<close>

fun opened :: "'p run_action list \<Rightarrow> 'p list" where
  "opened [] = []"
| "opened (Opened p # as) = p # opened as"
| "opened (_ # as) = opened as"

fun closed :: "'p run_action list \<Rightarrow> 'p list" where
  "closed [] = []"
| "closed (Closed p # as) = p # closed as"
| "closed (_ # as) = closed as"

lemma opened_append [simp]: "opened (xs @ ys) = opened xs @ opened ys"
  by (induction xs rule: opened.induct) simp_all

lemma closed_append [simp]: "closed (xs @ ys) = closed xs @ closed ys"
  by (induction xs rule: closed.induct) simp_all

text \<open>The deferred calls run in the reverse order of what was opened, but for the parts in \<open>free\<close>, which
  nothing closes.\<close>

definition bracketed :: "'p set \<Rightarrow> 'p run_action list \<Rightarrow> bool" where
  "bracketed free as \<longleftrightarrow> closed as = rev (filter (\<lambda>p. p \<notin> free) (opened as))"

lemma bracketed_acquire: "bracketed free (fst rest) \<Longrightarrow> p \<notin> free \<Longrightarrow> bracketed free (fst (acquire fails p e rest))"
  by (simp add: bracketed_def acquire_def)

lemma bracketed_trying: "bracketed free (fst rest) \<Longrightarrow> p \<in> free \<Longrightarrow> bracketed free (fst (trying fails p e rest))"
  by (simp add: bracketed_def trying_def)

lemma bracketed_deferring: "bracketed free (fst rest) \<Longrightarrow> p \<notin> free \<Longrightarrow> bracketed free (fst (deferring p rest))"
  by (simp add: bracketed_def deferring_def)

lemma bracketed_other [simp]: "bracketed free (Runs s # as) = bracketed free as" "bracketed free (Warns s # as) = bracketed free as" "bracketed free []"
  by (simp_all add: bracketed_def)

lemmas bracketed_intros = bracketed_acquire bracketed_trying bracketed_deferring

lemma bracketed_serve: "bracketed free (fst (coordinator_serve outcome obs_stopped))"
  by (cases outcome) (simp_all add: coordinator_serve_def Let_def bracketed_def)

lemma bracketed_screen: "{ClScreen} \<subseteq> free \<Longrightarrow> ClRunning \<notin> free \<Longrightarrow> ClPumps \<notin> free \<Longrightarrow> bracketed free (fst (client_screen fails))"
  by (simp add: client_screen_def bracketed_intros)

section \<open>Properties\<close>

definition coord_order :: "coord_part list" where
  "coord_order = [CpStore, CpTracker, CpKeystore, CpQueue, CpNode, CpJoin, CpSignals, CpControlListener, CpObsListener]"

definition may_fail :: "(coord_part \<Rightarrow> bool) \<Rightarrow> coord_part \<Rightarrow> bool" where
  "may_fail fails p \<longleftrightarrow> fails p \<and> p \<notin> {CpNode, CpSignals}"

lemma opened_order: "opened (fst (coordinator_run fails outcome obs_stopped (Inr c))) = takeWhile (\<lambda>p. \<not> may_fail fails p) coord_order"
  by (cases outcome) (simp_all add: coordinator_run_def coord_order_def acquire_def trying_def deferring_def coordinator_serve_def Let_def may_fail_def)

text \<open>
  The coordinator starts in one order and stops in the reverse one: on every path the parts it
  opened are the prefix of its order up to the first failure, so nothing touches the
  network before all local state is open; everything it opened is closed, in reverse; the
  process claims readiness only when every part is open, and it ends without an error
  exactly if nothing failed and serving ended cleanly or with an incomplete drain.
\<close>

theorem coordinator_starts_and_stops_in_order:
  assumes "coordinator_run fails outcome obs_stopped (Inr c) = (tr, r)"
  shows "opened tr = takeWhile (\<lambda>p. \<not> may_fail fails p) coord_order
       \<and> closed tr = rev (filter (\<lambda>p. p \<notin> {CpJoin, CpControlListener, CpObsListener}) (opened tr))
       \<and> (Runs ''ready'' \<in> set tr \<longleftrightarrow> opened tr = coord_order)
       \<and> (is_ok r \<longleftrightarrow> opened tr = coord_order \<and> outcome \<noteq> ServeError)"
proof -
  have tr: "tr = fst (coordinator_run fails outcome obs_stopped (Inr c))" "r = snd (coordinator_run fails outcome obs_stopped (Inr c))" using assms by simp_all
  have "bracketed {CpJoin, CpControlListener, CpObsListener} tr"
    unfolding tr coordinator_run_def by (simp add: bracketed_intros bracketed_serve)
  moreover have "Runs ''ready'' \<in> set tr \<longleftrightarrow> (\<forall>p \<in> set coord_order. \<not> may_fail fails p)"
    unfolding tr by (cases outcome) (auto simp: coordinator_run_def coord_order_def acquire_def trying_def deferring_def coordinator_serve_def Let_def may_fail_def)
  moreover have "is_ok r \<longleftrightarrow> (\<forall>p \<in> set coord_order. \<not> may_fail fails p) \<and> outcome \<noteq> ServeError"
    unfolding tr by (cases outcome) (auto simp: coordinator_run_def coord_order_def acquire_def trying_def deferring_def coordinator_serve_def Let_def may_fail_def)
  moreover have "takeWhile (\<lambda>p. \<not> may_fail fails p) coord_order = coord_order \<longleftrightarrow> (\<forall>p \<in> set coord_order. \<not> may_fail fails p)"
    by (rule takeWhile_eq_all_conv)
  ultimately show ?thesis using opened_order tr(1) by (simp add: bracketed_def)
qed
text \<open>
  The client opens its local state before any connection attempt, closes everything it opened in the reverse
  order whatever fails, and a control socket that does not start only costs a warning.
\<close>

theorem client_starts_and_stops_in_order:
  assumes "runClient fails socket = (tr, r)"
  shows "closed tr = rev (filter (\<lambda>p. p \<notin> {ClOutbox, ClMachine, ClClient, ClScreen}) (opened tr))
       \<and> (ClRunning \<in> set (opened tr) \<longrightarrow> take 6 (opened tr) = [ClHistory, ClIdentity, ClBoxStore, ClOutbox, ClMachine, ClClient])
       \<and> (is_ok r \<longleftrightarrow> (\<forall>p \<in> {ClHistory, ClIdentity, ClBoxStore, ClOutbox, ClMachine, ClClient, ClScreen}. \<not> fails p))
       \<and> (Warns ''control socket disabled'' \<in> set tr \<longrightarrow> ClRunning \<in> set (opened tr))"
proof -
  have tr: "tr = fst (runClient fails socket)" "r = snd (runClient fails socket)" using assms by simp_all
  have "bracketed {ClOutbox, ClMachine, ClClient, ClScreen} tr"
    unfolding tr runClient_def by (simp add: bracketed_intros bracketed_screen)
  moreover have "ClRunning \<in> set (opened tr) \<longrightarrow> take 6 (opened tr) = [ClHistory, ClIdentity, ClBoxStore, ClOutbox, ClMachine, ClClient]"
    unfolding tr by (simp add: runClient_def acquire_def trying_def deferring_def client_screen_def)
  moreover have "is_ok r \<longleftrightarrow> (\<forall>p \<in> {ClHistory, ClIdentity, ClBoxStore, ClOutbox, ClMachine, ClClient, ClScreen}. \<not> fails p)"
    unfolding tr by (simp add: runClient_def acquire_def trying_def deferring_def client_screen_def)
  moreover have "Warns ''control socket disabled'' \<in> set tr \<longrightarrow> ClRunning \<in> set (opened tr)"
    unfolding tr by (simp add: runClient_def acquire_def trying_def deferring_def client_screen_def)
  ultimately show ?thesis by (simp add: bracketed_def)
qed

text \<open>
  On the way out the machine is closed before the client is stopped, and a closed
  machine refuses every change: no subscriber hears of the disconnection that stopping the client makes.
\<close>

theorem exit_hides_the_last_change:
  assumes "runClient fails socket = (tr, r)" "ClRunning \<in> set (opened tr)"
  shows "take 2 (closed tr) = [ClPumps, ClRunning]
       \<and> Transition now to reason (machine_Close m) = (MachineClosed, machine_Close m)
       \<and> m_cur (machine_Close m) = m_cur m"
proof -
  have "take 2 (closed tr) = [ClPumps, ClRunning]"
    using assms by (auto simp: runClient_def acquire_def trying_def deferring_def client_screen_def split: if_splits)
  then show ?thesis by (simp add: Transition_def machine_Close_def)
qed

text \<open>
  The offline queue is closed before the presence tracker, and both before the store.
\<close>

theorem queue_closes_before_the_tracker:
  assumes "coordinator_run fails outcome obs_stopped (Inr c) = (tr, r)" "CpQueue \<in> set (opened tr)"
  shows "\<exists>us. closed tr = us @ [CpQueue, CpKeystore, CpTracker, CpStore]"
  using assms
  by (auto simp: coordinator_run_def acquire_def trying_def deferring_def coordinator_serve_def Let_def split: if_splits serve_outcome.splits)

definition sample_coord :: coord_config where
  "sample_coord = \<lparr>cf_authKey = '''', cf_hostname = ''h'', cf_stateDir = ''/s'', cf_storePath = ''/s/db'', cf_controlPort = ''443'',
     cf_obsPort = ''9464'', cf_presenceTTL = second, cf_queueTTL = second, cf_queueMaxSize = 1\<rparr>"

theorem coordinator_starts_and_stops_in_order_witness:
  "\<exists>tr r. coordinator_run (\<lambda>p. p = CpJoin) ServeClean True (Inr sample_coord) = (tr, r)
     \<and> opened tr = [CpStore, CpTracker, CpKeystore, CpQueue, CpNode] \<and> closed tr = [CpNode, CpQueue, CpKeystore, CpTracker, CpStore]
     \<and> Runs ''ready'' \<notin> set tr \<and> r = Err (RunPart CpJoin)"
proof -
  obtain tr r where run: "coordinator_run (\<lambda>p. p = CpJoin) ServeClean True (Inr sample_coord) = (tr, r)" by fastforce
  note o = coordinator_starts_and_stops_in_order [OF run]
  have op: "opened tr = [CpStore, CpTracker, CpKeystore, CpQueue, CpNode]" using o by (simp add: coord_order_def may_fail_def)
  moreover have "r = Err (RunPart CpJoin)" using run by (auto simp: coordinator_run_def acquire_def trying_def deferring_def)
  ultimately show ?thesis using run o by (auto simp: coord_order_def)
qed

theorem client_starts_and_stops_in_order_witness:
  "\<exists>tr. runClient (\<lambda>p. p = ClSocket) True = (tr, Ok ())
     \<and> closed tr = [ClPumps, ClRunning, ClBoxStore, ClIdentity, ClHistory] \<and> Warns ''control socket disabled'' \<in> set tr"
proof -
  obtain tr r where run: "runClient (\<lambda>p. p = ClSocket) True = (tr, r)" by fastforce
  note o = client_starts_and_stops_in_order [OF run]
  have "is_ok r" using o by simp
  moreover have "Warns ''control socket disabled'' \<in> set tr" "opened tr = [ClHistory, ClIdentity, ClBoxStore, ClOutbox, ClMachine, ClClient, ClRunning, ClPumps, ClScreen]"
    using run by (auto simp: runClient_def acquire_def trying_def deferring_def client_screen_def)
  ultimately show ?thesis using run o by (cases r) auto
qed

theorem exit_hides_the_last_change_witness:
  "take 2 (closed (fst (runClient (\<lambda>_. False) True))) = [ClPumps, ClRunning]
   \<and> fst (Transition 5 StateConnecting ''start'' (machine_Close NewMachine)) = MachineClosed"
proof -
  have "ClRunning \<in> set (opened (fst (runClient (\<lambda>_. False) True)))" by code_simp
  from exit_hides_the_last_change [OF prod.collapse [symmetric] this] show ?thesis by simp
qed

theorem queue_closes_before_the_tracker_witness:
  "\<exists>us. closed (fst (coordinator_run (\<lambda>_. False) ServeClean True (Inr sample_coord))) = us @ [CpQueue, CpKeystore, CpTracker, CpStore]"
proof -
  have "CpQueue \<in> set (opened (fst (coordinator_run (\<lambda>_. False) ServeClean True (Inr sample_coord))))" by code_simp
  from queue_closes_before_the_tracker [OF prod.collapse [symmetric] this] show ?thesis .
qed

end
