(* ===== verification/Session.thy ===== *)
theory Session
  imports ServerProps Codec
begin

text \<open>
  \<^verbatim>\<open>src/internal/control/session.go\<close>, the client's side of the WebSocket, against the coordinator's read
  loop, and \<^verbatim>\<open>Serve\<close> of \<^verbatim>\<open>src/internal/coordinator/server.go\<close> with its shutdown.  The WebSocket library and protobuf are
  parameters: \<open>limited\<close> states the documented message read limit of a connection.
\<close>

section \<open>The session\<close>

datatype ws_message = WsText bytes | WsBinary bytes

datatype session_error = DialFailed | SendEncode | SendWrite | RecvReader | RecvText | RecvRead | RecvTooBig nat | RecvDecode

definition maxClientEnvelopeBytes :: nat where "maxClientEnvelopeBytes = 4 * 2 ^ 20"

definition Dial :: "'ws option \<Rightarrow> (session_error, 'ws) result" where
  "Dial dialed = (case dialed of None \<Rightarrow> Err DialFailed | Some ws \<Rightarrow> Ok ws)"


definition unmarshalEnvelope :: "(bytes \<Rightarrow> envelope option) \<Rightarrow> bytes \<Rightarrow> (session_error, envelope) result" where
  "unmarshalEnvelope unmarshal data = (case unmarshal data of None \<Rightarrow> Err RecvDecode | Some env \<Rightarrow> Ok env)"


definition session_Recv ::
  "(nat \<Rightarrow> bytes \<Rightarrow> bytes option) \<Rightarrow> (bytes \<Rightarrow> envelope option) \<Rightarrow> ws_message option \<Rightarrow> (session_error, envelope) result" where
  "session_Recv read unmarshal next =
     (case next of
        None \<Rightarrow> Err RecvReader
      | Some (WsText _) \<Rightarrow> Err RecvText
      | Some (WsBinary m) \<Rightarrow>
          (case read (maxClientEnvelopeBytes + 1) m of
             None \<Rightarrow> Err RecvRead
           | Some data \<Rightarrow>
               if length data > maxClientEnvelopeBytes then Err (RecvTooBig (length data))
               else unmarshalEnvelope unmarshal data))"

text \<open>A connection with read limit \<open>L\<close>: a message within it is read in full, a longer one fails once more than \<open>L\<close>
  bytes of it are asked for.  The library's default limit is 32768.\<close>

definition limited :: "nat \<Rightarrow> (nat \<Rightarrow> bytes \<Rightarrow> bytes option) \<Rightarrow> bool" where
  "limited L read \<longleftrightarrow> (\<forall>n m. (length m \<le> L \<longrightarrow> read n m = Some (take n m)) \<and> (L < length m \<and> L < n \<longrightarrow> read n m = None))"

section \<open>Serving\<close>

text \<open>What the coordinator's read loop sees of the same message.\<close>

definition conn_frame :: "(nat \<Rightarrow> bytes \<Rightarrow> bytes option) \<Rightarrow> ws_message \<Rightarrow> ws_frame" where
  "conn_frame read m =
     (case m of
        WsText _ \<Rightarrow> TextFrame
      | WsBinary b \<Rightarrow> (case read (nat maxEnvelopeBytes + 1) b of None \<Rightarrow> ReadFailed | Some data \<Rightarrow> BinaryFrame data))"

record serving =
  sg_server :: server
  sg_cancelled :: "nat list"

definition liveConns :: "serving \<Rightarrow> nat list" where "liveConns g = sv_conns (sg_server g)"

definition cancel_live :: "serving \<Rightarrow> serving" where
  "cancel_live g = g\<lparr>sg_cancelled := sg_cancelled g @ liveConns g\<rparr>"


datatype serve_error = ServeAccept | ErrDrainIncomplete nat

datatype accept_end = ListenerClosed | ListenerFailed

text \<open>\<^verbatim>\<open>Serve\<close> ends because the listener did, or because its context ended: then the
  drain runs until the handlers are gone or the grace window has passed, \<open>g\<close> being the state at that moment; \<open>late\<close> picks the
  second where both hold.  After the window the live connections are cut and then counted, in a state \<open>g'\<close> in which more
  handlers may have gone.\<close>

definition serve_accept_end :: "accept_end \<Rightarrow> serving \<Rightarrow> (serve_error, unit) result \<times> serving" where
  "serve_accept_end e g = (case e of ListenerClosed \<Rightarrow> (Ok (), g) | ListenerFailed \<Rightarrow> (Err ServeAccept, cancel_live g))"







section \<open>Properties\<close>

lemma recv_binary:
  assumes "limited L read" "length m \<le> L"
  shows "session_Recv read unmarshal (Some (WsBinary m))
    = (if length m > maxClientEnvelopeBytes then Err (RecvTooBig (maxClientEnvelopeBytes + 1)) else unmarshalEnvelope unmarshal m)"
  using assms by (simp add: session_Recv_def limited_def)


text \<open>
  Neither end raises the library's read limit, so with a limit below the size cap the cap's refusal never
  happens: a longer message already fails to be read, and messages between the limit and
  the cap are refused.
\<close>

theorem read_limit_shadows_the_size_cap:
  assumes "limited L read" "L \<le> maxClientEnvelopeBytes"
  shows "session_Recv read unmarshal m \<noteq> Err (RecvTooBig n)
       \<and> (L < length b \<longrightarrow> session_Recv read unmarshal (Some (WsBinary b)) = Err RecvRead
            \<and> serve_frame se c ident (conn_frame read (WsBinary b)) s = (False, s))"
proof -
  have r: "length b \<le> L \<or> read (maxClientEnvelopeBytes + 1) b = None" for b
  proof (cases "length b \<le> L")
    case False
    then show ?thesis using assms by (simp add: limited_def)
  qed simp
  have "session_Recv read unmarshal (Some (WsBinary b)) \<noteq> Err (RecvTooBig n)" for b
    using r [of b] recv_binary [OF assms(1), of b unmarshal] assms(2)
    by (auto simp: session_Recv_def unmarshalEnvelope_def split: option.splits)
  then have "session_Recv read unmarshal m \<noteq> Err (RecvTooBig n)"
    by (auto simp: session_Recv_def split: option.splits ws_message.splits)
  moreover have "nat maxEnvelopeBytes = maxClientEnvelopeBytes" by (simp add: maxEnvelopeBytes_def maxClientEnvelopeBytes_def)
  ultimately show ?thesis using r [of b] by (auto simp: session_Recv_def conn_frame_def serve_frame_def)
qed


text \<open>A connection with the library's default limit.\<close>

definition default_read :: "nat \<Rightarrow> bytes \<Rightarrow> bytes option" where
  "default_read n m = (if 32768 < length m \<and> 32768 < n then None else Some (take n m))"

lemma default_limited: "limited 32768 default_read"
  by (simp add: limited_def default_read_def)

definition one_byte :: "bytes \<Rightarrow> envelope option" where
  "one_byte b = (if b = [7] then Some (envelope_of Heartbeat) else None)"


theorem read_limit_shadows_the_size_cap_witness:
  "session_Recv default_read one_byte (Some (WsBinary (replicate 32769 0))) = Err RecvRead
   \<and> 32769 \<le> maxClientEnvelopeBytes"
proof -
  have "(32768 :: nat) \<le> maxClientEnvelopeBytes" by (simp add: maxClientEnvelopeBytes_def)
  from read_limit_shadows_the_size_cap [OF default_limited this, of one_byte None 0 "replicate 32769 0"]
  show ?thesis by (simp add: maxClientEnvelopeBytes_def)
qed



end
