(* ===== verification/Audio.thy ===== *)
theory Audio
  imports Codec
begin

text \<open>
  \<^verbatim>\<open>src/internal/audio\<close>: the frame format of \<^verbatim>\<open>audio.go\<close>, the constructors of the two build variants, and the
  null backend of \<^verbatim>\<open>null.go\<close>.  Only the null backend does anything: the real one is not wired.
\<close>

section \<open>Format (audio.go)\<close>

definition SampleRate :: nat where "SampleRate = 16000"
definition Channels :: nat where "Channels = 1"
definition FrameSamples :: nat where "FrameSamples = SampleRate div 1000 * 20"
definition FrameBytes :: nat where "FrameBytes = FrameSamples * 2 * Channels"
definition FrameDuration :: duration where "FrameDuration = 20 * 1000000"
definition DefaultBitrate :: nat where "DefaultBitrate = 20000"

datatype audio_error = ErrUnavailable | ErrNotImplemented | ErrShortFrame | ErrClosedPipe | AudioEOF

text \<open>The build variants: with the tag (\<open>voice\<close>) and without.\<close>

definition Available :: "bool \<Rightarrow> bool" where "Available voice = voice"

definition OpenCapture :: "bool \<Rightarrow> (audio_error, 'dev) result" where
  "OpenCapture voice = Err (if voice then ErrNotImplemented else ErrUnavailable)"
definition OpenPlayback :: "bool \<Rightarrow> (audio_error, 'dev) result" where
  "OpenPlayback voice = Err (if voice then ErrNotImplemented else ErrUnavailable)"
definition NewEncoder :: "bool \<Rightarrow> (audio_error, 'dev) result" where
  "NewEncoder voice = Err (if voice then ErrNotImplemented else ErrUnavailable)"
definition NewDecoder :: "bool \<Rightarrow> (audio_error, 'dev) result" where
  "NewDecoder voice = Err (if voice then ErrNotImplemented else ErrUnavailable)"

section \<open>The null backend (null.go)\<close>

record nullCapture =
  nc_remaining :: int
  nc_closed :: bool

definition NewNullCapture :: "int \<Rightarrow> nullCapture" where "NewNullCapture frames = \<lparr>nc_remaining = frames, nc_closed = False\<rparr>"

text \<open>\<^verbatim>\<open>ReadFrame\<close> with the buffer it leaves.\<close>

definition ReadFrame :: "bytes \<Rightarrow> nullCapture \<Rightarrow> (audio_error, nat) result \<times> bytes \<times> nullCapture" where
  "ReadFrame buf c =
     (if nc_closed c then (Err ErrClosedPipe, buf, c)
      else if length buf < FrameBytes then (Err ErrShortFrame, buf, c)
      else if nc_remaining c \<le> 0 then (Err AudioEOF, buf, c)
      else (Ok FrameBytes, replicate FrameBytes 0 @ drop FrameBytes buf, c\<lparr>nc_remaining := nc_remaining c - 1\<rparr>))"

definition capture_Close :: "nullCapture \<Rightarrow> nullCapture" where "capture_Close c = c\<lparr>nc_closed := True\<rparr>"

record NullPlayback =
  np_Frames :: int
  np_Bytes :: int
  np_closed :: bool

definition NewNullPlayback :: NullPlayback where "NewNullPlayback = \<lparr>np_Frames = 0, np_Bytes = 0, np_closed = False\<rparr>"

definition WriteFrame :: "bytes \<Rightarrow> NullPlayback \<Rightarrow> (audio_error, unit) result \<times> NullPlayback" where
  "WriteFrame pcm p =
     (if np_closed p then (Err ErrClosedPipe, p)
      else if length pcm \<noteq> FrameBytes then (Err ErrShortFrame, p)
      else (Ok (), p\<lparr>np_Frames := np_Frames p + 1, np_Bytes := np_Bytes p + int (length pcm)\<rparr>))"

definition playback_Close :: "NullPlayback \<Rightarrow> NullPlayback" where "playback_Close p = p\<lparr>np_closed := True\<rparr>"

definition EncodeFrame :: "bytes \<Rightarrow> bytes \<Rightarrow> (audio_error, bytes) result" where
  "EncodeFrame dst pcm = (if length pcm \<noteq> FrameBytes then Err ErrShortFrame else Ok (dst @ pcm))"

definition DecodeFrame :: "bytes \<Rightarrow> bytes \<Rightarrow> (audio_error, bytes) result" where
  "DecodeFrame dst packet =
     (if packet = [] then Ok (dst @ replicate FrameBytes 0)
      else if length packet \<noteq> FrameBytes then Err ErrShortFrame
      else Ok (dst @ packet))"

section \<open>The pipeline\<close>

text \<open>Capture, encode, decode and play one frame, the flow the null backend exists to exercise.\<close>

definition relay_frame :: "bytes \<Rightarrow> nullCapture \<times> NullPlayback \<Rightarrow> (audio_error, unit) result \<times> (nullCapture \<times> NullPlayback)" where
  "relay_frame buf cp =
     (case ReadFrame buf (fst cp) of
        (Inl e, _, c) \<Rightarrow> (Err e, (c, snd cp))
      | (Inr n, buf', c) \<Rightarrow>
          (case EncodeFrame [] (take n buf') of
             Inl e \<Rightarrow> (Err e, (c, snd cp))
           | Inr packet \<Rightarrow>
               (case DecodeFrame [] packet of
                  Inl e \<Rightarrow> (Err e, (c, snd cp))
                | Inr pcm \<Rightarrow> (case WriteFrame pcm (snd cp) of (r, p) \<Rightarrow> (r, (c, p))))))"

fun relay_all :: "nat \<Rightarrow> bytes \<Rightarrow> nullCapture \<times> NullPlayback \<Rightarrow> (audio_error, unit) result \<times> (nullCapture \<times> NullPlayback)" where
  "relay_all 0 buf cp = (Ok (), cp)"
| "relay_all (Suc n) buf cp =
     (case relay_frame buf cp of (Inl e, cp') \<Rightarrow> (Err e, cp') | (Inr _, cp') \<Rightarrow> relay_all n buf cp')"

lemma FrameBytes_640: "FrameBytes = 640"
  by (simp add: FrameBytes_def FrameSamples_def SampleRate_def Channels_def)

interpretation null_packets: codec id "DecodeFrame []" "\<lambda>pcm. length pcm = FrameBytes"
  by unfold_locales (auto simp: DecodeFrame_def FrameBytes_640)

lemma relay_frame_ok:
  assumes "0 < nc_remaining c" "\<not> nc_closed c" "\<not> np_closed p" "FrameBytes \<le> length buf"
  shows "relay_frame buf (c, p) =
    (Ok (), (c\<lparr>nc_remaining := nc_remaining c - 1\<rparr>, p\<lparr>np_Frames := np_Frames p + 1, np_Bytes := np_Bytes p + 640\<rparr>))"
  using assms null_packets.decode_encode [of "replicate FrameBytes 0"]
  by (simp add: relay_frame_def ReadFrame_def EncodeFrame_def WriteFrame_def FrameBytes_640)

text \<open>
  The null pipeline plays what it captures: a capture of \<open>n\<close> frames relayed frame by frame plays exactly \<open>n\<close> frames of
  640 bytes, 20 milliseconds each at the sample rate, and the next read is the end of the stream, which
  changes nothing; a packet decodes to what was encoded and an empty one to a frame of silence, never to an error.
\<close>

theorem null_pipeline_plays_every_frame:
  assumes "FrameBytes \<le> length buf"
  shows "relay_all n buf (NewNullCapture (int n), NewNullPlayback)
           = (Ok (), (NewNullCapture 0, \<lparr>np_Frames = int n, np_Bytes = int (n * FrameBytes), np_closed = False\<rparr>))
       \<and> relay_frame buf (NewNullCapture 0, p) = (Err AudioEOF, (NewNullCapture 0, p))
       \<and> (EncodeFrame [] pcm = Ok packet \<longrightarrow> DecodeFrame dst packet = Ok (dst @ pcm))
       \<and> DecodeFrame dst [] = Ok (dst @ replicate FrameBytes 0)
       \<and> int FrameSamples * 1000000000 = FrameDuration * int SampleRate"
proof (intro conjI)
  have "relay_all n buf (NewNullCapture (int n), p)
      = (Ok (), (NewNullCapture 0, p\<lparr>np_Frames := np_Frames p + int n, np_Bytes := np_Bytes p + int (n * FrameBytes)\<rparr>))"
    if "\<not> np_closed p" for p
    using that
  proof (induction n arbitrary: p)
    case (Suc n)
    have "relay_frame buf (NewNullCapture (int (Suc n)), p)
        = (Ok (), (NewNullCapture (int n), p\<lparr>np_Frames := np_Frames p + 1, np_Bytes := np_Bytes p + 640\<rparr>))"
      using relay_frame_ok [of "NewNullCapture (int (Suc n))" p buf] Suc.prems assms by (simp add: NewNullCapture_def)
    then show ?case using Suc by (simp add: FrameBytes_640 algebra_simps)
  qed simp
  from this [of NewNullPlayback] show "relay_all n buf (NewNullCapture (int n), NewNullPlayback)
      = (Ok (), (NewNullCapture 0, \<lparr>np_Frames = int n, np_Bytes = int (n * FrameBytes), np_closed = False\<rparr>))"
    by (simp add: NewNullPlayback_def)
qed (use assms in \<open>auto simp: relay_frame_def ReadFrame_def NewNullCapture_def EncodeFrame_def DecodeFrame_def FrameBytes_640 FrameSamples_def
    SampleRate_def FrameDuration_def split: if_splits\<close>)

theorem null_pipeline_plays_every_frame_witness:
  "relay_all 3 (replicate 640 9) (NewNullCapture 3, NewNullPlayback) = (Ok (), (NewNullCapture 0, \<lparr>np_Frames = 3, np_Bytes = 1920, np_closed = False\<rparr>))"
  using null_pipeline_plays_every_frame [of "replicate 640 9" 3] by (simp add: FrameBytes_640)

text \<open>
  A voice build says that audio is available, and none of its constructors succeeds.
\<close>

theorem available_means_nothing_yet:
  "Available True \<and> \<not> is_ok (OpenCapture voice) \<and> \<not> is_ok (OpenPlayback voice) \<and> \<not> is_ok (NewEncoder voice) \<and> \<not> is_ok (NewDecoder voice)"
  by (simp add: Available_def OpenCapture_def OpenPlayback_def NewEncoder_def NewDecoder_def)

end
