(* ===== verification/Cmd.thy ===== *)
theory Cmd
  imports Ops Tui Audio
begin

text \<open>
  \<^verbatim>\<open>src/cmd/walkie/main.go\<close> and \<^verbatim>\<open>help.go\<close>: what the client binary does for which arguments, and its help.  Go's \<^verbatim>\<open>flag\<close> package is
  modelled as far as the command uses it: the argument loop for boolean and string flags, and the listing of
  defaults.  The home directory, the version string and the platform are arguments.
\<close>

section \<open>Flags\<close>

datatype flag_kind = BoolFlag | StringFlag

record flag_spec =
  fg_name :: string
  fg_kind :: flag_kind
  fg_default :: string
  fg_usage :: string

type_synonym flag_values = "string \<rightharpoonup> string"

datatype flag_error = FlagSyntax string | FlagUnknown string | FlagHelp | FlagBool string | FlagArgument string

definition find_flag :: "flag_spec list \<Rightarrow> string \<Rightarrow> flag_spec option" where
  "find_flag specs name = List.find (\<lambda>f. fg_name f = name) specs"

definition ParseBool :: "string \<Rightarrow> bool option" where
  "ParseBool s =
     (if s \<in> {''1'', ''t'', ''T'', ''TRUE'', ''true'', ''True''} then Some True
      else if s \<in> {''0'', ''f'', ''F'', ''FALSE'', ''false'', ''False''} then Some False
      else None)"

definition bool_text :: "bool \<Rightarrow> string" where "bool_text b = (if b then ''true'' else ''false'')"

text \<open>A flag's name and its value after the first \<^verbatim>\<open>=\<close> that is not the first character.\<close>

definition split_flag :: "string \<Rightarrow> string \<times> string option" where
  "split_flag s =
     (let n = hd s # takeWhile (\<lambda>c. c \<noteq> CHR ''='') (tl s); rest = drop (length n) s
      in (n, if rest = [] then None else Some (tl rest)))"

definition flag_name :: "string \<Rightarrow> string" where
  "flag_name s = (if s ! 1 = CHR ''-'' then drop 2 s else drop 1 s)"

text \<open>\<^verbatim>\<open>Parse\<close>: flags up to the first argument that is not one; the rest is left over.\<close>

fun parse_flags :: "flag_spec list \<Rightarrow> flag_values \<Rightarrow> string list \<Rightarrow> (flag_error, flag_values \<times> string list) result" where
  "parse_flags specs vs [] = Ok (vs, [])"
| "parse_flags specs vs (s # args) =
     (if length s < 2 \<or> hd s \<noteq> CHR ''-'' then Ok (vs, s # args)
      else if s = ''--'' then Ok (vs, args)
      else if flag_name s = [] \<or> hd (flag_name s) \<in> {CHR ''-'', CHR ''=''} then Err (FlagSyntax s)
      else case split_flag (flag_name s) of (n, value) \<Rightarrow>
                (case find_flag specs n of
                   None \<Rightarrow> if n \<in> {''help'', ''h''} then Err FlagHelp else Err (FlagUnknown n)
                 | Some f \<Rightarrow>
                     (case fg_kind f of
                        BoolFlag \<Rightarrow>
                          (case (case value of None \<Rightarrow> Some True | Some v \<Rightarrow> ParseBool v) of
                             None \<Rightarrow> Err (FlagBool n)
                           | Some b \<Rightarrow> parse_flags specs (vs(n \<mapsto> bool_text b)) args)
                      | StringFlag \<Rightarrow>
                          (case value of
                             Some v \<Rightarrow> parse_flags specs (vs(n \<mapsto> v)) args
                           | None \<Rightarrow> (case args of [] \<Rightarrow> Err (FlagArgument n) | v # rest \<Rightarrow> parse_flags specs (vs(n \<mapsto> v)) rest)))))"

definition flag_defaults :: "flag_spec list \<Rightarrow> flag_values" where
  "flag_defaults specs = map_of (map (\<lambda>f. (fg_name f, fg_default f)) specs)"

text \<open>\<^verbatim>\<open>PrintDefaults\<close>: the flags by name, with a default that is not the zero value.\<close>

definition flag_line :: "flag_spec \<Rightarrow> string" where
  "flag_line f =
     (let head = ''  -'' @ fg_name f @ (case fg_kind f of BoolFlag \<Rightarrow> '''' | StringFlag \<Rightarrow> '' string'')
      in head @ (if length head \<le> 4 then [CHR 0x09] else [CHR 0x0A] @ ''    '' @ [CHR 0x09]) @ fg_usage f
         @ (case fg_kind f of
              BoolFlag \<Rightarrow> if fg_default f = ''false'' then '''' else '' (default '' @ fg_default f @ '')''
            | StringFlag \<Rightarrow> if fg_default f = '''' then '''' else '' (default '' @ quote_string (fg_default f) @ '')''))"

definition PrintDefaults :: "flag_spec list \<Rightarrow> string list" where
  "PrintDefaults specs = map flag_line (sort_key fg_name specs)"

section \<open>The client's flags\<close>

definition defaultCoordinatorURL :: string where "defaultCoordinatorURL = ''ws://walkie-coordinator:443''"

definition default_path :: "string \<Rightarrow> string option \<Rightarrow> string" where
  "default_path name home = (case home of None \<Rightarrow> '''' | Some h \<Rightarrow> path_Join h (''.walkie/'' @ name))"

definition defaultDBPath :: "string option \<Rightarrow> string" where "defaultDBPath home = default_path ''history.db'' home"
definition defaultIdentityPath :: "string option \<Rightarrow> string" where "defaultIdentityPath home = default_path ''identity.key'' home"
definition defaultSocketPath :: "string option \<Rightarrow> string" where "defaultSocketPath home = default_path ''control.sock'' home"

definition registerClientFlags :: "string option \<Rightarrow> flag_spec list" where
  "registerClientFlags home =
     [\<lparr>fg_name = ''version'', fg_kind = BoolFlag, fg_default = ''false'', fg_usage = ''print version and build variant, then exit''\<rparr>,
      \<lparr>fg_name = ''coordinator'', fg_kind = StringFlag, fg_default = defaultCoordinatorURL, fg_usage = ''control-plane WebSocket URL of the coordinator''\<rparr>,
      \<lparr>fg_name = ''db'', fg_kind = StringFlag, fg_default = defaultDBPath home, fg_usage = ''path to the history database''\<rparr>,
      \<lparr>fg_name = ''identity'', fg_kind = StringFlag, fg_default = defaultIdentityPath home, fg_usage = ''path to this device's X25519 identity key''\<rparr>,
      \<lparr>fg_name = ''socket'', fg_kind = StringFlag, fg_default = defaultSocketPath home, fg_usage = ''local control socket path (empty disables the control socket)''\<rparr>]"

record client_config =
  cc_coordinatorURL :: string
  cc_dbPath :: string
  cc_identityPath :: string
  cc_socketPath :: string

section \<open>Help\<close>

definition voice_word :: string where "voice_word = [CHR 0x22] @ ''voice'' @ [CHR 0x22]"

definition printVersion :: "string \<Rightarrow> string \<Rightarrow> string \<Rightarrow> bool \<Rightarrow> string list" where
  "printVersion version goos goarch voice =
     [''walkie '' @ version @ '' '' @ goos @ ''/'' @ goarch,
      if Available voice then ''audio  available (built with the '' @ voice_word @ '' tag)''
      else ''audio  unavailable (built without the '' @ voice_word @ '' tag)'']"

datatype subcommand = CmdHistory | CmdHelp

definition subcommandSummaries :: "(string \<times> string) list" where
  "subcommandSummaries =
     [(''history'', ''query this device's stored message history (one JSON object per line)''),
      (''help'', ''show this help'')]"

definition subcommandRunners :: "(string \<times> subcommand) list" where
  "subcommandRunners = [(''history'', CmdHistory), (''help'', CmdHelp)]"

definition dispatchSubcommand :: "string \<Rightarrow> subcommand option" where
  "dispatchSubcommand name = map_of subcommandRunners name"

definition help_row :: "string \<Rightarrow> string \<Rightarrow> string" where
  "help_row tail summary =
     ''  walkie '' @ tail @ replicate (length ''history [flags]'' - length tail) (CHR '' '') @ ''  '' @ summary"

definition summary_row :: "string \<times> string \<Rightarrow> string" where
  "summary_row sc =
     (if fst sc = ''history'' then help_row ''history [flags]'' (snd sc @ '' (-help for its flags)'')
      else help_row (fst sc) (snd sc))"

definition runHelp :: "string \<Rightarrow> string \<Rightarrow> string \<Rightarrow> bool \<Rightarrow> string option \<Rightarrow> nat \<times> string list" where
  "runHelp version goos goarch voice home =
     (0, printVersion version goos goarch voice
       @ ['''', ''Usage:'', help_row '''' ''start the interactive client''] @ map summary_row subcommandSummaries
       @ [help_row ''-version'' ''print version and build variant, then exit'', '''',
          ''Interactive commands (press ? inside the client for the same list):'', helpText, ''Build variants:'',
          if Available voice
          then ''  This binary was built with the '' @ voice_word @ '' tag: audio capture/playback plumbing is compiled in.''
          else ''  This binary is the default pure-Go build: no audio plumbing. Text and presence work fully.'',
          ''  Voice notes are NOT implemented yet in any build; today the tag changes only'',
          ''  what -version and this help report. A voice-tagged binary needs CGO to build.'', '''', ''Client flags:'']
       @ PrintDefaults (registerClientFlags home)
       @ ['''', ''Security notes and operations docs: see README.md, docs/quickstart.md and docs/runbook.md.''])"

section \<open>Main\<close>

datatype main_action = Subcommand subcommand "string list" | UsageExit nat | VersionExit | ExitNoPath string | StartClient client_config

definition client_of :: "flag_values \<Rightarrow> client_config" where
  "client_of vs = \<lparr>cc_coordinatorURL = the (vs ''coordinator''), cc_dbPath = the (vs ''db''),
     cc_identityPath = the (vs ''identity''), cc_socketPath = the (vs ''socket'')\<rparr>"

text \<open>\<^verbatim>\<open>main\<close> on the arguments after the program's name.  A flag error ends the process with 2, a request for help with 0.\<close>

definition main_flags :: "string option \<Rightarrow> string list \<Rightarrow> main_action" where
  "main_flags home args =
     (let specs = registerClientFlags home
      in case parse_flags specs (flag_defaults specs) args of
           Inl e \<Rightarrow> UsageExit (if e = FlagHelp then 0 else 2)
         | Inr (vs, _) \<Rightarrow>
             (if vs ''version'' = Some ''true'' then VersionExit
              else if vs ''db'' = Some '''' then ExitNoPath ''-db''
              else if vs ''identity'' = Some '''' then ExitNoPath ''-identity''
              else StartClient (client_of vs)))"

definition walkie_main :: "string option \<Rightarrow> string list \<Rightarrow> main_action" where
  "walkie_main home args =
     (case args of
        [] \<Rightarrow> main_flags home []
      | a # rest \<Rightarrow> (case dispatchSubcommand a of Some cmd \<Rightarrow> Subcommand cmd rest | None \<Rightarrow> main_flags home args))"

section \<open>Properties\<close>

lemma parse_flags_dom:
  "parse_flags specs vs args = Ok (vs', rest) \<Longrightarrow> dom vs' \<subseteq> dom vs \<union> fg_name ` set specs \<and> dom vs \<subseteq> dom vs' \<and> (\<exists>used. args = used @ rest)"
proof (induction specs vs args rule: parse_flags.induct)
  case (2 specs vs s args)
  have find: "fg_name f = n \<and> f \<in> set specs" if "find_flag specs n = Some f" for f n
    using that by (auto simp: find_flag_def find_Some_iff)
  show ?case
  proof (cases "length s < 2 \<or> hd s \<noteq> CHR ''-'' \<or> s = ''--''")
    case True
    then show ?thesis using "2.prems" by (auto split: if_splits)
  next
    case False
    obtain n val where sp: "split_flag (flag_name s) = (n, val)" by fastforce
    have ok: "\<not> (flag_name s = [] \<or> hd (flag_name s) \<in> {CHR ''-'', CHR ''=''})"
      using "2.prems" False by (auto split: if_splits)
    have "find_flag specs n \<noteq> None"
    proof
      assume "find_flag specs n = None"
      then show False using "2.prems" False sp ok by (auto split: if_splits)
    qed
    then obtain f where f: "find_flag specs n = Some f" by blast
    consider (bool) b where "parse_flags specs (vs(n \<mapsto> bool_text b)) args = Ok (vs', rest)"
          "fg_kind f = BoolFlag" "(case val of None \<Rightarrow> Some True | Some v \<Rightarrow> ParseBool v) = Some b"
      | (valued) v where "parse_flags specs (vs(n \<mapsto> v)) args = Ok (vs', rest)" "fg_kind f = StringFlag" "val = Some v"
      | (apart) v rs where "args = v # rs" "parse_flags specs (vs(n \<mapsto> v)) rs = Ok (vs', rest)" "fg_kind f = StringFlag" "val = None"
      using "2.prems" False sp ok f
      by (auto split: if_splits flag_kind.splits option.splits list.splits)
    then show ?thesis
    proof cases
      case bool
      have "dom vs' \<subseteq> dom (vs(n \<mapsto> bool_text b)) \<union> fg_name ` set specs \<and> dom (vs(n \<mapsto> bool_text b)) \<subseteq> dom vs' \<and> (\<exists>used. args = used @ rest)"
        by (rule "2.IH"(1) [OF _ _ _ sp [symmetric] f bool(2,3) bool(1)]) (use False ok in blast)+
      then show ?thesis using find [OF f] by (auto intro: exI [of _ "s # _"])
    next
      case valued
      have "dom vs' \<subseteq> dom (vs(n \<mapsto> v)) \<union> fg_name ` set specs \<and> dom (vs(n \<mapsto> v)) \<subseteq> dom vs' \<and> (\<exists>used. args = used @ rest)"
        by (rule "2.IH"(3) [OF _ _ _ sp [symmetric] f valued(2,3) valued(1)]) (use False ok in blast)+
      then show ?thesis using find [OF f] by (auto intro: exI [of _ "s # _"])
    next
      case apart
      have "dom vs' \<subseteq> dom (vs(n \<mapsto> v)) \<union> fg_name ` set specs \<and> dom (vs(n \<mapsto> v)) \<subseteq> dom vs' \<and> (\<exists>used. rs = used @ rest)"
        by (rule "2.IH"(2) [OF _ _ _ sp [symmetric] f apart(3,4,1) apart(2)]) (use False ok in blast)+
      then show ?thesis using find [OF f] apart(1) by (auto intro: exI [of _ "s # v # _"])
    qed
  qed
qed simp
text \<open>
  The help and the program agree: a name is dispatched exactly if the help has a row for it, and the help lists exactly
  the flags the client parses, by the registration it parses with.
\<close>

theorem help_lists_what_main_accepts:
  "(dispatchSubcommand name \<noteq> None \<longleftrightarrow> name \<in> fst ` set subcommandSummaries)
   \<and> set (map summary_row subcommandSummaries) \<subseteq> set (snd (runHelp version goos goarch voice home))
   \<and> mset (map flag_line (registerClientFlags home)) = mset (PrintDefaults (registerClientFlags home))
   \<and> set (PrintDefaults (registerClientFlags home)) \<subseteq> set (snd (runHelp version goos goarch voice home))
   \<and> (find_flag (registerClientFlags home) n \<noteq> None \<longleftrightarrow> n \<in> fg_name ` set (registerClientFlags home))
   \<and> fst (runHelp version goos goarch voice home) = 0"
proof -
  have "mset (map flag_line (registerClientFlags home)) = mset (PrintDefaults (registerClientFlags home))"
    unfolding PrintDefaults_def by (simp only: mset_map mset_sort)
  moreover have "find_flag (registerClientFlags home) n \<noteq> None \<longleftrightarrow> n \<in> fg_name ` set (registerClientFlags home)"
    by (auto simp: find_flag_def find_None_iff)
  moreover have "dispatchSubcommand name \<noteq> None \<longleftrightarrow> name \<in> fst ` set subcommandSummaries"
    by (simp add: dispatchSubcommand_def subcommandRunners_def subcommandSummaries_def)
  moreover have "set (map summary_row subcommandSummaries) \<subseteq> set (snd (runHelp version goos goarch voice home))"
    "set (PrintDefaults (registerClientFlags home)) \<subseteq> set (snd (runHelp version goos goarch voice home))"
    unfolding runHelp_def snd_conv set_append by blast+
  ultimately show ?thesis by (simp add: runHelp_def)
qed

lemma defaults_dom: "dom (flag_defaults (registerClientFlags home)) = {''version'', ''coordinator'', ''db'', ''identity'', ''socket''}"
  by (auto simp: flag_defaults_def registerClientFlags_def)

text \<open>
  The client starts only with the paths it needs: whatever the arguments, a started client has a database and an
  identity path that are not empty; a subcommand's name comes first and its arguments are its own; and without arguments and
  with a home directory the client starts with the defaults.  An unknown name is no error: it starts the client.
\<close>

theorem main_starts_only_with_its_paths:
  "(walkie_main home args = StartClient cfg \<longrightarrow> cc_dbPath cfg \<noteq> '''' \<and> cc_identityPath cfg \<noteq> '''')
   \<and> (dispatchSubcommand a = Some cmd \<longrightarrow> walkie_main home (a # rest) = Subcommand cmd rest)
   \<and> (dispatchSubcommand b = None \<and> (length b < 2 \<or> hd b \<noteq> CHR ''-'') \<longrightarrow> walkie_main home (b # rest) = walkie_main home [])"
proof (intro conjI impI)
  have run: "cc_dbPath cfg \<noteq> '''' \<and> cc_identityPath cfg \<noteq> ''''" if m: "main_flags home as = StartClient cfg" for as
  proof -
    let ?specs = "registerClientFlags home"
    obtain vs rest where p: "parse_flags ?specs (flag_defaults ?specs) as = Ok (vs, rest)"
      "vs ''db'' \<noteq> Some ''''" "vs ''identity'' \<noteq> Some ''''" "cfg = client_of vs"
      using m by (auto simp: main_flags_def Let_def split: sum.splits if_splits)
    have "{''db'', ''identity''} \<subseteq> dom vs" using parse_flags_dom [OF p(1)] defaults_dom by auto
    then show ?thesis using p(2-4) by (auto simp: client_of_def)
  qed
  show "cc_dbPath cfg \<noteq> ''''" "cc_identityPath cfg \<noteq> ''''" if "walkie_main home args = StartClient cfg"
    using that run by (auto simp: walkie_main_def split: list.splits option.splits)
  show "walkie_main home (a # rest) = Subcommand cmd rest" if "dispatchSubcommand a = Some cmd"
    using that by (simp add: walkie_main_def)
  show "walkie_main home (b # rest) = walkie_main home []" if "dispatchSubcommand b = None \<and> (length b < 2 \<or> hd b \<noteq> CHR ''-'')"
    using that by (auto simp: walkie_main_def main_flags_def Let_def)
qed

theorem main_starts_only_with_its_paths_witness:
  "walkie_main (Some ''/home/mia'') [''histroy''] = walkie_main (Some ''/home/mia'') []
   \<and> walkie_main (Some ''/home/mia'') [] = StartClient \<lparr>cc_coordinatorURL = ''ws://walkie-coordinator:443'', cc_dbPath = ''/home/mia/.walkie/history.db'',
        cc_identityPath = ''/home/mia/.walkie/identity.key'', cc_socketPath = ''/home/mia/.walkie/control.sock''\<rparr>
   \<and> walkie_main None [] = ExitNoPath ''-db''"
proof -
  have "dispatchSubcommand ''histroy'' = None \<and> (length ''histroy'' < 2 \<or> hd ''histroy'' \<noteq> CHR ''-'')" by code_simp
  then have "walkie_main (Some ''/home/mia'') [''histroy''] = walkie_main (Some ''/home/mia'') []"
    using main_starts_only_with_its_paths [of "Some ''/home/mia''" _ _ _ _ _ "''histroy''"] by blast
  moreover have "walkie_main (Some ''/home/mia'') [] = StartClient \<lparr>cc_coordinatorURL = ''ws://walkie-coordinator:443'', cc_dbPath = ''/home/mia/.walkie/history.db'',
        cc_identityPath = ''/home/mia/.walkie/identity.key'', cc_socketPath = ''/home/mia/.walkie/control.sock''\<rparr>" by code_simp
  moreover have "walkie_main None [] = ExitNoPath ''-db''" by code_simp
  ultimately show ?thesis by blast
qed

end
