(* ===== verification/Metrics.thy ===== *)
theory Metrics
  imports Prelude
begin

text \<open>
  \<^verbatim>\<open>src/internal/obs/metrics.go\<close>, \<^verbatim>\<open>logging.go\<close> and \<^verbatim>\<open>serve.go\<close>: the coordinator's metric set.  Gauges, counters and histograms are
  the values their documented operations make of them; a labelled family is the list of its series.  A nil set, which every
  method accepts, is \<^term>\<open>None\<close>.
\<close>

section \<open>The metric set\<close>

record histogram =
  hg_buckets :: "(int \<times> nat) list"
  hg_count :: nat
  hg_sum :: int

record metrics =
  mt_connectedDevices :: int
  mt_queueDepth :: histogram
  mt_queueEvictions :: "(string \<times> nat) list"
  mt_messagesTotal :: nat
  mt_authRefusals :: nat
  mt_reconnects :: nat
  mt_dataPlanePaths :: "(string \<times> nat) list"

definition ExponentialBuckets :: "int \<Rightarrow> int \<Rightarrow> nat \<Rightarrow> int list" where
  "ExponentialBuckets start factor count = map (\<lambda>i. start * factor ^ i) [0..<count]"

text \<open>\<^verbatim>\<open>WithLabelValues\<close> makes the series if it is not there.\<close>

definition with_label :: "string \<Rightarrow> (string \<times> nat) list \<Rightarrow> (string \<times> nat) list" where
  "with_label l f = (if map_of f l = None then f @ [(l, 0)] else f)"

definition inc_label :: "string \<Rightarrow> (string \<times> nat) list \<Rightarrow> (string \<times> nat) list" where
  "inc_label l f = map (\<lambda>(k, n). (k, if k = l then n + 1 else n)) (with_label l f)"

definition observe :: "int \<Rightarrow> histogram \<Rightarrow> histogram" where
  "observe v h = \<lparr>hg_buckets = map (\<lambda>(b, n). (b, if v \<le> b then n + 1 else n)) (hg_buckets h), hg_count = hg_count h + 1, hg_sum = hg_sum h + v\<rparr>"

definition NewMetrics :: metrics where
  "NewMetrics =
     \<lparr>mt_connectedDevices = 0,
      mt_queueDepth = \<lparr>hg_buckets = map (\<lambda>b. (b, 0)) (ExponentialBuckets 1 2 9), hg_count = 0, hg_sum = 0\<rparr>,
      mt_queueEvictions = with_label ''size_cap'' (with_label ''ttl'' []), mt_messagesTotal = 0, mt_authRefusals = 0, mt_reconnects = 0,
      mt_dataPlanePaths = with_label ''relay'' (with_label ''direct'' [])\<rparr>"

definition SetConnectedDevices :: "int \<Rightarrow> metrics option \<Rightarrow> metrics option" where
  "SetConnectedDevices n = map_option (\<lambda>m. m\<lparr>mt_connectedDevices := n\<rparr>)"
definition ObserveQueueDepth :: "int \<Rightarrow> metrics option \<Rightarrow> metrics option" where
  "ObserveQueueDepth depth = map_option (\<lambda>m. if depth < 0 then m else m\<lparr>mt_queueDepth := observe depth (mt_queueDepth m)\<rparr>)"
definition IncQueueEviction :: "string \<Rightarrow> metrics option \<Rightarrow> metrics option" where
  "IncQueueEviction reason = map_option (\<lambda>m. m\<lparr>mt_queueEvictions := inc_label reason (mt_queueEvictions m)\<rparr>)"
definition IncMessages :: "metrics option \<Rightarrow> metrics option" where
  "IncMessages = map_option (\<lambda>m. m\<lparr>mt_messagesTotal := mt_messagesTotal m + 1\<rparr>)"
definition IncAuthRefusal :: "metrics option \<Rightarrow> metrics option" where
  "IncAuthRefusal = map_option (\<lambda>m. m\<lparr>mt_authRefusals := mt_authRefusals m + 1\<rparr>)"
definition IncReconnect :: "metrics option \<Rightarrow> metrics option" where
  "IncReconnect = map_option (\<lambda>m. m\<lparr>mt_reconnects := mt_reconnects m + 1\<rparr>)"
definition ObserveDataPlanePath :: "string \<Rightarrow> metrics option \<Rightarrow> metrics option" where
  "ObserveDataPlanePath mode = map_option (\<lambda>m. m\<lparr>mt_dataPlanePaths := inc_label mode (mt_dataPlanePaths m)\<rparr>)"

datatype log_level = LevelDebug | LevelInfo | LevelWarn | LevelError

definition ParseLevel :: "string \<Rightarrow> log_level" where
  "ParseLevel s = (if s = ''debug'' then LevelDebug else if s = ''warn'' then LevelWarn else if s = ''error'' then LevelError else LevelInfo)"

text \<open>\<^verbatim>\<open>obs.Serve\<close>: how the listener ended, or the outcome of the shutdown after its context ended.\<close>

datatype obs_end = ObsListener bool | ObsShutdown bool

definition obs_Serve :: "obs_end \<Rightarrow> (string, unit) result" where
  "obs_Serve e =
     (case e of
        ObsListener closed \<Rightarrow> if closed then Ok () else Err ''obs: serve''
      | ObsShutdown in_time \<Rightarrow> if in_time then Ok () else Err ''obs: shutdown'')"

section \<open>Calls\<close>

datatype metric_call = McConnected int | McDepth int | McEviction string | McMessage | McRefusal | McReconnect | McPath string

fun record_call :: "metric_call \<Rightarrow> metrics option \<Rightarrow> metrics option" where
  "record_call (McConnected n) m = SetConnectedDevices n m"
| "record_call (McDepth d) m = ObserveQueueDepth d m"
| "record_call (McEviction r) m = IncQueueEviction r m"
| "record_call McMessage m = IncMessages m"
| "record_call McRefusal m = IncAuthRefusal m"
| "record_call McReconnect m = IncReconnect m"
| "record_call (McPath p) m = ObserveDataPlanePath p m"

definition known_labels :: "metric_call \<Rightarrow> bool" where
  "known_labels c \<longleftrightarrow> (case c of McEviction r \<Rightarrow> r \<in> {''ttl'', ''size_cap''} | McPath p \<Rightarrow> p \<in> {''direct'', ''relay''} | _ \<Rightarrow> True)"

definition depths :: "metric_call list \<Rightarrow> int list" where
  "depths cs = concat (map (\<lambda>c. case c of McDepth d \<Rightarrow> if d < 0 then [] else [d] | _ \<Rightarrow> []) cs)"

text \<open>What the metric set must show after some calls.\<close>

definition tally :: "metric_call list \<Rightarrow> metrics" where
  "tally cs =
     \<lparr>mt_connectedDevices = fold (\<lambda>c n. case c of McConnected k \<Rightarrow> k | _ \<Rightarrow> n) cs 0,
      mt_queueDepth = \<lparr>hg_buckets = map (\<lambda>b. (b, length (filter (\<lambda>d. d \<le> b) (depths cs)))) (ExponentialBuckets 1 2 9),
                       hg_count = length (depths cs), hg_sum = sum_list (depths cs)\<rparr>,
      mt_queueEvictions = map (\<lambda>r. (r, count_list cs (McEviction r))) [''ttl'', ''size_cap''],
      mt_messagesTotal = count_list cs McMessage, mt_authRefusals = count_list cs McRefusal, mt_reconnects = count_list cs McReconnect,
      mt_dataPlanePaths = map (\<lambda>p. (p, count_list cs (McPath p))) [''direct'', ''relay'']\<rparr>"

section \<open>Properties\<close>

lemma depths_append [simp]: "depths (cs @ ds) = depths cs @ depths ds"
  by (simp add: depths_def)

lemma tally_new: "NewMetrics = tally []"
  by (simp add: NewMetrics_def tally_def depths_def with_label_def)

lemma inc_two:
  "l \<in> {a, b} \<Longrightarrow> a \<noteq> b \<Longrightarrow> inc_label l [(a, m), (b, n)] = [(a, m + (if l = a then 1 else 0)), (b, n + (if l = b then 1 else 0))]"
  by (auto simp: inc_label_def with_label_def)

lemma tally_step: "known_labels c \<Longrightarrow> record_call c (Some (tally cs)) = Some (tally (cs @ [c]))"
proof (cases c)
  case (McDepth d)
  then show ?thesis by (simp add: ObserveQueueDepth_def tally_def depths_def observe_def comp_def)
next
  case (McEviction r)
  assume "known_labels c"
  then have "r \<in> {''ttl'', ''size_cap''}" using McEviction by (simp add: known_labels_def)
  then show ?thesis using McEviction by (auto simp: IncQueueEviction_def tally_def depths_def inc_two)
next
  case (McPath p)
  assume "known_labels c"
  then have "p \<in> {''direct'', ''relay''}" using McPath by (simp add: known_labels_def)
  then show ?thesis using McPath by (auto simp: ObserveDataPlanePath_def tally_def depths_def inc_two)
qed (simp_all add: tally_def depths_def SetConnectedDevices_def IncMessages_def IncAuthRefusal_def IncReconnect_def)

text \<open>
  Every series counts its calls: after any calls with the labels the coordinator uses, a new metric set
  shows exactly the tally of those calls, with the label sets it was created with and nothing more, and negative depths are ignored;
  on a nil set every call is harmless.
\<close>

theorem metrics_count_their_calls:
  assumes "list_all known_labels cs"
  shows "fold record_call cs (Some NewMetrics) = Some (tally cs)
       \<and> fold record_call ds None = None"
proof (rule conjI)
  show "fold record_call cs (Some NewMetrics) = Some (tally cs)"
    using assms by (induction cs rule: rev_induct) (simp_all add: tally_new tally_step)
  have "record_call c None = None" for c
    by (cases c) (simp_all add: SetConnectedDevices_def ObserveQueueDepth_def IncQueueEviction_def IncMessages_def IncAuthRefusal_def
        IncReconnect_def ObserveDataPlanePath_def)
  then show "fold record_call ds None = None" by (induction ds) simp_all
qed

theorem metrics_count_their_calls_witness:
  "map_option mt_queueEvictions (fold record_call [McEviction ''ttl'', McDepth 3, McEviction ''ttl''] (Some NewMetrics)) = Some [(''ttl'', 2), (''size_cap'', 0)]"
proof -
  have "list_all known_labels [McEviction ''ttl'', McDepth 3, McEviction ''ttl'']" by (simp add: known_labels_def)
  from metrics_count_their_calls [OF this] show ?thesis by (simp add: tally_def)
qed

end
