(* ===== verification/Spec2Isabelle.thy ===== *)
theory Spec2Isabelle
  imports Journey Addr ClientProps CtlClient CtlListen Fleet Datagram TuiView HistoryText StoreOpen Startup Session Cmd Metrics
begin

text \<open>
  Verification of walkie, a terminal messenger for the devices of one tailnet: a coordinator
  (\<^verbatim>\<open>src/cmd/walkie-coordinator\<close>, \<^verbatim>\<open>src/internal/coordinator\<close>) that authenticates connections, routes
  messages, holds them for offline devices and tracks presence, and a client (\<^verbatim>\<open>src/cmd/walkie\<close>, \<^verbatim>\<open>src/internal/control\<close>,
  \<^verbatim>\<open>messagehub\<close>, \<^verbatim>\<open>outbox\<close>, \<^verbatim>\<open>history\<close>, \<^verbatim>\<open>presenceview\<close>, \<^verbatim>\<open>tui\<close>, \<^verbatim>\<open>ctlsocket\<close>) that composes, delivers, files and shows them.  The two
  speak protobuf envelopes over a WebSocket.

  \<^bold>\<open>Conventions.\<close>  A Go struct is a record, an error a value of \<open>('e, 'a) result\<close>, a
  panic an error value of its own, an instant the nanoseconds since Go's zero time.  Integers keep
  their width where the code converts or can overflow.  A goroutine is a program counter in the
  record of its owner, a step relation interleaves them, and reachability is an inductive closure;
  one mutex section is one step.  A statement, system call or write that can fail takes an argument
  that says whether it does, so every error path is a branch.  Code that is not in the
  repository (protobuf, the WebSocket library, the cryptographic primitives, the tailnet daemon, the
  terminal toolkit) is an argument, with its documented laws as named hypotheses; the witnesses instantiate it.

  \<^bold>\<open>Theories.\<close>
  \<^item> \<open>Prelude\<close>: types, integer conversions, UTF-8, quoting, association lists, list windows.  \<open>Channels\<close>: the interface of a
    bounded channel that drops the newest.  \<open>Codec\<close>: the interface of an encoding, and of one that preserves the order.
    \<open>Runes\<close>: text as runes and lines.
  \<^item> \<open>Message\<close>, \<open>Dedup\<close>, \<open>ChatLog\<close> (\<^verbatim>\<open>internal/message\<close>): messages and conversation keys, the ring of remembered
    identifiers as a refinement of a window, the log that displays every message once and in order.
  \<^item> \<open>Wire\<close> (\<^verbatim>\<open>genproto/walkie/v1\<close>): envelopes, payloads and the version gate.
  \<^item> \<open>Queue\<close>, \<open>QueueProps\<close>, \<open>QueueRuns\<close> (\<^verbatim>\<open>coordinator/queue\<close>): the offline queue with its tables, cursors, watcher and sealing;
    invariants of every operation; accepted messages survive until acknowledged or expired, positions
    are never reused, resume is the retained suffix, capacity and expiry are exact.
  \<^item> \<open>Presence\<close>, \<open>PresenceProps\<close>, \<open>Roster\<close> (\<^verbatim>\<open>coordinator/presence\<close>, \<^verbatim>\<open>coordinator/presence.go\<close>, \<^verbatim>\<open>presenceview\<close>): leases with generations, the tracker's
    tables, its updates on the wire and the client's view, which converges to the tracker.
  \<^item> \<open>Crypto\<close>, \<open>Keystore\<close> (\<^verbatim>\<open>internal/crypto\<close>): identity keys and their file, the sealed box, fingerprints, pins with first use and
    confirmed change.
  \<^item> \<open>Server\<close>, \<open>ServerProps\<close> (\<^verbatim>\<open>coordinator/server.go\<close>, \<^verbatim>\<open>routing.go\<close>, \<^verbatim>\<open>keys.go\<close>, \<^verbatim>\<open>tsauth\<close>): admission, the life of a connection, every
    handler, routing as the set of live connections.  \<open>Netaddr\<close>, \<open>Addr\<close>: network addresses as text, the resolvers and the identity gate;
    a printed IPv4 or IPv6 address parses to itself, so the daemon is asked about the peer of the socket.  \<open>Session\<close> (\<^verbatim>\<open>control/session.go\<close>, \<^verbatim>\<open>Serve\<close> and \<^verbatim>\<open>shutdown\<close>): the two ends of a connection
    accept the same messages, and a returned server has left nothing running.
  \<^item> \<open>Backoff\<close>, \<open>Machine\<close>, \<open>Client\<close>, \<open>ClientProps\<close> (\<^verbatim>\<open>internal/control\<close>): delays in wrapping arithmetic, the connection state machine with its
    lossless subscriptions, the supervisor, watchdog and stop as interleaved goroutines.
  \<^item> \<open>Outbox\<close>, \<open>History\<close>, \<open>Hub\<close>, \<open>App\<close>, \<open>AppProps\<close> (\<^verbatim>\<open>outbox\<close>, \<^verbatim>\<open>history\<close>, \<^verbatim>\<open>messagehub\<close>, \<^verbatim>\<open>cmd/walkie/app.go\<close>): holding, filing and recording messages, and the
    assembled client, whose accepted messages are held or sent under every interleaving.
  \<^item> \<open>StoredTime\<close>, \<open>HistoryText\<close>, \<open>Migrate\<close>, \<open>StoreOpen\<close> (\<^verbatim>\<open>internal/store\<close> and the time columns): the layouts of stored times over the Gregorian
    calendar, the history's table with text columns as a refinement of the history of instants, the schema
    migrations, and opening the files with their permissions.
  \<^item> \<open>Ctl\<close>, \<open>CtlProps\<close>, \<open>CtlClient\<close>, \<open>CtlListen\<close> (\<^verbatim>\<open>ctlsocket\<close>, \<^verbatim>\<open>cmd/walkie/ctl.go\<close>): the control socket's server with its bounded event queues, the handlers the
    client installs, and taking over the socket's path.
  \<^item> \<open>Tui\<close>, \<open>TuiProps\<close>, \<open>TuiView\<close> (\<^verbatim>\<open>internal/tui\<close>): the model, its keys and feeds, and every line of the screen.
  \<^item> \<open>Ops\<close>, \<open>Startup\<close>, \<open>Cmd\<close>, \<open>Metrics\<close>, \<open>Audio\<close> (\<^verbatim>\<open>cmd\<close>, \<^verbatim>\<open>internal/obs\<close>, \<^verbatim>\<open>internal/audio\<close>): configuration and health, the order in which both processes open and close
    their parts, the command line and its help, the metric set, the null audio backend.
  \<^item> \<open>FakeClock\<close>, \<open>Fleet\<close>, \<open>Datagram\<close> (\<^verbatim>\<open>clock/fake.go\<close>, \<^verbatim>\<open>testnet\<close>): the deterministic clock, the simulated fleet on it and the lossy
    datagram link, since every timed behaviour is tested on them.
  \<^item> \<open>Journey\<close> and this theory: the composition.  A message goes from the composer's terminal through the
    sender's client, the coordinator's handler, the wire or the offline queue with its sealing, to the reader's log.

  \<^bold>\<open>Interfaces.\<close>  The locale \<open>drop_newest\<close> is interpreted for the presence subscriptions, the roster's and the client's inbound
  channel; \<open>window_filter\<close> for the ring; \<open>held_fifo\<close> for the outbox; \<open>durable_backlog\<close> for the queue; \<open>connection_registry\<close> for the
  routing table; \<open>codec\<close> and \<open>ordered_codec\<close> for both layouts of stored times, the null audio packets and peer addresses.

  \<^bold>\<open>Bounds and termination.\<close>  No definition uses fuel.  Loops over finite data are structural; the heartbeat's search for the next
  slot and the pumps terminate by measures that are proved, and a claim that something happens is
  stated as the existence of a number of steps after which it has.  Where the code bounds a
  buffer, a queue, a table or a size, the model has the same constant.

  \<^bold>\<open>Not modelled.\<close>  The generated protobuf code, which is a parameter, and with it the byte layout of
  envelopes; JSON text of the control socket and of log lines (their values are modelled); the exposition format of
  metrics; ULID generation; the real clock, which forwards to the standard
  library; the terminal toolkit's event loop and the drawing of its text input; the memory model below
  mutexes and channels; SQLite beyond the statements used, whose effects are stated on the tables.
\<close>

section \<open>End to end\<close>

text \<open>
  C1. A direct message travels from its composer to its reader.  When the terminal of
  one device accepts a message and the coordinator serves the frame, then with a
  connection of the recipient registered exactly those connections get one and
  the same frame; without one, when the queue took the message, every handshake of
  the recipient below its position is answered with a frame for it.  In both cases
  that frame makes the recipient's client show the composed text as the newest line
  of the conversation with the sender the coordinator authenticated, with the
  composer's time and the coordinator's stamp, whether it was stored in the clear or
  sealed to the recipient's key.  Protobuf decodes what it encoded; the primitives
  satisfy their documented laws.
\<close>

theorem message_travels_from_composer_to_reader:
  assumes codec: "\<And>e b. qd_marshal (se_deps se) e = Some b \<Longrightarrow> qd_unmarshal (se_deps se) b = Some e"
    and sent: "SendFromUI pf hf dbf ok now mid (ConversationKey r) body a = (Ok (), a')"
    and wire: "qd_marshal (se_deps se) (snd (last (cl_sent (ap_client a')))) = Some data" "int (length data) \<le> maxEnvelopeBytes"
    and served: "serve_frame se c ident (BinaryFrame data) s = (cont, s1)"
    and reader: "fresh_reader r mid (Some key) b" "prims_ok (pf_prims rf)" "newIdentity (pf_prims rf) priv = Ok key"
      "pf_unmarshal rf = qd_unmarshal (se_deps se)" "seals_to (pf_prims rf) (se_deps se) r (ik_pub key)"
    and m: "m = travelling mid now (deviceOf ident) r body (se_now se)"
  shows "(routes_of r s \<noteq> [] \<longrightarrow>
            (\<exists>d. sv_out s1 = sv_out s @ map (\<lambda>k. (k, d)) (routes_of r s) \<and> reads rf d m b))
       \<and> (routes_of r s = [] \<and> sv_offline s = Some q \<and> queue_inv q \<and> sv_messages s1 = sv_messages s + 1 \<longrightarrow>
            (\<exists>d p. 0 < int64 p \<and> reads rf d m b
               \<and> (\<forall>se' ident' k v acked pv s'. se_deps se' = se_deps se \<and> \<not> se_qfails se' StQuery \<and> deviceOf ident' = r
                    \<and> ProtocolVersionSupported pv \<and> int64 acked < int64 p \<and> sv_offline s' = sv_offline s1 \<longrightarrow>
                    (\<exists>before after. sv_out (snd (handleHello se' k ident' (Hello v acked pv) s'))
                       = sv_out s' @ before @ (k, d) # after))))"
proof -
  obtain x where comp: "r \<noteq> ''''" "ValidateBody body = Ok ()"
    "cl_sent (ap_client a') = cl_sent (ap_client a) @ [(x, composed mid now r body)]"
    by (rule SendFromUI_sent [OF sent])
  have dec: "qd_unmarshal (se_deps se) data = Some (composed mid now r body)"
    using codec wire(1) comp(3) by simp
  have s1: "s1 = (if routes_of r s \<noteq> []
      then s\<lparr>sv_out := sv_out s @ map (\<lambda>k. (k, on_the_wire m)) (routes_of r s), sv_messages := sv_messages s + 1\<rparr>
      else deliverUnroutable se c r (on_the_wire m) s)"
    using serve_composed [OF dec wire(2) comp(1,2) refl, where ident = ident and c = c and s = s] served m by simp
  have m_fields: "msg_ID m = mid" "msg_Recipient m = r" by (simp_all add: m travelling_def)
  have live: "reads rf (on_the_wire m) m b"
    using reads_plain [of r m "Some key" b rf 0] reader(1) m_fields comp(1) by (simp add: on_the_wire_def)
  have held: "\<exists>d p. 0 < int64 p \<and> reads rf d m b
      \<and> (\<forall>se' ident' k v acked pv s'. se_deps se' = se_deps se \<and> \<not> se_qfails se' StQuery \<and> deviceOf ident' = r
           \<and> ProtocolVersionSupported pv \<and> int64 acked < int64 p \<and> sv_offline s' = sv_offline s1 \<longrightarrow>
           (\<exists>before after. sv_out (snd (handleHello se' k ident' (Hello v acked pv) s')) = sv_out s' @ before @ (k, d) # after))"
    if off: "routes_of r s = []" "sv_offline s = Some q" "queue_inv q" "sv_messages s1 = sv_messages s + 1"
  proof -
    have "deliverUnroutable se c r (on_the_wire m) s = s1" using s1 off(1) by simp
    then obtain q' p enc stored where h: "sv_offline s1 = Some q'" "qd_marshal (se_deps se) (on_the_wire m) = Some enc"
        "sealForStorage (se_deps se) r enc = Some stored" "0 < int64 p"
        "\<lparr>row_recipient = r, row_position = int64 p, row_message_id = env_message_id (on_the_wire m), row_body = stored,
           row_enqueued_at = se_now se\<rparr> \<in> set (retained r q')"
      using held_message [OF _ off(4) _ off(2,3)] by (metis (no_types, lifting) on_the_wire_def envelope.select_convs(5))
    obtain d where d: "deliveryFromStorage (se_deps se) (int64 p) stored = Some d" "reads rf d m b"
      using stored_reads [OF _ m_fields(2) comp(1) reader(2-4) codec [OF h(2)] reader(5) h(3)] reader(1) m_fields(1) by metis
    show ?thesis
      using h(4) d(2) hello_writes_row [OF _ h(5)] h(1) d(1) by (intro exI [of _ d] exI [of _ p]) simp
  qed
  show ?thesis using s1 live held by auto
qed

theorem message_travels_from_composer_to_reader_witness:
  "\<exists>s1 d before after. serve_frame demo_coordinator 1 ident_ann (BinaryFrame [2]) (NewServer None (Some sample_queue)) = (True, s1)
     \<and> sv_out (snd (handleHello demo_coordinator 7 (ident_ann\<lparr>id_NodeName := ''bob''\<rparr>) (Hello ''1'' 0 1) s1))
         = sv_out s1 @ before @ (7, d) # after
     \<and> reads demo_reader_platform d demo_message demo_reader"
proof -
  let ?s = "NewServer None (Some sample_queue)"
  obtain a' where sent: "SendFromUI sample_platform no_history_faults False True 9 ''2'' (ConversationKey ''bob'') ''hi'' sample_app = (Ok (), a')"
    "snd (last (cl_sent (ap_client a'))) = draft ''2''" by (rule demo_sent)
  let ?s1 = "deliverUnroutable demo_coordinator 1 ''bob'' (on_the_wire demo_message) ?s"
  have deps: "se_deps demo_coordinator = demo_deps" "se_now demo_coordinator = 500" "\<not> se_qfails demo_coordinator StQuery"
    by (simp_all add: demo_coordinator_def sample_se_def)
  have ann: "deviceOf ident_ann = ''ann''" "deviceOf (ident_ann\<lparr>id_NodeName := ''bob''\<rparr>) = ''bob''"
    by (simp_all add: deviceOf_def ident_ann_def)
  have off: "routes_of ''bob'' ?s = []" "sv_offline ?s = Some sample_queue" "sv_messages ?s = 0"
    by (simp_all add: routes_of_def NewServer_def)
  have served: "serve_frame demo_coordinator 1 ident_ann (BinaryFrame [2]) ?s = (True, ?s1)"
    using serve_composed [of demo_coordinator "[2]" "''2''" 9 "''bob''" "''hi''", OF _ _ _ hi_valid refl, where c = 1 and ident = ident_ann and s = ?s]
      deps off ann draft_composed by (simp add: demo_deps_def maxEnvelopeBytes_def demo_message_def)
  obtain d p where d: "0 < int64 p" "reads demo_reader_platform d demo_message demo_reader"
    "\<And>k v acked pv. ProtocolVersionSupported pv \<Longrightarrow> int64 acked < int64 p \<Longrightarrow>
       \<exists>before after. sv_out (snd (handleHello demo_coordinator k (ident_ann\<lparr>id_NodeName := ''bob''\<rparr>) (Hello v acked pv) ?s1))
         = sv_out ?s1 @ before @ (k, d) # after"
    using message_travels_from_composer_to_reader [where se = demo_coordinator and data = "[2]" and m = demo_message
        and b = demo_reader and rf = demo_reader_platform and priv = "replicate 32 7" and q = sample_queue,
        OF _ sent(1) _ _ served demo_fresh]
      deps ann off sent(2) demo_codec demo_seals demo_held toy_prims_ok toy_newIdentity sample_queue_inv
    by (simp add: demo_reader_platform_def demo_deps_def maxEnvelopeBytes_def demo_message_def) blast
  have "\<exists>before after. sv_out (snd (handleHello demo_coordinator 7 (ident_ann\<lparr>id_NodeName := ''bob''\<rparr>) (Hello ''1'' 0 1) ?s1))
      = sv_out ?s1 @ before @ (7, d) # after"
    by (rule d(3)) (use d(1) in \<open>simp_all add: version_supported_iff\<close>)
  then show ?thesis using served d(2) by blast
qed

end
